(* ===== verification/Prelude.thy ===== *)
theory Prelude
  imports Main "HOL-Library.Word"
begin

text \<open>
  Shared vocabulary of the development: the widths of the C types on the 32-bit
  little-endian ARM Cortex-M3 target, the byte-addressed store the string library
  works on, and the generic facts on words, lists and stores that the component
  theories use.

  Conventions of every theory.  A C pointer into memory is an address (a natural
  number; NULL is address 0); no object of a C program straddles the end of the
  address space, so address arithmetic does not wrap.  A pointer result that may be
  NULL is an \<open>option\<close>.  A loop that only a NUL byte in memory stops is a
  \<open>partial_function (option)\<close>: \<open>None\<close> is a loop that never stops.  On this target
  \<open>char\<close> is unsigned, \<open>int\<close> and \<open>long\<close> have 32 bits, \<open>long long\<close> has 64.
\<close>

unbundle bit_operations_syntax

type_synonym u8 = "8 word"
type_synonym u16 = "16 word"
type_synonym u32 = "32 word"
type_synonym u64 = "64 word"
type_synonym addr = nat
type_synonym mem = "addr \<Rightarrow> u8"

named_theorems mem_simps \<open>rewrite rules for loads and stores\<close>

section \<open>Lists\<close>

lemma those_map_Some [simp]: "those (map Some xs) = Some xs"
  by (induction xs) auto

lemma find_map: "List.find P (map f xs) = map_option f (List.find (P \<circ> f) xs)"
  by (induction xs) auto

section \<open>Little-endian access to the store\<close>

definition load32 :: "mem \<Rightarrow> addr \<Rightarrow> u32" where
  "load32 m a = ucast (m a) OR push_bit 8 (ucast (m (a + 1)))
     OR push_bit 16 (ucast (m (a + 2))) OR push_bit 24 (ucast (m (a + 3)))"

definition byte_of :: "nat \<Rightarrow> u32 \<Rightarrow> u8" where
  "byte_of i w = ucast (drop_bit (8 * i) w)"

definition store32 :: "mem \<Rightarrow> addr \<Rightarrow> u32 \<Rightarrow> mem" where
  "store32 m a w = m(a := byte_of 0 w, a + 1 := byte_of 1 w,
     a + 2 := byte_of 2 w, a + 3 := byte_of 3 w)"

definition bytes_at :: "mem \<Rightarrow> addr \<Rightarrow> nat \<Rightarrow> u8 list" where
  "bytes_at m a n = map m [a..<a + n]"

lemma byte_of_load32:
  "byte_of 0 (load32 m a) = m a"
  "byte_of 1 (load32 m a) = m (a + 1)"
  "byte_of 2 (load32 m a) = m (a + 2)"
  "byte_of 3 (load32 m a) = m (a + 3)"
  unfolding byte_of_def load32_def
  by (rule bit_word_eqI; auto simp: bit_simps dest: bit_imp_le_length)+

text \<open>A word copied from one place to another is four bytes, all read before any is
  written.\<close>

lemma load32_bytes:
  assumes "m a = byte_of 0 w" "m (a + 1) = byte_of 1 w" "m (a + 2) = byte_of 2 w" "m (a + 3) = byte_of 3 w"
  shows "load32 m a = w"
proof (rule bit_word_eqI)
  fix n assume n: "n < LENGTH(32)"
  consider "n < 8" | "8 \<le> n" "n < 16" | "16 \<le> n" "n < 24" | "24 \<le> n" "n < 32" using n by fastforce
  then show "bit (load32 m a) n = bit w n"
    by cases (use assms in \<open>auto simp: load32_def byte_of_def bit_simps\<close>)
qed

lemma load32_cong: "(\<And>i. i < 4 \<Longrightarrow> m (a + i) = m' (b + i)) \<Longrightarrow> load32 m a = load32 m' b"
proof -
  assume "\<And>i. i < 4 \<Longrightarrow> m (a + i) = m' (b + i)"
  from this [of 0] this [of 1] this [of 2] this [of 3] show ?thesis by (simp add: load32_def)
qed

lemma load32_store32:
  "load32 (store32 m a w) a = w"
  "b + 4 \<le> a \<or> a + 4 \<le> b \<Longrightarrow> load32 (store32 m a w) b = load32 m b"
  by (auto intro!: load32_bytes load32_cong simp: store32_def)

lemma store32_load32 [mem_simps]:
  "store32 m a (load32 m' b) = m(a := m' b, a + 1 := m' (b + 1),
     a + 2 := m' (b + 2), a + 3 := m' (b + 3))"
  by (simp add: store32_def byte_of_load32 del: One_nat_def)

lemma and_0xff: "w AND 0xff = take_bit 8 (w :: 'a::len word)"
  by (simp add: take_bit_eq_mask mask_eq_exp_minus_1)

lemma unat_u32_less: "unat (w :: u32) < 2 ^ 32"
proof -
  have "unat w < 2 ^ LENGTH(32)" by (rule unsigned_less)
  then show ?thesis by simp
qed

lemma unat_of_nat_u32: "n < 2 ^ 32 \<Longrightarrow> unat (of_nat n :: u32) = n"
  by (simp add: unsigned_of_nat take_bit_nat_eq_self)

lemma drop_bit_of_nat_u32: "n < 2 ^ 32 \<Longrightarrow> drop_bit k (of_nat n :: u32) = of_nat (n div 2 ^ k)"
proof (rule word_unat_eq_iff [THEN iffD2])
  assume n: "n < 2 ^ 32"
  have "unat (drop_bit k (of_nat n :: u32)) = unat (of_nat n :: u32) div 2 ^ k"
    by (simp only: unat_drop_bit_eq) (simp only: drop_bit_eq_div)
  also have "\<dots> = n div 2 ^ k" using n by (simp add: unat_of_nat)
  also have "\<dots> = unat (of_nat (n div 2 ^ k) :: u32)"
    using n le_less_trans [OF div_le_dividend [of n "2 ^ k"] n] by (simp add: unat_of_nat)
  finally show "unat (drop_bit k (of_nat n :: u32)) = unat (of_nat (n div 2 ^ k) :: u32)" .
qed

lemma unat_ucast_u8: "unat (ucast (w :: u32) :: u8) = unat w mod 256"
  by (simp add: unsigned_ucast_eq take_bit_eq_mod)

lemma byte_of_nat_u32: "n < 2 ^ 32 \<Longrightarrow> unat (ucast (drop_bit k (of_nat n :: u32)) :: u8) = n div 2 ^ k mod 256"
  by (simp only: drop_bit_of_nat_u32 unat_ucast_u8)
    (metis div_le_dividend le_less_trans unat_of_nat_u32)

lemma and_not_mask: "w AND NOT (mask n) = push_bit n (drop_bit n (w :: 'a::len word))"
  by (rule bit_word_eqI) (auto simp: bit_simps)

text \<open>Rounding down and up to a power of two does nothing to an aligned value.\<close>

lemma align_down: "take_bit n w = 0 \<Longrightarrow> w AND NOT (mask n) = (w :: 'a::len word)"
  using bits_ident [of n w] by (simp add: and_not_mask)

lemma align_up:
  assumes "take_bit n w = 0"
  shows "(w + mask n) AND NOT (mask n) = (w :: 'a::len word)"
proof -
  have "w AND mask n = 0" using assms by (simp add: take_bit_eq_mask)
  then have "w + mask n = w OR mask n" by (rule disjunctive_add_eq_or)
  then have "(w + mask n) AND NOT (mask n) = w AND NOT (mask n)"
    by (simp add: bit.conj_disj_distrib2)
  then show ?thesis using align_down [OF assms] by simp
qed

lemma take_bit_u32_0: "take_bit n (w :: u32) = 0 \<longleftrightarrow> unat w mod 2 ^ n = 0"
  by (simp only: word_unat_eq_iff unsigned_take_bit_eq unsigned_0) (simp add: take_bit_eq_mod)

lemma unat_ucast_u64 [simp]: "unat (ucast (w :: u32) :: u64) = unat w"
proof -
  have "unat w < 2 ^ LENGTH(32)" by (rule unsigned_less)
  then show ?thesis by (simp add: unsigned_ucast_eq take_bit_nat_eq_self)
qed

section \<open>The store\<close>

lemma length_bytes_at [simp]: "length (bytes_at m a n) = n"
  by (simp add: bytes_at_def)

lemma bytes_at_0 [simp]: "bytes_at m a 0 = []"
  by (simp add: bytes_at_def)

lemma bytes_at_Suc: "bytes_at m a (Suc n) = m a # bytes_at m (Suc a) n"
  by (simp add: bytes_at_def upt_conv_Cons del: upt_Suc)

lemma nth_bytes_at [simp]: "i < n \<Longrightarrow> bytes_at m a n ! i = m (a + i)"
  by (simp add: bytes_at_def)

lemma bytes_at_eq_iff:
  "bytes_at m a n = bytes_at m' b n \<longleftrightarrow> (\<forall>i<n. m (a + i) = m' (b + i))"
  by (auto simp: list_eq_iff_nth_eq)

lemma bytes_at_cong:
  "(\<And>i. i < n \<Longrightarrow> m (a + i) = m' (b + i)) \<Longrightarrow> bytes_at m a n = bytes_at m' b n"
  by (simp add: bytes_at_eq_iff)

text \<open>\<open>cstr m a s\<close>: at address \<open>a\<close> of the store stands the NUL-terminated string
  with the characters \<open>s\<close>.\<close>

primrec cstr :: "mem \<Rightarrow> addr \<Rightarrow> u8 list \<Rightarrow> bool" where
  "cstr m a [] \<longleftrightarrow> m a = 0"
| "cstr m a (c # s) \<longleftrightarrow> c \<noteq> 0 \<and> m a = c \<and> cstr m (Suc a) s"

lemma cstr_iff:
  "cstr m a s \<longleftrightarrow> (\<forall>i<length s. m (a + i) = s ! i) \<and> m (a + length s) = 0 \<and> 0 \<notin> set s"
  by (induction s arbitrary: a) (auto simp: less_Suc_eq_0_disj)

lemma cstr_nonzero: "cstr m a s \<Longrightarrow> 0 \<notin> set s"
  by (simp add: cstr_iff)

lemma cstr_unique: "cstr m a s \<Longrightarrow> cstr m a t \<Longrightarrow> s = t"
proof (induction s arbitrary: a t)
  case Nil
  then show ?case by (cases t) auto
next
  case (Cons c s)
  then show ?case by (cases t) auto
qed

lemma cstr_append:
  "cstr m a (s @ t) \<longleftrightarrow> (\<forall>i<length s. m (a + i) = s ! i) \<and> 0 \<notin> set s \<and> cstr m (a + length s) t"
  by (induction s arbitrary: a) (auto simp: less_Suc_eq_0_disj)

lemma cstr_cong:
  assumes "cstr m a s" and "\<And>i. i \<le> length s \<Longrightarrow> m' (b + i) = m (a + i)"
  shows "cstr m' b s"
  using assms by (auto simp: cstr_iff)

end
