(* ===== verification/CString.thy ===== *)
theory CString
  imports Prelude "HOL-Library.Sublist"
begin

text \<open>
  The string and memory routines of \<^verbatim>\<open>lib_generic/string.c\<close> over the byte store of
  the prelude, in the order of the source.  Routines that write return the new store;
  routines that scan for a NUL byte are partial functions.  The correctness lemmas
  relate each routine to the strings (\<^const>\<open>cstr\<close>) or byte blocks (\<^const>\<open>bytes_at\<close>)
  its arguments point to.
\<close>

section \<open>Definitions\<close>

subsection \<open>Copying and appending strings\<close>

partial_function (option) strcpy_loop :: "mem \<Rightarrow> addr \<Rightarrow> addr \<Rightarrow> mem option" where
  "strcpy_loop m dest src =
     (if m src \<noteq> 0 then strcpy_loop (m(dest := m src)) (dest + 1) (src + 1)
      else Some (m(dest := m src)))"

definition strcpy :: "mem \<Rightarrow> addr \<Rightarrow> addr \<Rightarrow> (mem \<times> addr) option" where
  "strcpy m dest src = map_option (\<lambda>m'. (m', dest)) (strcpy_loop m dest src)"

fun strncpy_loop :: "mem \<Rightarrow> addr \<Rightarrow> addr \<Rightarrow> nat \<Rightarrow> mem" where
  "strncpy_loop m dest src 0 = m"
| "strncpy_loop m dest src (Suc count) =
     (if m src \<noteq> 0 then strncpy_loop (m(dest := m src)) (dest + 1) (src + 1) count
      else m(dest := m src))"

definition strncpy :: "mem \<Rightarrow> addr \<Rightarrow> addr \<Rightarrow> nat \<Rightarrow> mem \<times> addr" where
  "strncpy m dest src count = (strncpy_loop m dest src count, dest)"

text \<open>The scan to the terminating NUL that \<open>strcat\<close>, \<open>strncat\<close> and \<open>strlen\<close> share.\<close>

partial_function (option) find_nul :: "mem \<Rightarrow> addr \<Rightarrow> addr option" where
  "find_nul m p = (if m p \<noteq> 0 then find_nul m (p + 1) else Some p)"

definition strcat :: "mem \<Rightarrow> addr \<Rightarrow> addr \<Rightarrow> (mem \<times> addr) option" where
  "strcat m dest src = Option.bind (find_nul m dest)
     (\<lambda>d. map_option (\<lambda>m'. (m', dest)) (strcpy_loop m d src))"

fun strncat_loop :: "mem \<Rightarrow> addr \<Rightarrow> addr \<Rightarrow> nat \<Rightarrow> mem" where
  "strncat_loop m dest src 0 = m"
| "strncat_loop m dest src (Suc count) =
     (let m' = m(dest := m src) in
      if m src \<noteq> 0 then
        (if count = 0 then m'(dest + 1 := 0)
         else strncat_loop m' (dest + 1) (src + 1) count)
      else m')"

definition strncat :: "mem \<Rightarrow> addr \<Rightarrow> addr \<Rightarrow> nat \<Rightarrow> (mem \<times> addr) option" where
  "strncat m dest src count =
     (if count \<noteq> 0
      then map_option (\<lambda>d. (strncat_loop m d src count, dest)) (find_nul m dest)
      else Some (m, dest))"

subsection \<open>Comparing and searching strings\<close>

text \<open>The result of \<open>strcmp\<close> goes through a \<open>signed char\<close>: the byte difference, read
  as an 8-bit two's complement number.\<close>

partial_function (option) strcmp :: "mem \<Rightarrow> addr \<Rightarrow> addr \<Rightarrow> int option" where
  "strcmp m cs ct =
     (if sint (m cs - m ct) \<noteq> 0 \<or> m cs = 0 then Some (sint (m cs - m ct))
      else strcmp m (cs + 1) (ct + 1))"

fun strncmp_loop :: "mem \<Rightarrow> addr \<Rightarrow> addr \<Rightarrow> nat \<Rightarrow> int \<Rightarrow> int" where
  "strncmp_loop m cs ct 0 res = res"
| "strncmp_loop m cs ct (Suc count) res =
     (let res' = sint (m cs - m ct) in
      if res' \<noteq> 0 \<or> m cs = 0 then res' else strncmp_loop m (cs + 1) (ct + 1) count res')"

definition strncmp :: "mem \<Rightarrow> addr \<Rightarrow> addr \<Rightarrow> nat \<Rightarrow> int" where
  "strncmp m cs ct count = strncmp_loop m cs ct count 0"

partial_function (option) strchr :: "mem \<Rightarrow> addr \<Rightarrow> u32 \<Rightarrow> addr option option" where
  "strchr m s c =
     (if m s \<noteq> ucast c then (if m s = 0 then Some None else strchr m (s + 1) c)
      else Some (Some s))"

definition strlen :: "mem \<Rightarrow> addr \<Rightarrow> nat option" where
  "strlen m s = map_option (\<lambda>sc. sc - s) (find_nul m s)"

text \<open>The downward scan of \<open>strrchr\<close>: from \<open>s + n\<close> down to \<open>s\<close>.\<close>

fun strrchr_loop :: "mem \<Rightarrow> addr \<Rightarrow> u32 \<Rightarrow> nat \<Rightarrow> addr option" where
  "strrchr_loop m s c 0 = (if m s = ucast c then Some s else None)"
| "strrchr_loop m s c (Suc n) =
     (if m (s + Suc n) = ucast c then Some (s + Suc n) else strrchr_loop m s c n)"

definition strrchr :: "mem \<Rightarrow> addr \<Rightarrow> u32 \<Rightarrow> addr option option" where
  "strrchr m s c = map_option (strrchr_loop m s c) (strlen m s)"

fun strnlen_loop :: "mem \<Rightarrow> addr \<Rightarrow> nat \<Rightarrow> addr" where
  "strnlen_loop m sc 0 = sc"
| "strnlen_loop m sc (Suc count) = (if m sc \<noteq> 0 then strnlen_loop m (sc + 1) count else sc)"

definition strnlen :: "mem \<Rightarrow> addr \<Rightarrow> nat \<Rightarrow> nat" where
  "strnlen m s count = strnlen_loop m s count - s"

text \<open>\<open>malloc\<close> is passed in: what it returns for the requested size.\<close>

definition strdup :: "(nat \<Rightarrow> addr option) \<Rightarrow> mem \<Rightarrow> addr option \<Rightarrow> (mem \<times> addr option) option" where
  "strdup malloc m s =
     (case s of None \<Rightarrow> Some (m, None)
      | Some p \<Rightarrow> Option.bind (strlen m p) (\<lambda>n.
          case malloc (n + 1) of None \<Rightarrow> Some (m, None)
          | Some new \<Rightarrow> map_option (\<lambda>(m', _). (m', Some new)) (strcpy m new p)))"

text \<open>The inner loops of \<open>strspn\<close> and \<open>strpbrk\<close>: is the byte \<open>c\<close> in the string at \<open>a\<close>?\<close>

partial_function (option) in_set_loop :: "mem \<Rightarrow> u8 \<Rightarrow> addr \<Rightarrow> bool option" where
  "in_set_loop m c a =
     (if m a \<noteq> 0 then (if c = m a then Some True else in_set_loop m c (a + 1)) else Some False)"

partial_function (option) strspn_loop :: "mem \<Rightarrow> addr \<Rightarrow> addr \<Rightarrow> nat \<Rightarrow> nat option" where
  "strspn_loop m p accept count =
     (if m p \<noteq> 0 then
        Option.bind (in_set_loop m (m p) accept)
          (\<lambda>found. if \<not> found then Some count else strspn_loop m (p + 1) accept (count + 1))
      else Some count)"

definition strspn :: "mem \<Rightarrow> addr \<Rightarrow> addr \<Rightarrow> nat option" where
  "strspn m s accept = strspn_loop m s accept 0"

partial_function (option) strpbrk :: "mem \<Rightarrow> addr \<Rightarrow> addr \<Rightarrow> addr option option" where
  "strpbrk m cs ct =
     (if m cs \<noteq> 0 then
        Option.bind (in_set_loop m (m cs) ct)
          (\<lambda>found. if found then Some (Some cs) else strpbrk m (cs + 1) ct)
      else Some None)"

subsection \<open>Splitting strings\<close>

text \<open>\<open>strtok\<close> keeps its position in the global \<open>___strtok\<close>, here the component
  \<open>saved\<close> of its argument and result.\<close>

definition strtok ::
    "mem \<Rightarrow> addr option \<Rightarrow> addr option \<Rightarrow> addr \<Rightarrow> (mem \<times> addr option \<times> addr option) option" where
  "strtok m saved s ct =
     (case (case s of Some p \<Rightarrow> Some p | None \<Rightarrow> saved) of
        None \<Rightarrow> Some (m, saved, None)
      | Some sbegin0 \<Rightarrow>
          Option.bind (strspn m sbegin0 ct) (\<lambda>n.
            let sbegin = sbegin0 + n in
            if m sbegin = 0 then Some (m, None, None)
            else Option.bind (strpbrk m sbegin ct) (\<lambda>send.
              case send of
                None \<Rightarrow> Some (m, None, Some sbegin)
              | Some e \<Rightarrow>
                  if m e \<noteq> 0 then Some (m(e := 0), Some (e + 1), Some sbegin)
                  else Some (m, Some e, Some sbegin))))"

text \<open>\<open>strsep\<close> takes the cursor \<open>*s\<close> and returns the store, the new cursor and the token.\<close>

definition strsep ::
    "mem \<Rightarrow> addr option \<Rightarrow> addr \<Rightarrow> (mem \<times> addr option \<times> addr option) option" where
  "strsep m s ct =
     (case s of None \<Rightarrow> Some (m, None, None)
      | Some sbegin \<Rightarrow>
          Option.bind (strpbrk m sbegin ct) (\<lambda>e.
            case e of None \<Rightarrow> Some (m, None, Some sbegin)
            | Some e \<Rightarrow> Some (m(e := 0), Some (e + 1), Some sbegin)))"

partial_function (option) strswab_loop :: "mem \<Rightarrow> addr \<Rightarrow> mem option" where
  "strswab_loop m p =
     (if m p \<noteq> 0 \<and> m (p + 1) \<noteq> 0 then strswab_loop (m(p := m (p + 1), p + 1 := m p)) (p + 2)
      else Some m)"

definition strswab :: "mem \<Rightarrow> addr option \<Rightarrow> (mem \<times> addr option) option" where
  "strswab m s =
     (case s of None \<Rightarrow> Some (m, None)
      | Some p \<Rightarrow> if m p = 0 then Some (m, None)
          else map_option (\<lambda>m'. (m', Some p)) (strswab_loop m p))"

subsection \<open>Memory blocks\<close>

text \<open>The value \<open>cl\<close> that \<open>memset\<close> builds: the byte in all four places.\<close>

fun memset_word :: "u32 \<Rightarrow> nat \<Rightarrow> u32 \<Rightarrow> u32" where
  "memset_word c 0 cl = cl"
| "memset_word c (Suc i) cl = memset_word c i (push_bit 8 cl OR (c AND 0xff))"

fun memset_words :: "mem \<Rightarrow> addr \<Rightarrow> u32 \<Rightarrow> nat \<Rightarrow> mem \<times> addr \<times> nat" where
  "memset_words m sl cl count =
     (if 4 \<le> count then memset_words (store32 m sl cl) (sl + 4) cl (count - 4)
      else (m, sl, count))"

fun memset_bytes :: "mem \<Rightarrow> addr \<Rightarrow> u32 \<Rightarrow> nat \<Rightarrow> mem" where
  "memset_bytes m s8 c 0 = m"
| "memset_bytes m s8 c (Suc count) = memset_bytes (m(s8 := ucast c)) (s8 + 1) c count"

definition memset :: "mem \<Rightarrow> addr \<Rightarrow> u32 \<Rightarrow> nat \<Rightarrow> mem \<times> addr" where
  "memset m s c count =
     (let (m', sl, count') =
        (if s mod 4 = 0 then memset_words m s (memset_word c 4 0) count else (m, s, count))
      in (memset_bytes m' sl c count', s))"

text \<open>The forward byte loop of \<open>bcopy\<close>, \<open>memcpy\<close> and \<open>memmove\<close>, and the backward one.\<close>

fun copy_up :: "mem \<Rightarrow> addr \<Rightarrow> addr \<Rightarrow> nat \<Rightarrow> mem" where
  "copy_up m d s 0 = m"
| "copy_up m d s (Suc count) = copy_up (m(d := m s)) (d + 1) (s + 1) count"

fun copy_down :: "mem \<Rightarrow> addr \<Rightarrow> addr \<Rightarrow> nat \<Rightarrow> mem" where
  "copy_down m d s 0 = m"
| "copy_down m d s (Suc count) = copy_down (m(d + count := m (s + count))) d s count"

definition bcopy :: "mem \<Rightarrow> addr \<Rightarrow> addr \<Rightarrow> nat \<Rightarrow> mem \<times> addr" where
  "bcopy m src dest count = (copy_up m dest src count, dest)"

fun memcpy_words :: "mem \<Rightarrow> addr \<Rightarrow> addr \<Rightarrow> nat \<Rightarrow> mem \<times> addr \<times> addr \<times> nat" where
  "memcpy_words m dl sl count =
     (if 4 \<le> count then memcpy_words (store32 m dl (load32 m sl)) (dl + 4) (sl + 4) (count - 4)
      else (m, dl, sl, count))"

definition memcpy :: "mem \<Rightarrow> addr \<Rightarrow> addr \<Rightarrow> nat \<Rightarrow> mem \<times> addr" where
  "memcpy m dest src count =
     (let (m', dl, sl, count') =
        (if dest mod 4 = 0 \<and> src mod 4 = 0 then memcpy_words m dest src count
         else (m, dest, src, count))
      in (copy_up m' dl sl count', dest))"

definition memmove :: "mem \<Rightarrow> addr \<Rightarrow> addr \<Rightarrow> nat \<Rightarrow> mem \<times> addr" where
  "memmove m dest src count =
     (if dest \<le> src then (copy_up m dest src count, dest)
      else (copy_down m dest src count, dest))"

fun memcmp_loop :: "mem \<Rightarrow> addr \<Rightarrow> addr \<Rightarrow> nat \<Rightarrow> int \<Rightarrow> int" where
  "memcmp_loop m su1 su2 0 res = res"
| "memcmp_loop m su1 su2 (Suc count) res =
     (let res' = uint (m su1) - uint (m su2) in
      if res' \<noteq> 0 then res' else memcmp_loop m (su1 + 1) (su2 + 1) count res')"

definition memcmp :: "mem \<Rightarrow> addr \<Rightarrow> addr \<Rightarrow> nat \<Rightarrow> int" where
  "memcmp m cs ct count = memcmp_loop m cs ct count 0"

text \<open>\<open>memscan\<close> compares the byte with the \<open>int\<close> argument itself, \<open>memchr\<close> with its low
  byte.\<close>

fun memscan :: "mem \<Rightarrow> addr \<Rightarrow> u32 \<Rightarrow> nat \<Rightarrow> addr" where
  "memscan m p c 0 = p"
| "memscan m p c (Suc n) = (if ucast (m p) = c then p else memscan m (p + 1) c n)"

text \<open>The search loop runs with \<open>0 < l2\<close>, so its guard \<open>l1 >= l2\<close> implies \<open>0 < l1\<close>.\<close>

fun strstr_loop :: "mem \<Rightarrow> addr \<Rightarrow> addr \<Rightarrow> nat \<Rightarrow> nat \<Rightarrow> addr option" where
  "strstr_loop m s1 s2 l2 l1 =
     (if l2 \<le> l1 \<and> 0 < l1 then
        (if memcmp m s1 s2 l2 = 0 then Some s1 else strstr_loop m (s1 + 1) s2 l2 (l1 - 1))
      else None)"

definition strstr :: "mem \<Rightarrow> addr \<Rightarrow> addr \<Rightarrow> addr option option" where
  "strstr m s1 s2 =
     Option.bind (strlen m s2) (\<lambda>l2.
       if l2 = 0 then Some (Some s1)
       else map_option (\<lambda>l1. strstr_loop m s1 s2 l2 l1) (strlen m s1))"

fun memchr :: "mem \<Rightarrow> addr \<Rightarrow> u32 \<Rightarrow> nat \<Rightarrow> addr option" where
  "memchr m p c 0 = None"
| "memchr m p c (Suc n) = (if ucast c = m p then Some p else memchr m (p + 1) c n)"

declare memset_words.simps [simp del] memcpy_words.simps [simp del] strstr_loop.simps [simp del]

section \<open>Block copies\<close>

text \<open>The specification of a block copy: as if all bytes were read before any is written.\<close>

definition blit :: "mem \<Rightarrow> addr \<Rightarrow> addr \<Rightarrow> nat \<Rightarrow> mem" where
  "blit m d s n = (\<lambda>a. if d \<le> a \<and> a < d + n then m (s + (a - d)) else m a)"

lemma blit_0 [simp]: "blit m d s 0 = m"
  by (auto simp: blit_def fun_eq_iff)

lemma blit_in [simp]: "i < n \<Longrightarrow> blit m d s n (d + i) = m (s + i)"
  by (simp add: blit_def)

lemma blit_out: "a < d \<or> d + n \<le> a \<Longrightarrow> blit m d s n a = m a"
  by (auto simp: blit_def)

lemma bytes_at_blit: "bytes_at (blit m d s n) d n = bytes_at m s n"
  by (simp add: bytes_at_eq_iff)

lemma blit_blit:
  "d \<le> s \<or> s + (k + n) \<le> d \<Longrightarrow> blit (blit m d s k) (d + k) (s + k) n = blit m d s (k + n)"
  by (auto simp: blit_def fun_eq_iff)

lemma copy_up_blit: "d \<le> s \<or> s + n \<le> d \<Longrightarrow> copy_up m d s n = blit m d s n"
proof (induction m d s n rule: copy_up.induct)
  case (1 m d s)
  then show ?case by simp
next
  case (2 m d s n)
  have "m(d := m s) = blit m d s 1"
    by (auto simp: blit_def fun_eq_iff)
  with 2 show ?case by (auto simp: blit_blit [of d s 1 n, simplified])
qed

lemma copy_down_blit: "s \<le> d \<or> d + n \<le> s \<Longrightarrow> copy_down m d s n = blit m d s n"
proof (induction m d s n rule: copy_down.induct)
  case (1 m d s)
  then show ?case by simp
next
  case (2 m d s n)
  then have "copy_down m d s (Suc n) = blit (m(d + n := m (s + n))) d s n"
    by (auto simp: fun_upd_def)
  also have "\<dots> = blit m d s (Suc n)"
    using "2.prems" by (auto simp: blit_def fun_eq_iff less_Suc_eq)
  finally show ?case .
qed

lemma store32_blit: "store32 m d (load32 m s) = blit m d s 4"
proof
  fix a
  have "d \<le> a \<and> a < d + 4 \<longleftrightarrow> a = d \<or> a = d + 1 \<or> a = d + 2 \<or> a = d + 3" by auto
  then show "store32 m d (load32 m s) a = blit m d s 4 a"
    by (auto simp: blit_def store32_load32)
qed

lemma memcpy_words_blit:
  "d \<le> s \<or> s + n \<le> d \<Longrightarrow>
   memcpy_words m d s n = (blit m d s (n div 4 * 4), d + n div 4 * 4, s + n div 4 * 4, n mod 4)"
proof (induction m d s n rule: memcpy_words.induct)
  case (1 m d s n)
  show ?case
  proof (cases "4 \<le> n")
    case False
    then show ?thesis by (simp add: memcpy_words.simps [of m d s n])
  next
    case True
    define k where "k = (n - 4) div 4 * 4"
    have k: "n div 4 * 4 = 4 + k" "n mod 4 = (n - 4) mod 4"
      using True by (simp_all add: k_def le_div_geq le_mod_geq)
    have "k \<le> n - 4" by (simp add: k_def)
    then have "d \<le> s \<or> s + (4 + k) \<le> d" using "1.prems" True by auto
    then have "blit (blit m d s 4) (d + 4) (s + 4) k = blit m d s (4 + k)"
      by (rule blit_blit)
    with 1 True k show ?thesis
      by (auto simp: memcpy_words.simps [of m d s n] store32_blit k_def [symmetric])
  qed
qed

lemma memmove_blit: "memmove m d s n = (blit m d s n, d)"
  by (auto simp: memmove_def copy_up_blit copy_down_blit)

lemma memcpy_blit:
  assumes "d \<le> s \<or> s + n \<le> d"
  shows "memcpy m d s n = (blit m d s n, d)"
proof (cases "d mod 4 = 0 \<and> s mod 4 = 0")
  case False
  with assms show ?thesis by (auto simp: memcpy_def copy_up_blit)
next
  case True
  let ?k = "n div 4 * 4"
  have n: "?k + n mod 4 = n" by simp
  have "copy_up (blit m d s ?k) (d + ?k) (s + ?k) (n mod 4)
      = blit (blit m d s ?k) (d + ?k) (s + ?k) (n mod 4)"
    using assms n by (intro copy_up_blit) linarith
  also have "\<dots> = blit m d s n"
    using assms n blit_blit [of d s ?k "n mod 4" m] by simp
  finally show ?thesis
    using True assms by (simp add: memcpy_def memcpy_words_blit)
qed

lemma bcopy_blit: "d \<le> s \<or> s + n \<le> d \<Longrightarrow> bcopy m s d n = (blit m d s n, d)"
  by (simp add: bcopy_def copy_up_blit)

text \<open>What the clients of a copy routine rely on, for every call that satisfies the
  routine's precondition.\<close>

locale block_copy =
  fixes copy :: "mem \<Rightarrow> addr \<Rightarrow> addr \<Rightarrow> nat \<Rightarrow> mem \<times> addr"
    and pre :: "addr \<Rightarrow> addr \<Rightarrow> nat \<Rightarrow> bool"
  assumes copy_blit: "pre d s n \<Longrightarrow> copy m d s n = (blit m d s n, d)"
begin

lemma copied: "pre d s n \<Longrightarrow> bytes_at (fst (copy m d s n)) d n = bytes_at m s n"
  by (simp add: copy_blit bytes_at_blit)

lemma frame: "pre d s n \<Longrightarrow> a < d \<or> d + n \<le> a \<Longrightarrow> fst (copy m d s n) a = m a"
  by (simp add: copy_blit blit_out)

lemma string_copied:
  "pre d s n \<Longrightarrow> cstr m s t \<Longrightarrow> length t < n \<Longrightarrow> cstr (fst (copy m d s n)) d t"
  by (rule cstr_cong) (auto simp: copy_blit)

end

interpretation memmove: block_copy memmove "\<lambda>d s n. True"
  by unfold_locales (rule memmove_blit)

interpretation memcpy: block_copy memcpy "\<lambda>d s n. d \<le> s \<or> s + n \<le> d"
  by unfold_locales (rule memcpy_blit)

interpretation bcopy: block_copy "\<lambda>m d s n. bcopy m s d n" "\<lambda>d s n. d \<le> s \<or> s + n \<le> d"
  by unfold_locales (rule bcopy_blit)

section \<open>Filling memory\<close>

definition fill :: "mem \<Rightarrow> addr \<Rightarrow> u8 \<Rightarrow> nat \<Rightarrow> mem" where
  "fill m d c n = (\<lambda>a. if d \<le> a \<and> a < d + n then c else m a)"

lemma fill_0 [simp]: "fill m d c 0 = m"
  by (auto simp: fill_def fun_eq_iff)

lemma fill_fill: "fill (fill m d c k) (d + k) c n = fill m d c (k + n)"
  by (auto simp: fill_def fun_eq_iff)

lemma memset_bytes_fill: "memset_bytes m d c n = fill m d (ucast c) n"
proof (induction m d c n rule: memset_bytes.induct)
  case (2 m d c n)
  have "m(d := ucast c) = fill m d (ucast c) 1"
    by (auto simp: fill_def fun_eq_iff)
  with 2 show ?case by (simp add: fill_fill [of m d "ucast c" 1 n, simplified])
qed simp

lemma byte_of_memset_word: "i < 4 \<Longrightarrow> byte_of i (memset_word c 4 0) = ucast c"
proof -
  assume "i < 4"
  then have i: "i = 0 \<or> i = 1 \<or> i = 2 \<or> i = 3" by auto
  have four: "(4::nat) = Suc (Suc (Suc (Suc 0)))" by simp
  have w: "memset_word c 4 0 = push_bit 8 (push_bit 8 (push_bit 8 (take_bit 8 c) OR take_bit 8 c)
      OR take_bit 8 c) OR take_bit 8 c"
    unfolding four by (simp add: and_0xff)
  show ?thesis
    unfolding byte_of_def w using i
    by (elim disjE) (rule bit_word_eqI, simp add: bit_simps)+
qed

lemma store32_fill: "store32 m d (memset_word c 4 0) = fill m d (ucast c) 4"
proof
  fix a
  have "d \<le> a \<and> a < d + 4 \<longleftrightarrow> a = d \<or> a = d + 1 \<or> a = d + 2 \<or> a = d + 3" by auto
  then show "store32 m d (memset_word c 4 0) a = fill m d (ucast c) 4 a"
    by (auto simp: fill_def store32_def byte_of_memset_word)
qed

lemma memset_words_fill:
  "memset_words m d (memset_word c 4 0) n =
   (fill m d (ucast c) (n div 4 * 4), d + n div 4 * 4, n mod 4)"
proof (induction m d "memset_word c 4 0" n rule: memset_words.induct)
  case (1 m d n)
  show ?case
  proof (cases "4 \<le> n")
    case False
    then show ?thesis by (simp add: memset_words.simps [of m d _ n])
  next
    case True
    define k where "k = (n - 4) div 4 * 4"
    have k: "n div 4 * 4 = 4 + k" "n mod 4 = (n - 4) mod 4"
      using True by (simp_all add: k_def le_div_geq le_mod_geq)
    from 1 True k show ?thesis
      by (simp add: memset_words.simps [of m d _ n] store32_fill fill_fill k_def [symmetric])
  qed
qed

lemma memset_fill: "memset m d c n = (fill m d (ucast c) n, d)"
  by (simp add: memset_def memset_words_fill memset_bytes_fill fill_fill)

section \<open>Strings\<close>

lemma find_nul_cstr: "cstr m p s \<Longrightarrow> find_nul m p = Some (p + length s)"
  by (induction s arbitrary: p) (auto simp: find_nul.simps)

lemma strlen_cstr: "cstr m p s \<Longrightarrow> strlen m p = Some (length s)"
  by (simp add: strlen_def find_nul_cstr)

lemma strnlen_loop_cstr: "cstr m p s \<Longrightarrow> strnlen_loop m p n = p + min n (length s)"
proof (induction n arbitrary: p s)
  case (Suc n)
  then show ?case by (cases s) auto
qed simp

lemma strnlen_cstr: "cstr m p s \<Longrightarrow> strnlen m p n = min n (length s)"
  by (simp add: strnlen_def strnlen_loop_cstr)

lemma strcpy_loop_cstr:
  "cstr m s t \<Longrightarrow> d \<le> s \<or> s + length t < d \<Longrightarrow>
   strcpy_loop m d s = Some (blit m d s (length t + 1))"
proof (induction t arbitrary: m d s)
  case Nil
  then show ?case by (auto simp: strcpy_loop.simps blit_def fun_eq_iff)
next
  case (Cons c t)
  have "cstr (m(d := c)) (Suc s) t"
    using Cons.prems by (auto simp: cstr_iff)
  from Cons.IH [OF this, of "Suc d"]
  have "strcpy_loop (m(d := c)) (Suc d) (Suc s)
      = Some (blit (m(d := c)) (Suc d) (Suc s) (length t + 1))"
    using Cons.prems by (auto simp: fun_upd_def)
  moreover have "m(d := c) = blit m d s 1"
    using Cons.prems by (auto simp: blit_def fun_eq_iff)
  ultimately show ?case
    using Cons.prems blit_blit [of d s 1 "length t + 1" m]
    by (auto simp: strcpy_loop.simps [of m d s])
qed

lemma strcpy_cstr:
  assumes "cstr m s t" and "d \<le> s \<or> s + length t < d"
  shows "\<exists>m'. strcpy m d s = Some (m', d) \<and> cstr m' d t \<and>
    (\<forall>a. a < d \<or> d + length t < a \<longrightarrow> m' a = m a)"
proof -
  have "cstr (blit m d s (length t + 1)) d t"
    using assms(1) by (rule cstr_cong) (simp add: less_Suc_eq_le)
  then show ?thesis
    using assms by (auto simp: strcpy_def strcpy_loop_cstr intro: blit_out)
qed

lemma in_set_loop_cstr: "cstr m a t \<Longrightarrow> in_set_loop m c a = Some (c \<in> set t)"
  by (induction t arbitrary: a) (auto simp: in_set_loop.simps)

lemma strspn_loop_cstr:
  "cstr m p s \<Longrightarrow> cstr m a t \<Longrightarrow>
   strspn_loop m p a n = Some (n + length (takeWhile (\<lambda>c. c \<in> set t) s))"
  by (induction s arbitrary: p n) (auto simp: strspn_loop.simps in_set_loop_cstr)

lemma strpbrk_cstr:
  "cstr m p s \<Longrightarrow> cstr m a t \<Longrightarrow>
   strpbrk m p a = Some (let n = length (takeWhile (\<lambda>c. c \<notin> set t) s)
     in if n < length s then Some (p + n) else None)"
  by (induction s arbitrary: p) (auto simp: strpbrk.simps in_set_loop_cstr Let_def)

lemma sint_diff_small:
  assumes "x < 128" and "y < (128 :: u8)"
  shows "sint (x - y) = uint x - uint y"
proof -
  have "uint x < 128" "uint y < 128" using assms by (simp_all add: word_less_def)
  then have "- 128 \<le> uint x - uint y" "uint x - uint y < 128"
    using uint_ge_0 [of x] uint_ge_0 [of y] by linarith+
  then have "signed_take_bit 7 (uint x - uint y) = uint x - uint y"
    by (intro signed_take_bit_int_eq_self) simp_all
  then show ?thesis
    by (simp only: word_sub_wi [of x y] sint_sbintrunc') simp
qed

lemma sint_diff_0: "sint (x - y :: u8) = 0 \<longleftrightarrow> x = y"
  by (simp add: signed_eq_0_iff)

lemma strcmp_cstr:
  "cstr m a s \<Longrightarrow> cstr m b t \<Longrightarrow>
   \<exists>r. strcmp m a b = Some r \<and> (r = 0 \<longleftrightarrow> s = t) \<and>
     ((\<forall>c \<in> set s \<union> set t. c < 128) \<longrightarrow> (r < 0 \<longleftrightarrow> ord_class.lexordp s t))"
proof (induction s arbitrary: a b t)
  case Nil
  then show ?case
  proof (cases t)
    case (Cons c t')
    with Nil show ?thesis
      using sint_diff_small [of 0 c]
      by (auto simp: strcmp.simps signed_eq_0_iff word_neq_0_conv word_less_def)
  qed (simp add: strcmp.simps)
next
  case (Cons c s)
  show ?case
  proof (cases t)
    case Nil
    with Cons.prems sint_diff_small [of c 0] show ?thesis
      by (auto simp: strcmp.simps [of m a b] signed_eq_0_iff)
  next
    case (Cons d t')
    show ?thesis
    proof (cases "c = d")
      case True
      with Cons Cons.prems Cons.IH [of "Suc a" "Suc b" t'] show ?thesis
        by (auto simp: strcmp.simps [of m a b])
    next
      case False
      then have "uint c \<noteq> uint d" by (simp add: word_uint_eq_iff)
      with False Cons Cons.prems sint_diff_small [of c d] show ?thesis
        by (auto simp: strcmp.simps [of m a b] sint_diff_0 word_less_def)
    qed
  qed
qed


lemma strcat_cstr:
  assumes "cstr m d s" and "cstr m e t" and "d + length s \<le> e \<or> e + length t < d + length s"
  shows "\<exists>m'. strcat m d e = Some (m', d) \<and> cstr m' d (s @ t) \<and>
    (\<forall>a. a < d + length s \<or> d + length s + length t < a \<longrightarrow> m' a = m a)"
proof -
  let ?m = "blit m (d + length s) e (length t + 1)"
  have "strcat m d e = Some (?m, d)"
    using assms by (simp add: strcat_def find_nul_cstr strcpy_loop_cstr)
  moreover have "cstr ?m (d + length s) t"
    using assms(2) by (rule cstr_cong) (simp add: less_Suc_eq_le)
  then have "cstr ?m d (s @ t)"
    using assms(1) by (auto simp: cstr_append cstr_iff [of m d s] blit_out)
  ultimately show ?thesis
    by (auto intro: blit_out)
qed

lemma memcmp_loop_0: "memcmp_loop m a b n 0 = 0 \<longleftrightarrow> bytes_at m a n = bytes_at m b n"
proof (induction n arbitrary: a b)
  case (Suc n)
  have "uint (m a) - uint (m b) = 0 \<longleftrightarrow> m a = m b" by (simp add: word_uint_eq_iff)
  with Suc show ?case by (auto simp: bytes_at_Suc Let_def)
qed simp

lemma memcmp_0_iff: "memcmp m a b n = 0 \<longleftrightarrow> bytes_at m a n = bytes_at m b n"
  by (simp add: memcmp_def memcmp_loop_0)

lemma cstr_bytes_at: "cstr m a s \<Longrightarrow> n \<le> length s \<Longrightarrow> bytes_at m a n = take n s"
  by (auto simp: cstr_iff list_eq_iff_nth_eq)

lemma strstr_loop_cstr:
  assumes "cstr m b t" and "t \<noteq> []"
  shows "cstr m a s \<Longrightarrow> strstr_loop m a b (length t) (length s) =
    map_option ((+) a) (find (\<lambda>i. prefix t (drop i s)) [0..<Suc (length s)])"
proof (induction s arbitrary: a)
  case Nil
  with assms show ?case by (simp add: strstr_loop.simps)
next
  case (Cons c s)
  have upt: "[0..<Suc (length (c # s))] = 0 # map Suc [0..<Suc (length s)]"
    by (simp add: map_Suc_upt upt_conv_Cons del: upt_Suc)
  show ?case
  proof (cases "length t \<le> length (c # s)")
    case True
    have "memcmp m a b (length t) = 0 \<longleftrightarrow> take (length t) (c # s) = t"
      using True Cons.prems assms(1)
      by (simp add: memcmp_0_iff cstr_bytes_at [OF Cons.prems] cstr_bytes_at [OF assms(1)])
    also have "\<dots> \<longleftrightarrow> prefix t (c # s)"
      by (metis prefix_def append_take_drop_id take_all_iff append_eq_conv_conj order_refl)
    finally show ?thesis
      using True Cons upt
      by (auto simp: strstr_loop.simps [of m a] find_map comp_def option.map_comp simp del: upt_Suc)
  next
    case False
    then have "\<not> prefix t (drop i (c # s))" for i
      using prefix_length_le [of t "drop i (c # s)"] by auto
    with False show ?thesis
      by (simp add: strstr_loop.simps [of m a] find_None_iff del: upt_Suc)
  qed
qed


lemma strstr_cstr:
  assumes "cstr m a s" and "cstr m b t"
  shows "strstr m a b =
    Some (map_option ((+) a) (List.find (\<lambda>i. prefix t (drop i s)) [0..<Suc (length s)]))"
proof (cases "t = []")
  case True
  then show ?thesis
    using strlen_cstr [OF assms(2)] by (simp add: strstr_def upt_conv_Cons del: upt_Suc)
next
  case False
  then show ?thesis
    using assms by (simp add: strstr_def strlen_cstr strstr_loop_cstr del: upt_Suc)
qed

text \<open>One call of \<open>strtok\<close> on a fresh string: the separators in front are skipped, the
  token is cut off in place, and the saved position is behind the separator.\<close>

lemma strtok_cstr:
  assumes s: "cstr m p s" and t: "cstr m ct t"
    and tok: "dropWhile (\<lambda>c. c \<in> set t) s \<noteq> []"
  defines "k \<equiv> length (takeWhile (\<lambda>c. c \<in> set t) s)"
    and "tk \<equiv> takeWhile (\<lambda>c. c \<notin> set t) (dropWhile (\<lambda>c. c \<in> set t) s)"
  shows "\<exists>m'. strtok m sv (Some p) ct = Some (m',
      if k + length tk < length s then Some (p + k + length tk + 1) else None, Some (p + k)) \<and>
    cstr m' (p + k) tk \<and> (\<forall>a. a \<noteq> p + k + length tk \<longrightarrow> m' a = m a)"
proof -
  let ?r = "dropWhile (\<lambda>c. c \<in> set t) s"
  have sr: "s = takeWhile (\<lambda>c. c \<in> set t) s @ ?r" by simp
  have r: "cstr m (p + k) ?r" 
    using s cstr_append [of m p "takeWhile (\<lambda>c. c \<in> set t) s" ?r] by (simp add: k_def)
  then have nz: "m (p + k) \<noteq> 0" using tok by (cases ?r) auto
  have len: "length s = k + length ?r" unfolding k_def by (subst sr) (simp only: length_append)
  have tr: "?r = tk @ dropWhile (\<lambda>c. c \<notin> set t) ?r" by (simp add: tk_def)
  have pb: "strpbrk m (p + k) ct = Some (if length tk < length ?r then Some (p + k + length tk) else None)"
    using strpbrk_cstr [OF r t] by (simp add: tk_def Let_def)
  show ?thesis
  proof (cases "length tk < length ?r")
    case True
    then have "m (p + k + length tk) \<noteq> 0" using r by (auto simp: cstr_iff in_set_conv_nth)
    moreover have "cstr (m(p + k + length tk := 0)) (p + k) tk"
      using r True by (subst (asm) tr) (auto simp: cstr_append cstr_iff nth_append)
    ultimately show ?thesis
      using nz pb True len s t
      by (simp add: strtok_def strspn_def strspn_loop_cstr k_def [symmetric] Let_def)
  next
    case False
    then have "tk = ?r" using tr by (metis length_append append_eq_conv_conj le_add1 linorder_not_le take_all)
    with False nz pb len s t r show ?thesis
      by (simp add: strtok_def strspn_def strspn_loop_cstr k_def [symmetric] Let_def)
  qed
qed


section \<open>Properties\<close>

text \<open>C18: \<open>memmove\<close> copies the \<open>n\<close> bytes at \<open>s\<close> to \<open>d\<close> whatever the overlap of the two
  blocks, changes nothing else, and returns \<open>d\<close>.\<close>

theorem memmove_correct:
  "snd (memmove m d s n) = d \<and> bytes_at (fst (memmove m d s n)) d n = bytes_at m s n \<and>
   (\<forall>a. a < d \<or> d + n \<le> a \<longrightarrow> fst (memmove m d s n) a = m a)"
  using memmove.copied memmove.frame by (auto simp: memmove_blit)

theorem memmove_correct_witness:
  "bytes_at (fst (memmove (\<lambda>a. of_nat a) 3 1 4)) 3 4 = [1, 2, 3, 4] \<and>
   fst (memmove (\<lambda>a. of_nat a) 3 1 4) 7 = 7"
  using memmove_correct [of "\<lambda>a. of_nat a" 3 1 4] by (simp add: bytes_at_def upt_rec)

text \<open>The word-at-a-time \<open>memcpy\<close> and the byte loop \<open>bcopy\<close> agree with \<open>memmove\<close>
  whenever the destination does not start inside the source block behind its first byte.\<close>

lemma memcpy_eq_memmove:
  assumes "d \<le> s \<or> s + n \<le> d"
  shows "memcpy m d s n = memmove m d s n \<and> bcopy m s d n = memmove m d s n"
  using assms by (simp add: memcpy_blit bcopy_blit memmove_blit)

text \<open>\<open>memset\<close>, with its word loop for aligned blocks, sets exactly the \<open>n\<close> bytes at
  \<open>d\<close> to the low byte of its argument.\<close>

lemma memset_correct:
  "memset m d c n = (\<lambda>a. if d \<le> a \<and> a < d + n then ucast c else m a, d)"
  by (simp add: memset_fill fill_def)

text \<open>\<open>strcmp\<close> returns on every two strings; its result is 0 exactly for equal
  strings and, for 7-bit characters, negative exactly when the first string precedes the
  second in dictionary order.\<close>

lemma strcmp_correct:
  assumes "cstr m a s" and "cstr m b t"
  shows "\<exists>r. strcmp m a b = Some r \<and> (r = 0 \<longleftrightarrow> s = t) \<and>
     ((\<forall>c \<in> set s \<union> set t. c < 128) \<longrightarrow> (r < 0 \<longleftrightarrow> ord_class.lexordp s t))"
  using assms by (rule strcmp_cstr)

lemma strcmp_correct_example:
  "\<exists>r. strcmp ((\<lambda>_. 0)(1 := 97, 2 := 98, 9 := 97, 10 := 99)) 1 9 = Some r \<and> r \<noteq> 0 \<and> r < 0"
  using strcmp_correct [of "(\<lambda>_. 0)(1 := 97, 2 := 98, 9 := 97, 10 := 99)" 1 "[97, 98]" 9 "[97, 99]"]
  by simp

text \<open>\<open>strstr\<close> returns on every two strings and points at the first occurrence of
  the second in the first, or is NULL when there is none.\<close>

lemma strstr_correct:
  assumes "cstr m a s" and "cstr m b t"
  shows "strstr m a b =
    Some (map_option ((+) a) (List.find (\<lambda>i. prefix t (drop i s)) [0..<Suc (length s)]))"
  using assms by (rule strstr_cstr)

text \<open>C21: on a string that has a token, \<open>strtok\<close> skips the leading separators, cuts the
  token off by overwriting one separator, leaves every other byte alone, and saves the
  position behind that separator (NULL at the end of the string).\<close>

theorem strtok_correct:
  assumes "cstr m p s" and "cstr m ct t" and "dropWhile (\<lambda>c. c \<in> set t) s \<noteq> []"
  shows "\<exists>m' k tk. k = length (takeWhile (\<lambda>c. c \<in> set t) s) \<and>
    tk = takeWhile (\<lambda>c. c \<notin> set t) (dropWhile (\<lambda>c. c \<in> set t) s) \<and>
    strtok m sv (Some p) ct = Some (m',
      if k + length tk < length s then Some (p + k + length tk + 1) else None, Some (p + k)) \<and>
    cstr m' (p + k) tk \<and> (\<forall>a. a \<noteq> p + k + length tk \<longrightarrow> m' a = m a)"
  using strtok_cstr [OF assms, of sv] by blast

theorem strtok_correct_witness:
  "\<exists>m'. strtok ((\<lambda>_. 0)(1 := 32, 2 := 98, 3 := 32, 4 := 99, 9 := 32)) None (Some 1) 9
      = Some (m', Some 4, Some 2) \<and> cstr m' 2 [98] \<and> m' 4 = 99"
  using strtok_correct [of "(\<lambda>_. 0)(1 := 32, 2 := 98, 3 := 32, 4 := 99, 9 := 32)" 1
      "[32, 98, 32, 99]" 9 "[32]" None]
  by auto (simp add: numeral_3_eq_3)

end
