(* ===== verification/Ctype.thy ===== *)
theory Ctype
  imports Prelude
begin

text \<open>
  Character classification: the table of \<^verbatim>\<open>lib_generic/ctype.c\<close> and the macros of
  \<^verbatim>\<open>include/linux/ctype.h\<close>.  Text is a list of characters without the terminating NUL;
  a \<open>char *\<close> that a routine moves along a string is the rest of the list, and reading
  behind its end gives the NUL (\<open>peek\<close>).
\<close>

section \<open>Definitions\<close>

abbreviation NUL :: char where "NUL \<equiv> CHR 0x00"

definition peek :: "string \<Rightarrow> char" where
  "peek s = (case s of [] \<Rightarrow> NUL | c # _ \<Rightarrow> c)"

abbreviation (input) ctU :: u8 where "ctU \<equiv> 0x01"
abbreviation (input) ctL :: u8 where "ctL \<equiv> 0x02"
abbreviation (input) ctD :: u8 where "ctD \<equiv> 0x04"
abbreviation (input) ctC :: u8 where "ctC \<equiv> 0x08"
abbreviation (input) ctP :: u8 where "ctP \<equiv> 0x10"
abbreviation (input) ctS :: u8 where "ctS \<equiv> 0x20"
abbreviation (input) ctX :: u8 where "ctX \<equiv> 0x40"
abbreviation (input) ctSP :: u8 where "ctSP \<equiv> 0x80"

definition ctype :: "u8 list" where
  "ctype = [
   ctC,ctC,ctC,ctC,ctC,ctC,ctC,ctC,
   ctC,ctC OR ctS,ctC OR ctS,ctC OR ctS,ctC OR ctS,ctC OR ctS,ctC,ctC,
   ctC,ctC,ctC,ctC,ctC,ctC,ctC,ctC,
   ctC,ctC,ctC,ctC,ctC,ctC,ctC,ctC,
   ctS OR ctSP,ctP,ctP,ctP,ctP,ctP,ctP,ctP,
   ctP,ctP,ctP,ctP,ctP,ctP,ctP,ctP,
   ctD,ctD,ctD,ctD,ctD,ctD,ctD,ctD,
   ctD,ctD,ctP,ctP,ctP,ctP,ctP,ctP,
   ctP,ctU OR ctX,ctU OR ctX,ctU OR ctX,ctU OR ctX,ctU OR ctX,ctU OR ctX,ctU,
   ctU,ctU,ctU,ctU,ctU,ctU,ctU,ctU,
   ctU,ctU,ctU,ctU,ctU,ctU,ctU,ctU,
   ctU,ctU,ctU,ctP,ctP,ctP,ctP,ctP,
   ctP,ctL OR ctX,ctL OR ctX,ctL OR ctX,ctL OR ctX,ctL OR ctX,ctL OR ctX,ctL,
   ctL,ctL,ctL,ctL,ctL,ctL,ctL,ctL,
   ctL,ctL,ctL,ctL,ctL,ctL,ctL,ctL,
   ctL,ctL,ctL,ctP,ctP,ctP,ctP,ctC,
   0,0,0,0,0,0,0,0,0,0,0,0,0,0,0,0,
   0,0,0,0,0,0,0,0,0,0,0,0,0,0,0,0,
   ctS OR ctSP,ctP,ctP,ctP,ctP,ctP,ctP,ctP,ctP,ctP,ctP,ctP,ctP,ctP,ctP,ctP,
   ctP,ctP,ctP,ctP,ctP,ctP,ctP,ctP,ctP,ctP,ctP,ctP,ctP,ctP,ctP,ctP,
   ctU,ctU,ctU,ctU,ctU,ctU,ctU,ctU,ctU,ctU,ctU,ctU,ctU,ctU,ctU,ctU,
   ctU,ctU,ctU,ctU,ctU,ctU,ctU,ctP,ctU,ctU,ctU,ctU,ctU,ctU,ctU,ctL,
   ctL,ctL,ctL,ctL,ctL,ctL,ctL,ctL,ctL,ctL,ctL,ctL,ctL,ctL,ctL,ctL,
   ctL,ctL,ctL,ctL,ctL,ctL,ctL,ctP,ctL,ctL,ctL,ctL,ctL,ctL,ctL,ctL]"

definition ismask :: "char \<Rightarrow> u8" where
  "ismask c = ctype ! of_char c"

definition isalnum :: "char \<Rightarrow> bool" where
  "isalnum c \<longleftrightarrow> ismask c AND (ctU OR ctL OR ctD) \<noteq> 0"

definition isalpha :: "char \<Rightarrow> bool" where
  "isalpha c \<longleftrightarrow> ismask c AND (ctU OR ctL) \<noteq> 0"

definition isdigit :: "char \<Rightarrow> bool" where
  "isdigit c \<longleftrightarrow> ismask c AND ctD \<noteq> 0"

definition islower :: "char \<Rightarrow> bool" where
  "islower c \<longleftrightarrow> ismask c AND ctL \<noteq> 0"

definition isupper :: "char \<Rightarrow> bool" where
  "isupper c \<longleftrightarrow> ismask c AND ctU \<noteq> 0"

definition isprint :: "char \<Rightarrow> bool" where
  "isprint c \<longleftrightarrow> ismask c AND (ctP OR ctU OR ctL OR ctD OR ctSP) \<noteq> 0"

definition isspace :: "char \<Rightarrow> bool" where
  "isspace c \<longleftrightarrow> ismask c AND ctS \<noteq> 0"

definition isxdigit :: "char \<Rightarrow> bool" where
  "isxdigit c \<longleftrightarrow> ismask c AND (ctD OR ctX) \<noteq> 0"

text \<open>\<open>__tolower\<close> and \<open>__toupper\<close> compute on an \<open>unsigned char\<close>.\<close>

definition tolower :: "char \<Rightarrow> char" where
  "tolower c = (if isupper c then char_of (unat (of_char c + 0x20 :: u8)) else c)"

definition toupper :: "char \<Rightarrow> char" where
  "toupper c = (if islower c then char_of (unat (of_char c - 0x20 :: u8)) else c)"

section \<open>The classes of the table\<close>

lemma ismask_class:
  assumes "map f ctype = map g [0..<256]"
  shows "f (ismask c) = g (of_char c)"
proof -
  have l: "length ctype = 256" using assms by (metis diff_zero length_map length_upt)
  then have "f (ctype ! of_char c) = map f ctype ! of_char c"
    by (simp add: l)
  also have "\<dots> = g (of_char c)" unfolding assms by (subst nth_map) simp_all
  finally show ?thesis by (simp add: ismask_def)
qed

lemma isdigit_iff: "isdigit c \<longleftrightarrow> 48 \<le> (of_char c :: nat) \<and> (of_char c :: nat) \<le> 57"
  unfolding isdigit_def
  by (rule ismask_class [of "\<lambda>m. m AND ctD \<noteq> 0" "\<lambda>n. 48 \<le> n \<and> n \<le> 57"]) code_simp

lemma isxdigit_iff: "isxdigit c \<longleftrightarrow> (let n = (of_char c :: nat) in
    48 \<le> n \<and> n \<le> 57 \<or> 65 \<le> n \<and> n \<le> 70 \<or> 97 \<le> n \<and> n \<le> 102)"
  unfolding isxdigit_def
  by (rule ismask_class [of "\<lambda>m. m AND (ctD OR ctX) \<noteq> 0" "\<lambda>n. let n = n in
    48 \<le> n \<and> n \<le> 57 \<or> 65 \<le> n \<and> n \<le> 70 \<or> 97 \<le> n \<and> n \<le> 102"]) code_simp

lemma islower_iff: "islower c \<longleftrightarrow> (let n = (of_char c :: nat) in
    97 \<le> n \<and> n \<le> 122 \<or> 223 \<le> n \<and> n \<noteq> 247)"
  unfolding islower_def
  by (rule ismask_class [of "\<lambda>m. m AND ctL \<noteq> 0" "\<lambda>n. let n = n in
    97 \<le> n \<and> n \<le> 122 \<or> 223 \<le> n \<and> n \<noteq> 247"]) code_simp

lemma isspace_iff: "isspace c \<longleftrightarrow> (let n = (of_char c :: nat) in
    9 \<le> n \<and> n \<le> 13 \<or> n = 32 \<or> n = 160)"
  unfolding isspace_def
  by (rule ismask_class [of "\<lambda>m. m AND ctS \<noteq> 0" "\<lambda>n. let n = n in
    9 \<le> n \<and> n \<le> 13 \<or> n = 32 \<or> n = 160"]) code_simp

lemma isalnum_iff: "isalnum c \<longleftrightarrow> (let n = (of_char c :: nat) in
    48 \<le> n \<and> n \<le> 57 \<or> 65 \<le> n \<and> n \<le> 90 \<or> 97 \<le> n \<and> n \<le> 122
      \<or> 192 \<le> n \<and> n \<noteq> 215 \<and> n \<noteq> 247)"
  unfolding isalnum_def
  by (rule ismask_class [of "\<lambda>m. m AND (ctU OR ctL OR ctD) \<noteq> 0" "\<lambda>n. let n = n in
    48 \<le> n \<and> n \<le> 57 \<or> 65 \<le> n \<and> n \<le> 90 \<or> 97 \<le> n \<and> n \<le> 122
      \<or> 192 \<le> n \<and> n \<noteq> 215 \<and> n \<noteq> 247"]) code_simp

lemmas ctype_iff = isdigit_iff isxdigit_iff islower_iff isspace_iff isalnum_iff

lemma not_class_NUL [simp]:
  "\<not> isdigit NUL" "\<not> isxdigit NUL" "\<not> islower NUL" "\<not> isspace NUL" "\<not> isalnum NUL"
  by (simp_all add: ctype_iff)

lemma peek_simps [simp]: "peek [] = NUL" "peek (c # s) = c"
  by (simp_all add: peek_def)

end
