(* ===== verification/Vsprintf.thy ===== *)
theory Vsprintf
  imports Ctype
begin

text \<open>
  Number parsing and formatting, \<^verbatim>\<open>lib_generic/vsprintf.c\<close>.  A routine that appends to a
  buffer and returns the advanced pointer is modelled by the characters it appends.
  \<open>va_arg\<close> takes the next value of a list; a missing argument or one of another kind is
  undefined behaviour in C and \<open>None\<close> here.
\<close>

section \<open>Definitions\<close>

subsection \<open>Parsing\<close>

definition hex_asc :: string where
  "hex_asc = ''0123456789abcdef''"

definition pack_hex_byte :: "u8 \<Rightarrow> string" where
  "pack_hex_byte byte =
     [hex_asc ! unat (drop_bit 4 (byte AND 0xf0)), hex_asc ! unat (byte AND 0x0f)]"

text \<open>The value of a hexadecimal digit as both \<open>strtoul\<close> routines compute it.\<close>

definition digit_value :: "char \<Rightarrow> nat" where
  "digit_value c =
     (if isdigit c then of_char c - of_char (CHR ''0'')
      else of_char (if islower c then toupper c else c) - of_char (CHR ''A'') + 10)"

definition strtoul_base :: "string \<Rightarrow> u32 \<Rightarrow> string \<times> u32" where
  "strtoul_base cp base =
     (let (cp, base) =
        (if peek cp = CHR ''0'' then
           (let cp = tl cp;
                (cp, base) = (if peek cp = CHR ''x'' \<and> isxdigit (peek (tl cp))
                              then (tl cp, 16) else (cp, base))
            in (cp, if base = 0 then 8 else base))
         else (cp, base))
      in (cp, if base = 0 then 10 else base))"

fun strtoul_loop :: "u32 \<Rightarrow> 'a::len word \<Rightarrow> string \<Rightarrow> 'a word \<times> string" where
  "strtoul_loop base result [] = (result, [])"
| "strtoul_loop base result (c # cp) =
     (if isxdigit c \<and> digit_value c < unat base
      then strtoul_loop base (result * ucast base + of_nat (digit_value c)) cp
      else (result, c # cp))"

text \<open>The value and the final \<open>*endp\<close>.\<close>

definition simple_strtoul :: "string \<Rightarrow> u32 \<Rightarrow> u32 \<times> string" where
  "simple_strtoul cp base = (let (cp, base) = strtoul_base cp base in strtoul_loop base 0 cp)"

definition simple_strtol :: "string \<Rightarrow> u32 \<Rightarrow> u32 \<times> string" where
  "simple_strtol cp base =
     (if peek cp = CHR ''-''
      then (let (r, e) = simple_strtoul (tl cp) base in (- r, e))
      else simple_strtoul cp base)"

definition ustrtoul :: "string \<Rightarrow> u32 \<Rightarrow> u32 \<times> string" where
  "ustrtoul cp base =
     (let (result, endp) = simple_strtoul cp base;
          c = peek endp;
          result = (if c = CHR ''G'' then result * 1024 else result);
          result = (if c = CHR ''G'' \<or> c = CHR ''M'' then result * 1024 else result)
      in if c = CHR ''G'' \<or> c = CHR ''M'' \<or> c = CHR ''K'' \<or> c = CHR ''k'' then
           (result * 1024,
            if peek (drop 1 endp) = CHR ''i'' then
              (if peek (drop 2 endp) = CHR ''B'' then drop 3 endp else drop 2 endp)
            else endp)
         else (result, endp))"

definition simple_strtoull :: "string \<Rightarrow> u32 \<Rightarrow> u64 \<times> string" where
  "simple_strtoull cp base = (let (cp, base) = strtoul_base cp base in strtoul_loop base 0 cp)"

definition is_digit :: "char \<Rightarrow> bool" where
  "is_digit c \<longleftrightarrow> (of_char (CHR ''0'') :: nat) \<le> of_char c \<and> of_char c \<le> (of_char (CHR ''9'') :: nat)"

fun skip_atoi_loop :: "u32 \<Rightarrow> string \<Rightarrow> u32 \<times> string" where
  "skip_atoi_loop i [] = (i, [])"
| "skip_atoi_loop i (c # s) =
     (if is_digit c then skip_atoi_loop (i * 10 + of_char c - of_char (CHR ''0'')) s
      else (i, c # s))"

definition skip_atoi :: "string \<Rightarrow> u32 \<times> string" where
  "skip_atoi s = skip_atoi_loop 0 s"

subsection \<open>Decimal digits, least significant first\<close>

definition dig :: "u32 \<Rightarrow> char" where
  "dig d = char_of (unat (d + 48))"

definition put_dec_trunc :: "u32 \<Rightarrow> string" where
  "put_dec_trunc q =
     (let d1 = drop_bit 4 q AND 0xf; d2 = drop_bit 8 q AND 0xf; d3 = drop_bit 12 q;
          d0 = 6 * (d3 + d2 + d1) + (q AND 0xf);
          q = drop_bit 11 (d0 * 0xcd);
          d0 = d0 - 10 * q;
          d1 = q + 9 * d3 + 5 * d2 + d1
      in dig d0 #
        (if d1 \<noteq> 0 then
           (let q = drop_bit 11 (d1 * 0xcd); d1 = d1 - 10 * q; d2 = q + 2 * d2
            in dig d1 #
              (if d2 \<noteq> 0 \<or> d3 \<noteq> 0 then
                 (let q = drop_bit 7 (d2 * 0xd); d2 = d2 - 10 * q; d3 = q + 4 * d3
                  in dig d2 #
                    (if d3 \<noteq> 0 then
                       (let q = drop_bit 11 (d3 * 0xcd); d3 = d3 - 10 * q
                        in dig d3 # (if q \<noteq> 0 then [dig q] else []))
                     else []))
               else []))
         else []))"

definition put_dec_full :: "u32 \<Rightarrow> string" where
  "put_dec_full q =
     (let d1 = drop_bit 4 q AND 0xf; d2 = drop_bit 8 q AND 0xf; d3 = drop_bit 12 q;
          d0 = 6 * (d3 + d2 + d1) + (q AND 0xf);
          q = drop_bit 11 (d0 * 0xcd);
          e0 = d0 - 10 * q;
          d1 = q + 9 * d3 + 5 * d2 + d1;
          q = drop_bit 11 (d1 * 0xcd);
          e1 = d1 - 10 * q;
          d2 = q + 2 * d2;
          q = drop_bit 7 (d2 * 0xd);
          e2 = d2 - 10 * q;
          d3 = q + 4 * d3;
          q = drop_bit 11 (d3 * 0xcd);
          e3 = d3 - 10 * q
      in [dig e0, dig e1, dig e2, dig e3, dig q])"

function put_dec :: "u64 \<Rightarrow> string" where
  "put_dec num =
     (if num < 100000 then put_dec_trunc (ucast num)
      else put_dec_full (ucast (num mod 100000)) @ put_dec (num div 100000))"
  by pat_completeness auto
termination
proof (relation "measure unat", simp)
  fix num :: u64 assume "\<not> num < 100000"
  then have "0 < unat num" by (auto simp: word_less_nat_alt)
  then show "(num div 100000, num) \<in> measure unat" by (simp add: unat_div div_less_dividend)
qed

declare put_dec.simps [simp del]

subsection \<open>Numbers, strings and addresses\<close>

abbreviation (input) ZEROPAD :: u32 where "ZEROPAD \<equiv> 1"
abbreviation (input) SIGN :: u32 where "SIGN \<equiv> 2"
abbreviation (input) PLUS :: u32 where "PLUS \<equiv> 4"
abbreviation (input) SPACE :: u32 where "SPACE \<equiv> 8"
abbreviation (input) LEFT :: u32 where "LEFT \<equiv> 16"
abbreviation (input) SMALL :: u32 where "SMALL \<equiv> 32"
abbreviation (input) SPECIAL :: u32 where "SPECIAL \<equiv> 64"

definition has :: "u32 \<Rightarrow> u32 \<Rightarrow> bool" where
  "has flags f \<longleftrightarrow> flags AND f \<noteq> 0"

text \<open>\<^verbatim>\<open>while (--size >= 0) *buf++ = c;\<close>: what it writes and what is left of \<open>size\<close>.\<close>

function pad_loop :: "char \<Rightarrow> int \<Rightarrow> string \<times> int" where
  "pad_loop c sz =
     (let sz = sz - 1 in
      if 0 \<le> sz then (let (out, sz) = pad_loop c sz in (c # out, sz)) else ([], sz))"
  by pat_completeness auto
termination by (relation "measure (\<lambda>(c, sz). nat sz)") auto

text \<open>\<^verbatim>\<open>while (i <= --precision) *buf++ = '0';\<close>\<close>

function zero_loop :: "int \<Rightarrow> int \<Rightarrow> string" where
  "zero_loop i precision =
     (let precision = precision - 1 in
      if i \<le> precision then CHR ''0'' # zero_loop i precision else [])"
  by pat_completeness auto
termination by (relation "measure (\<lambda>(i, precision). nat (precision - i))") auto

declare pad_loop.simps [simp del] zero_loop.simps [simp del]

definition num_digits :: string where
  "num_digits = ''0123456789ABCDEF''"

definition or_case :: "char \<Rightarrow> u32 \<Rightarrow> char" where
  "or_case c locase = char_of ((of_char c :: nat) OR unat locase)"

text \<open>The digit loop for base 8 and 16, least significant digit first.\<close>

function radix_loop :: "int \<Rightarrow> u32 \<Rightarrow> u64 \<Rightarrow> string" where
  "radix_loop base locase num =
     (let shift = (if base = 16 then 4 else 3);
          c = or_case (num_digits ! unat ((ucast num :: u8) AND word_of_int (base - 1))) locase;
          num' = drop_bit shift num
      in c # (if num' \<noteq> 0 then radix_loop base locase num' else []))"
  by pat_completeness auto
termination
proof (relation "measure (\<lambda>(b, l, num). unat num)", simp)
  fix base :: int and num :: u64 and locase :: u32
    and shift :: nat and c :: char and num' :: u64
  assume s: "shift = (if base = 16 then 4 else 3)" and n: "num' = drop_bit shift num" "num' \<noteq> 0"
  have u: "unat num' = unat num div 2 ^ shift" 
    by (simp add: n(1) unat_drop_bit_eq) (simp add: drop_bit_eq_div)
  moreover have "0 < unat num" using n by (cases "num = 0") (auto simp: unat_gt_0)
  moreover have "1 < (2::nat) ^ shift" by (simp add: s)
  ultimately have "unat num' < unat num" by simp
  then show "((base, locase, num'), (base, locase, num)) \<in> measure (\<lambda>(b, l, num). unat num)"
    by simp
qed

declare radix_loop.simps [simp del]

definition number :: "u64 \<Rightarrow> int \<Rightarrow> int \<Rightarrow> int \<Rightarrow> u32 \<Rightarrow> string" where
  "number num base sz precision type =
     (let need_pfx = has type SPECIAL \<and> base \<noteq> 10;
          locase = type AND SMALL;
          type = (if has type LEFT then type AND NOT ZEROPAD else type);
          (sign, num, sz) =
            (if has type SIGN then
               (if sint num < 0 then (Some (CHR ''-''), - num, sz - 1)
                else if has type PLUS then (Some (CHR ''+''), num, sz - 1)
                else if has type SPACE then (Some (CHR '' ''), num, sz - 1)
                else (None, num, sz))
             else (None, num, sz));
          sz = (if need_pfx then (if base = 16 then sz - 2 else sz - 1) else sz);
          tmp = (if num = 0 then [CHR ''0'']
                 else if base \<noteq> 10 then radix_loop base locase num
                 else put_dec num);
          i = int (length tmp);
          precision = (if precision < i then i else precision);
          sz = sz - precision;
          (lead, sz) = (if \<not> has type (ZEROPAD + LEFT) then pad_loop (CHR '' '') sz else ([], sz));
          pfx = (if need_pfx then CHR ''0'' # (if base = 16 then [or_case (CHR ''X'') locase] else [])
                 else []);
          (zpad, sz) =
            (if \<not> has type LEFT
             then pad_loop (if has type ZEROPAD then CHR ''0'' else CHR '' '') sz
             else ([], sz));
          (trail, _) = pad_loop (CHR '' '') sz
      in lead @ (case sign of None \<Rightarrow> [] | Some c \<Rightarrow> [c]) @ pfx @ zpad
         @ zero_loop i precision @ rev tmp @ trail)"

text \<open>\<^verbatim>\<open>while (len < field_width--) *buf++ = ' ';\<close>\<close>

function width_loop :: "int \<Rightarrow> int \<Rightarrow> string \<times> int" where
  "width_loop len field_width =
     (if len < field_width
      then (let (out, w) = width_loop len (field_width - 1) in (CHR '' '' # out, w))
      else ([], field_width - 1))"
  by pat_completeness auto
termination by (relation "measure (\<lambda>(len, w). nat (w - len))") auto

declare width_loop.simps [simp del]

text \<open>\<open>strnlen (s, precision)\<close> with \<open>precision\<close> converted to \<open>size_t\<close>: a negative precision
  is no limit.\<close>

definition put_string :: "string option \<Rightarrow> int \<Rightarrow> int \<Rightarrow> u32 \<Rightarrow> string" where
  "put_string s field_width precision flags =
     (let s = (case s of None \<Rightarrow> ''<NULL>'' | Some t \<Rightarrow> t);
          len = (if precision < 0 then length s else min (nat precision) (length s));
          (lead, w) = (if \<not> has flags LEFT then width_loop (int len) field_width else ([], field_width));
          (trail, _) = width_loop (int len) w
      in lead @ take len s @ trail)"

definition mac_address_string :: "u8 list \<Rightarrow> int \<Rightarrow> int \<Rightarrow> u32 \<Rightarrow> string" where
  "mac_address_string addr field_width precision flags =
     put_string (Some (concat (map (\<lambda>i. pack_hex_byte (addr ! i) @
         (if \<not> has flags SPECIAL \<and> i \<noteq> 5 then '':'' else [])) [0..<6])))
       field_width precision (flags AND NOT SPECIAL)"

definition ip6_addr_string :: "u8 list \<Rightarrow> int \<Rightarrow> int \<Rightarrow> u32 \<Rightarrow> string" where
  "ip6_addr_string addr field_width precision flags =
     put_string (Some (concat (map (\<lambda>i. pack_hex_byte (addr ! (2 * i)) @ pack_hex_byte (addr ! (2 * i + 1)) @
         (if \<not> has flags SPECIAL \<and> i \<noteq> 7 then '':'' else [])) [0..<8])))
       field_width precision (flags AND NOT SPECIAL)"

definition ip4_addr_string :: "u8 list \<Rightarrow> int \<Rightarrow> int \<Rightarrow> u32 \<Rightarrow> string" where
  "ip4_addr_string addr field_width precision flags =
     put_string (Some (concat (map (\<lambda>i. rev (put_dec_trunc (ucast (addr ! i))) @
         (if i \<noteq> 3 then ''.'' else [])) [0..<4])))
       field_width precision (flags AND NOT SPECIAL)"

text \<open>The value of a pointer argument and the bytes it points to.\<close>

definition put_pointer :: "string \<Rightarrow> u32 \<Rightarrow> u8 list \<Rightarrow> int \<Rightarrow> int \<Rightarrow> u32 \<Rightarrow> string" where
  "put_pointer fmt ptr dat field_width precision flags =
     (if ptr = 0 then put_string (Some ''(null)'') field_width precision flags
      else
        (let c = peek fmt; d = peek (drop 1 fmt);
             plain = (\<lambda>flags. let flags = flags OR SMALL in
               if field_width = -1 then number (ucast ptr) 16 8 precision (flags OR ZEROPAD)
               else number (ucast ptr) 16 field_width precision flags)
         in if c = CHR ''m'' then mac_address_string dat field_width precision (flags OR SPECIAL)
            else if c = CHR ''M'' then mac_address_string dat field_width precision flags
            else if c = CHR ''i'' \<or> c = CHR ''I'' then
              (let flags = (if c = CHR ''i'' then flags OR SPECIAL else flags) in
               if d = CHR ''6'' then ip6_addr_string dat field_width precision flags
               else if d = CHR ''4'' then ip4_addr_string dat field_width precision flags
               else plain (flags AND NOT SPECIAL))
            else plain flags))"

subsection \<open>Format strings\<close>

datatype va =
    VInt u32 \<comment> \<open>\<open>int\<close>, \<open>long\<close>, \<open>size_t\<close>, \<open>ptrdiff_t\<close>\<close>
  | VQuad u64 \<comment> \<open>\<open>long long\<close>\<close>
  | VStr "string option" \<comment> \<open>\<open>char *\<close>\<close>
  | VPtr u32 "u8 list" \<comment> \<open>\<open>void *\<close> and the bytes it points to\<close>
  | VCount \<comment> \<open>\<open>int *\<close> or \<open>long *\<close> of \<open>%n\<close>\<close>

fun vs_flags :: "string \<Rightarrow> u32 \<Rightarrow> string \<times> u32" where
  "vs_flags [] flags = ([], flags)"
| "vs_flags (c # fmt) flags =
     (if c = CHR ''-'' then vs_flags fmt (flags OR LEFT)
      else if c = CHR ''+'' then vs_flags fmt (flags OR PLUS)
      else if c = CHR '' '' then vs_flags fmt (flags OR SPACE)
      else if c = CHR ''#'' then vs_flags fmt (flags OR SPECIAL)
      else if c = CHR ''0'' then vs_flags fmt (flags OR ZEROPAD)
      else (c # fmt, flags))"

fun va_int :: "va list \<Rightarrow> (u32 \<times> va list) option" where
  "va_int (VInt v # args) = Some (v, args)"
| "va_int _ = None"

definition vs_width :: "string \<Rightarrow> va list \<Rightarrow> u32 \<Rightarrow> (string \<times> va list \<times> u32 \<times> int) option" where
  "vs_width fmt args flags =
     (if is_digit (peek fmt) then
        (let (w, fmt) = skip_atoi fmt in Some (fmt, args, flags, sint w))
      else if peek fmt = CHR ''*'' then
        (case va_int args of None \<Rightarrow> None
         | Some (v, args) \<Rightarrow>
             if sint v < 0 then Some (tl fmt, args, flags OR LEFT, - sint v)
             else Some (tl fmt, args, flags, sint v))
      else Some (fmt, args, flags, -1))"

definition vs_precision :: "string \<Rightarrow> va list \<Rightarrow> (string \<times> va list \<times> int) option" where
  "vs_precision fmt args =
     (if peek fmt = CHR ''.'' then
        (let fmt = tl fmt in
         if is_digit (peek fmt) then
           (let (p, fmt) = skip_atoi fmt in Some (fmt, args, max 0 (sint p)))
         else if peek fmt = CHR ''*'' then
           (case va_int args of None \<Rightarrow> None
            | Some (v, args) \<Rightarrow> Some (tl fmt, args, max 0 (sint v)))
         else Some (fmt, args, 0))
      else Some (fmt, args, -1))"

definition vs_qualifier :: "string \<Rightarrow> string \<times> char option" where
  "vs_qualifier fmt =
     (if peek fmt \<in> set ''hlLZzt'' then
        (if peek fmt = CHR ''l'' \<and> peek (tl fmt) = CHR ''l'' then (tl (tl fmt), Some (CHR ''L''))
         else (tl fmt, Some (peek fmt)))
      else (fmt, None))"

text \<open>\<^verbatim>\<open>while (--field_width > 0) *str++ = ' ';\<close>\<close>

function char_pad_loop :: "int \<Rightarrow> string \<times> int" where
  "char_pad_loop w =
     (let w = w - 1 in
      if 0 < w then (let (out, w) = char_pad_loop w in (CHR '' '' # out, w)) else ([], w))"
  by pat_completeness auto
termination by (relation "measure nat") auto

declare char_pad_loop.simps [simp del]

text \<open>The integer argument, widened to 64 bits as the qualifier and the sign ask.\<close>

definition vs_num :: "char option \<Rightarrow> u32 \<Rightarrow> va list \<Rightarrow> (u64 \<times> va list) option" where
  "vs_num qualifier flags args =
     (if qualifier = Some (CHR ''L'') then
        (case args of VQuad v # args \<Rightarrow> Some (v, args) | _ \<Rightarrow> None)
      else case va_int args of None \<Rightarrow> None
        | Some (v, args) \<Rightarrow>
            if qualifier = Some (CHR ''Z'') \<or> qualifier = Some (CHR ''z'') then Some (ucast v, args)
            else if qualifier = Some (CHR ''t'') then Some (scast v, args)
            else if qualifier = Some (CHR ''h'') then
              Some (if has flags SIGN then scast (ucast v :: u16) else ucast (ucast v :: u16), args)
            else Some (if has flags SIGN then scast v else ucast v, args))"

text \<open>One conversion.  \<open>n\<close> characters are in the buffer and \<open>fmt\<close> is behind the \<open>%\<close>; the
  result is what is appended, the format after the conversion, the arguments left, and
  the counts stored by \<open>%n\<close>.\<close>

definition vs_conv :: "nat \<Rightarrow> string \<Rightarrow> va list \<Rightarrow> (string \<times> string \<times> va list \<times> nat list) option" where
  "vs_conv n fmt args =
     (let (fmt, flags) = vs_flags fmt 0 in
      case vs_width fmt args flags of None \<Rightarrow> None
      | Some (fmt, args, flags, field_width) \<Rightarrow>
      case vs_precision fmt args of None \<Rightarrow> None
      | Some (fmt, args, precision) \<Rightarrow>
      let (fmt, qualifier) = vs_qualifier fmt;
          c = peek fmt;
          num = (\<lambda>base flags.
            case vs_num qualifier flags args of None \<Rightarrow> None
            | Some (v, args) \<Rightarrow> Some (number v base field_width precision flags, tl fmt, args, []))
      in if c = CHR ''c'' then
           (case va_int args of None \<Rightarrow> None
            | Some (v, args) \<Rightarrow>
                let (lead, w) = (if \<not> has flags LEFT then char_pad_loop field_width else ([], field_width));
                    (trail, _) = char_pad_loop w
                in Some (lead @ [char_of (unat (ucast v :: u8))] @ trail, tl fmt, args, []))
         else if c = CHR ''s'' then
           (case args of VStr s # args \<Rightarrow>
              Some (put_string s field_width precision flags, tl fmt, args, []) | _ \<Rightarrow> None)
         else if c = CHR ''p'' then
           (case args of VPtr p dat # args \<Rightarrow>
              Some (put_pointer (tl fmt) p dat field_width precision flags,
                    dropWhile isalnum (tl fmt), args, []) | _ \<Rightarrow> None)
         else if c = CHR ''n'' then
           (case args of VCount # args \<Rightarrow> Some ([], tl fmt, args, [n]) | _ \<Rightarrow> None)
         else if c = CHR ''%'' then Some (''%'', tl fmt, args, [])
         else if c = CHR ''o'' then num 8 flags
         else if c = CHR ''x'' then num 16 (flags OR SMALL)
         else if c = CHR ''X'' then num 16 flags
         else if c = CHR ''d'' \<or> c = CHR ''i'' then num 10 (flags OR SIGN)
         else if c = CHR ''u'' then num 10 flags
         else Some (''%'' @ take 1 fmt, tl fmt, args, []))"

lemma skip_atoi_loop_length: "length (snd (skip_atoi_loop i s)) \<le> length s"
  by (induction i s rule: skip_atoi_loop.induct) (auto simp: le_Suc_eq)

lemma vs_flags_length: "length (fst (vs_flags fmt f)) \<le> length fmt"
  by (induction fmt f rule: vs_flags.induct) (auto simp: le_Suc_eq)

lemma vs_width_length: "vs_width fmt args f = Some (fmt', r) \<Longrightarrow> length fmt' \<le> length fmt"
  using skip_atoi_loop_length [of 0 fmt]
  by (auto simp: vs_width_def skip_atoi_def split: if_splits option.splits prod.splits)

lemma vs_precision_length: "vs_precision fmt args = Some (fmt', r) \<Longrightarrow> length fmt' \<le> length fmt"
  using skip_atoi_loop_length [of 0 "tl fmt"]
  by (auto simp: vs_precision_def skip_atoi_def Let_def split: if_splits option.splits prod.splits)

lemma vs_qualifier_length: "length (fst (vs_qualifier fmt)) \<le> length fmt"
  by (auto simp: vs_qualifier_def)

lemma vs_conv_length:
  assumes "vs_conv n fmt args = Some (out, rest, args', st)"
  shows "length rest \<le> length fmt"
proof -
  obtain f1 fl where f1: "vs_flags fmt 0 = (f1, fl)" by fastforce
  from assms f1 obtain f2 a2 fl2 w where f2: "vs_width f1 args fl = Some (f2, a2, fl2, w)"
    by (auto simp: vs_conv_def split: option.splits)
  from assms f1 f2 obtain f3 a3 p where f3: "vs_precision f2 a2 = Some (f3, a3, p)"
    by (auto simp: vs_conv_def split: option.splits)
  obtain f4 q where f4: "vs_qualifier f3 = (f4, q)" by fastforce
  have le: "length f4 \<le> length fmt"
    using vs_flags_length [of fmt 0] vs_width_length [OF f2] vs_precision_length [OF f3]
      vs_qualifier_length [of f3] f1 f4 by simp
  have "rest = tl f4 \<or> rest = dropWhile isalnum (tl f4)"
    using assms by (auto simp: vs_conv_def f1 f2 f3 f4 Let_def
        split: if_splits option.splits va.splits list.splits prod.splits)
  with le show ?thesis
    using length_dropWhile_le [of isalnum "tl f4"] by auto
qed

function vsprintf_loop :: "string \<Rightarrow> nat list \<Rightarrow> string \<Rightarrow> va list \<Rightarrow> (string \<times> nat list) option" where
  "vsprintf_loop str counts [] args = Some (str, counts)"
| "vsprintf_loop str counts (c # fmt) args =
     (if c \<noteq> CHR ''%'' then vsprintf_loop (str @ [c]) counts fmt args
      else case vs_conv (length str) fmt args of None \<Rightarrow> None
        | Some (out, rest, args', st) \<Rightarrow> vsprintf_loop (str @ out) (counts @ st) rest args')"
  by pat_completeness auto
termination
  by (relation "measure (\<lambda>(str, counts, fmt, args). length fmt)")
    (auto simp: less_Suc_eq_le dest!: vs_conv_length)

text \<open>The text written (its length is the return value) and the counts stored by \<open>%n\<close>.\<close>

definition vsprintf :: "string \<Rightarrow> va list \<Rightarrow> (string \<times> nat list) option" where
  "vsprintf fmt args = vsprintf_loop [] [] fmt args"

definition sprintf :: "string \<Rightarrow> va list \<Rightarrow> string option" where
  "sprintf fmt args = map_option fst (vsprintf fmt args)"

section \<open>Decimal conversion\<close>

text \<open>The reference: the digits of a number in base \<open>b\<close>, least significant first.\<close>

function rev_radix :: "nat \<Rightarrow> (nat \<Rightarrow> char) \<Rightarrow> nat \<Rightarrow> string" where
  "rev_radix b f n = f (n mod b) # (if b \<le> 1 \<or> n div b = 0 then [] else rev_radix b f (n div b))"
  by pat_completeness auto
termination
  by (relation "measure (\<lambda>(b, f, n). n)") (auto simp: div_eq_0_iff intro!: div_less_dividend intro: gr0I)

declare rev_radix.simps [simp del]

definition digit_char :: "nat \<Rightarrow> char" where
  "digit_char k = char_of (48 + k)"

abbreviation rev_dec :: "nat \<Rightarrow> string" where
  "rev_dec \<equiv> rev_radix 10 digit_char"

lemma rev_dec_simps:
  "rev_dec n = digit_char (n mod 10) # (if n div 10 = 0 then [] else rev_dec (n div 10))"
  by (subst rev_radix.simps) simp

lemma dig_of_nat: "k < 10 \<Longrightarrow> dig (of_nat k) = digit_char k"
proof -
  assume "k < 10"
  then have "unat (of_nat (k + 48) :: u32) = 48 + k"
    by (subst unat_of_nat) simp
  then show ?thesis by (simp add: dig_def digit_char_def)
qed

lemma and_mask_of_nat_u32: "of_nat n AND (0xf :: u32) = of_nat (n mod 16)"
proof -
  have "(0xf :: u32) = mask 4" by (simp add: mask_eq_exp_minus_1)
  then have "of_nat n AND (0xf :: u32) = take_bit 4 (of_nat n)" by (simp only: take_bit_eq_mask)
  also have "\<dots> = of_nat (take_bit 4 n)" by (simp only: take_bit_of_nat)
  finally show ?thesis by (simp add: take_bit_eq_mod)
qed

lemma div10_le339:
  assumes "x \<le> 339" shows "x * 205 div 2048 = x div (10 :: nat)"
proof -
  define q r where "q = x div 10" and "r = x mod 10"
  have x: "x = 10 * q + r" "r \<le> 9" by (simp_all add: q_def r_def)
  have "x * 205 = 2048 * q + (2 * q + 205 * r)" using x by simp
  moreover have "2 * q + 205 * r < 2048" using x assms by linarith
  ultimately show ?thesis by (simp add: q_def [symmetric])
qed

lemma div10_le63:
  assumes "x \<le> 63" shows "x * 13 div 128 = x div (10 :: nat)"
proof -
  define q r where "q = x div 10" and "r = x mod 10"
  have x: "x = 10 * q + r" "r \<le> 9" by (simp_all add: q_def r_def)
  have "x * 13 = 128 * q + (2 * q + 13 * r)" using x by simp
  moreover have "2 * q + 13 * r < 128" using x assms by linarith
  ultimately show ?thesis by (simp add: q_def [symmetric])
qed

lemma approx_div10:
  "x \<le> 339 \<Longrightarrow> drop_bit 11 (of_nat x * 0xcd :: u32) = of_nat (x div 10)"
  using drop_bit_of_nat_u32 [of "x * 205" 11] by (simp add: div10_le339)

lemma approx_div10_small:
  "x \<le> 63 \<Longrightarrow> drop_bit 7 (of_nat x * 0xd :: u32) = of_nat (x div 10)"
  using drop_bit_of_nat_u32 [of "x * 13" 7] by (simp add: div10_le63)

lemma minus_div10: "of_nat x - 10 * of_nat (x div 10) = (of_nat (x mod 10) :: u32)"
proof -
  have "of_nat x = (of_nat (10 * (x div 10) + x mod 10) :: u32)" by simp
  then show ?thesis by (simp only: of_nat_add of_nat_mult) simp
qed

lemma of_nat_eq_0_u32: "x < 2 ^ 32 \<Longrightarrow> (of_nat x :: u32) = 0 \<longleftrightarrow> x = 0"
  by (auto simp: word_of_nat_eq_0_iff dest: nat_dvd_not_less)

text \<open>The nibbles of a number below 100000 and what the code computes from them.\<close>

lemma put_dec_digits:
  fixes n :: nat
  assumes "n < 100000"
  defines "a \<equiv> n div 4096" and "b \<equiv> n div 256 mod 16" and "c \<equiv> n div 16 mod 16" and "d \<equiv> n mod 16"
  defines "x0 \<equiv> 6 * (a + b + c) + d"
  defines "x1 \<equiv> x0 div 10 + 9 * a + 5 * b + c"
  defines "x2 \<equiv> x1 div 10 + 2 * b"
  defines "x3 \<equiv> x2 div 10 + 4 * a"
  shows "x0 \<le> 339" "x1 \<le> 339" "x2 \<le> 63" "x3 \<le> 339"
    "n mod 10 = x0 mod 10" "n div 10 = x1 + 400 * a + 20 * b"
    "n div 100 = x2 + 40 * a" "n div 1000 = x3"
proof -
  have "16 * (n div 16) + n mod 16 = n" "16 * (n div 256) + n div 16 mod 16 = n div 16"
    "16 * (n div 4096) + n div 256 mod 16 = n div 256"
    using mult_div_mod_eq [of 16 "n div 16"] mult_div_mod_eq [of 16 "n div 16 div 16"]
    by (simp_all add: div_mult2_eq [symmetric])
  then have n: "n = 4096 * a + 256 * b + 16 * c + d"
    unfolding a_def b_def c_def d_def by linarith
  have bd: "a \<le> 24" "b \<le> 15" "c \<le> 15" "d \<le> 15"
    using assms(1) unfolding a_def b_def c_def d_def by linarith+
  show x0: "x0 \<le> 339" unfolding x0_def using bd by simp
  show x1: "x1 \<le> 339" unfolding x1_def using bd x0 by linarith
  show x2: "x2 \<le> 63" unfolding x2_def using bd x1 by linarith
  show x3: "x3 \<le> 339" unfolding x3_def using bd x2 by linarith
  have n0: "n = x0 + 10 * (409 * a + 25 * b + c)" using n by (simp add: x0_def)
  show "n mod 10 = x0 mod 10" unfolding n0 by presburger
  show n1: "n div 10 = x1 + 400 * a + 20 * b" unfolding n0 x1_def by presburger
  have "n div 100 = n div 10 div 10" by (simp add: div_mult2_eq [symmetric])
  also have "\<dots> = x2 + 40 * a" unfolding n1 x2_def by presburger
  finally show n2: "n div 100 = x2 + 40 * a" .
  have "n div 1000 = n div 100 div 10" by (simp add: div_mult2_eq [symmetric])
  also have "\<dots> = x3" unfolding n2 x3_def by presburger
  finally show "n div 1000 = x3" .
qed


lemma put_dec_words:
  fixes n :: nat
  assumes "n < 100000"
  shows "drop_bit 4 (of_nat n :: u32) AND 0xf = of_nat (n div 16 mod 16)"
    "drop_bit 8 (of_nat n :: u32) AND 0xf = of_nat (n div 256 mod 16)"
    "drop_bit 12 (of_nat n :: u32) = of_nat (n div 4096)"
  using assms drop_bit_of_nat_u32 [of n 4] drop_bit_of_nat_u32 [of n 8]
    drop_bit_of_nat_u32 [of n 12] by (simp_all add: and_mask_of_nat_u32)

lemma put_dec_parts:
  fixes n :: nat
  assumes "n < 100000"
  obtains a b c d x0 x1 x2 x3 where
    "a = n div 4096" "b = n div 256 mod 16" "c = n div 16 mod 16" "d = n mod 16"
    "6 * (of_nat a + of_nat b + of_nat c) + of_nat d = (of_nat x0 :: u32)"
    "of_nat (x0 div 10) + 9 * of_nat a + 5 * of_nat b + of_nat c = (of_nat x1 :: u32)"
    "of_nat (x1 div 10) + 2 * of_nat b = (of_nat x2 :: u32)"
    "of_nat (x2 div 10) + 4 * of_nat a = (of_nat x3 :: u32)"
    "x0 \<le> 339" "x1 \<le> 339" "x2 \<le> 63" "x3 < 100" "a < 25"
    "n mod 10 = x0 mod 10" "n div 10 mod 10 = x1 mod 10" "n div 100 mod 10 = x2 mod 10"
    "n div 1000 mod 10 = x3 mod 10" "n div 10000 = x3 div 10"
    "n div 10 = 0 \<longleftrightarrow> x1 = 0" "n div 100 = 0 \<longleftrightarrow> x2 = 0 \<and> a = 0" "n div 1000 = 0 \<longleftrightarrow> x3 = 0"
proof -
  define a b c d where ab: "a = n div 4096" "b = n div 256 mod 16" "c = n div 16 mod 16" "d = n mod 16"
  define x0 where "x0 = 6 * (a + b + c) + d"
  define x1 where "x1 = x0 div 10 + 9 * a + 5 * b + c"
  define x2 where "x2 = x1 div 10 + 2 * b"
  define x3 where "x3 = x2 div 10 + 4 * a"
  note D = put_dec_digits [OF assms, folded ab, folded x0_def, folded x1_def, folded x2_def, folded x3_def]
  have w: "6 * (of_nat a + of_nat b + of_nat c) + of_nat d = (of_nat x0 :: u32)"
    "of_nat (x0 div 10) + 9 * of_nat a + 5 * of_nat b + of_nat c = (of_nat x1 :: u32)"
    "of_nat (x1 div 10) + 2 * of_nat b = (of_nat x2 :: u32)"
    "of_nat (x2 div 10) + 4 * of_nat a = (of_nat x3 :: u32)"
    by (simp_all add: x0_def x1_def x2_def x3_def)
  have s: "x1 + 400 * a + 20 * b = x1 + 10 * (40 * a + 2 * b)" "x2 + 40 * a = x2 + 10 * (4 * a)"
    by simp_all
  have "n div 10000 = n div 1000 div 10" by (simp add: div_mult2_eq [symmetric])
  then have d4: "n div 10000 = x3 div 10" by (simp only: D(8))
  have le: "9 * a + 5 * b \<le> x1" by (simp add: x1_def)
  have z: "x3 < 100" "a < 25" using assms D(8) ab(1) by linarith+
  have z': "n div 10 = 0 \<longleftrightarrow> x1 = 0" "n div 100 = 0 \<longleftrightarrow> x2 = 0 \<and> a = 0"
    unfolding D(6,7) using le by auto
  show ?thesis
    by (rule that [OF ab w D(1,2,3) z(1,2) D(5) _ _ _ d4 z'])
      (simp_all only: D(6,7,8) s mod_mult_self2)
qed

lemma put_dec_full_correct:
  assumes "n < 100000"
  shows "put_dec_full (of_nat n) = map (\<lambda>i. digit_char (n div 10 ^ i mod 10)) [0..<5]"
  using assms
proof (rule put_dec_parts)
  fix a b c d x0 x1 x2 x3
  assume ab: "a = n div 4096" "b = n div 256 mod 16" "c = n div 16 mod 16" "d = n mod 16"
    and w: "6 * (of_nat a + of_nat b + of_nat c) + of_nat d = (of_nat x0 :: u32)"
    "of_nat (x0 div 10) + 9 * of_nat a + 5 * of_nat b + of_nat c = (of_nat x1 :: u32)"
    "of_nat (x1 div 10) + 2 * of_nat b = (of_nat x2 :: u32)"
    "of_nat (x2 div 10) + 4 * of_nat a = (of_nat x3 :: u32)"
    and b: "x0 \<le> 339" "x1 \<le> 339" "x2 \<le> 63" "x3 < 100"
    and dd: "n mod 10 = x0 mod 10" "n div 10 mod 10 = x1 mod 10" "n div 100 mod 10 = x2 mod 10"
    "n div 1000 mod 10 = x3 mod 10" "n div 10000 = x3 div 10"
  have x3: "x3 \<le> 339" using b by simp
  have "put_dec_full (of_nat n) =
      [dig (of_nat (x0 mod 10)), dig (of_nat (x1 mod 10)), dig (of_nat (x2 mod 10)),
       dig (of_nat (x3 mod 10)), dig (of_nat (x3 div 10))]"
    unfolding put_dec_full_def Let_def put_dec_words [OF assms] and_mask_of_nat_u32 ab [symmetric] w
      approx_div10 [OF b(1)] approx_div10 [OF b(2)] approx_div10_small [OF b(3)]
      approx_div10 [OF x3] minus_div10 ..
  also have "\<dots> = map digit_char [n mod 10, n div 10 mod 10, n div 100 mod 10, n div 1000 mod 10, n div 10000 mod 10]"
    using b by (simp only: dd list.map) (simp add: dig_of_nat less_mult_imp_div_less)
  also have "\<dots> = map (\<lambda>i. digit_char (n div 10 ^ i mod 10)) [0..<5]"
    by (simp add: upt_rec)
  finally show ?thesis .
qed

lemma put_dec_trunc_correct:
  assumes "n < 100000"
  shows "put_dec_trunc (of_nat n) = rev_dec n"
  using assms
proof (rule put_dec_parts)
  fix a b c d x0 x1 x2 x3
  assume ab: "a = n div 4096" "b = n div 256 mod 16" "c = n div 16 mod 16" "d = n mod 16"
    and w: "6 * (of_nat a + of_nat b + of_nat c) + of_nat d = (of_nat x0 :: u32)"
    "of_nat (x0 div 10) + 9 * of_nat a + 5 * of_nat b + of_nat c = (of_nat x1 :: u32)"
    "of_nat (x1 div 10) + 2 * of_nat b = (of_nat x2 :: u32)"
    "of_nat (x2 div 10) + 4 * of_nat a = (of_nat x3 :: u32)"
    and b: "x0 \<le> 339" "x1 \<le> 339" "x2 \<le> 63" "x3 < 100" "a < 25"
    and dd: "n mod 10 = x0 mod 10" "n div 10 mod 10 = x1 mod 10" "n div 100 mod 10 = x2 mod 10"
    "n div 1000 mod 10 = x3 mod 10" "n div 10000 = x3 div 10"
    and z: "n div 10 = 0 \<longleftrightarrow> x1 = 0" "n div 100 = 0 \<longleftrightarrow> x2 = 0 \<and> a = 0" "n div 1000 = 0 \<longleftrightarrow> x3 = 0"
  have x3: "x3 \<le> 339" using b by simp
  have zw: "(of_nat x1 :: u32) \<noteq> 0 \<longleftrightarrow> n div 10 \<noteq> 0"
    "((of_nat x2 :: u32) \<noteq> 0 \<or> (of_nat a :: u32) \<noteq> 0) \<longleftrightarrow> n div 100 \<noteq> 0"
    "(of_nat x3 :: u32) \<noteq> 0 \<longleftrightarrow> n div 1000 \<noteq> 0"
    "(of_nat (x3 div 10) :: u32) \<noteq> 0 \<longleftrightarrow> n div 10000 \<noteq> 0"
    using b of_nat_eq_0_u32 [of x1] of_nat_eq_0_u32 [of x2] of_nat_eq_0_u32 [of x3]
      of_nat_eq_0_u32 [of a] of_nat_eq_0_u32 [of "x3 div 10"]
    by (simp_all only: z dd) simp_all
  have dg: "dig (of_nat (x0 mod 10)) = digit_char (n mod 10)"
    "dig (of_nat (x1 mod 10)) = digit_char (n div 10 mod 10)"
    "dig (of_nat (x2 mod 10)) = digit_char (n div 100 mod 10)"
    "dig (of_nat (x3 mod 10)) = digit_char (n div 1000 mod 10)"
    "dig (of_nat (x3 div 10)) = digit_char (n div 10000)"
    using b by (simp_all only: dd) (simp_all add: dig_of_nat less_mult_imp_div_less)
  have "put_dec_trunc (of_nat n) =
     digit_char (n mod 10) # (if n div 10 \<noteq> 0 then digit_char (n div 10 mod 10) #
       (if n div 100 \<noteq> 0 then digit_char (n div 100 mod 10) #
         (if n div 1000 \<noteq> 0 then digit_char (n div 1000 mod 10) #
           (if n div 10000 \<noteq> 0 then [digit_char (n div 10000)] else []) else []) else []) else [])"
    unfolding put_dec_trunc_def Let_def put_dec_words [OF assms] and_mask_of_nat_u32 ab [symmetric] w
      approx_div10 [OF b(1)] approx_div10 [OF b(2)] approx_div10_small [OF b(3)]
      approx_div10 [OF x3] minus_div10 zw dg ..
  also have "\<dots> = rev_dec n"
    using assms
    by (simp add: rev_dec_simps [of n] rev_dec_simps [of "n div 10"] rev_dec_simps [of "n div 100"]
        rev_dec_simps [of "n div 1000"] rev_dec_simps [of "n div 10000"] div_mult2_eq [symmetric]
        div_eq_0_iff)
  finally show ?thesis .
qed


lemma rev_dec_append:
  "0 < m \<Longrightarrow> r < 10 ^ k \<Longrightarrow>
   map (\<lambda>i. digit_char (r div 10 ^ i mod 10)) [0..<k] @ rev_dec m = rev_dec (r + 10 ^ k * m)"
proof (induction k arbitrary: r)
  case (Suc k)
  have u: "[0..<Suc k] = 0 # map Suc [0..<k]" by (simp add: map_Suc_upt upt_conv_Cons del: upt_Suc)
  have r: "r div 10 < 10 ^ k" using Suc.prems by (simp add: less_mult_imp_div_less)
  let ?n = "r + 10 ^ Suc k * m"
  have n: "?n mod 10 = r mod 10" "?n div 10 = r div 10 + 10 ^ k * m"
    by (simp_all add: mult.assoc)
  have "?n div 10 \<noteq> 0" unfolding n using Suc.prems by simp
  then have "rev_dec ?n = digit_char (r mod 10) # rev_dec (r div 10 + 10 ^ k * m)"
    by (subst rev_dec_simps) (simp only: n if_False)
  also have "\<dots> = map (\<lambda>i. digit_char (r div 10 ^ i mod 10)) [0..<Suc k] @ rev_dec m"
    using Suc.IH [OF Suc.prems(1) r] by (simp add: u div_mult2_eq comp_def del: upt_Suc)
  finally show ?case by (rule sym)
qed simp

lemma put_dec_correct: "put_dec num = rev_dec (unat num)"
proof (induction num rule: put_dec.induct)
  case (1 num)
  show ?case
  proof (cases "num < 100000")
    case True
    then have n: "unat num < 100000" by (simp add: word_less_nat_alt)
    then have "(ucast num :: u32) = of_nat (unat num)" by simp
    with True show ?thesis
      using put_dec_trunc_correct [OF n] by (simp add: put_dec.simps [of num])
  next
    case False
    then have n: "100000 \<le> unat num" by (simp add: word_less_nat_alt)
    let ?r = "unat num mod 100000" and ?m = "unat num div 100000"
    have r: "?r < 10 ^ 5" "?r < 100000" by simp_all
    have m: "0 < ?m" using n by (simp add: div_greater_zero_iff)
    have "unat (num mod 100000) = ?r" by (simp add: unat_mod)
    then have "(ucast (num mod 100000) :: u32) = of_nat ?r" by (metis of_nat_unat)
    with False 1 have "put_dec num = put_dec_full (of_nat ?r) @ rev_dec ?m"
      by (simp add: put_dec.simps [of num] unat_div)
    also have "\<dots> = rev_dec (?r + 10 ^ 5 * ?m)"
      unfolding put_dec_full_correct [OF r(2)] by (rule rev_dec_append [OF m r(1)])
    also have "\<dots> = rev_dec (unat num)" by simp
    finally show ?thesis .
  qed
qed

section \<open>Padding\<close>

lemma pad_loop_eq: "pad_loop c n = (replicate (nat n) c, if 0 \<le> n then -1 else n - 1)"
proof (induction c n rule: pad_loop.induct)
  case (1 c n)
  show ?case
  proof (cases "0 \<le> n - 1")
    case True
    then have "nat n = Suc (nat (n - 1))" by simp
    with True 1 show ?thesis by (simp add: pad_loop.simps [of c n])
  next
    case False
    then show ?thesis by (auto simp: pad_loop.simps [of c n])
  qed
qed

lemma zero_loop_eq: "zero_loop i p = replicate (nat (p - i)) (CHR ''0'')"
proof (induction i p rule: zero_loop.induct)
  case (1 i p)
  show ?case
  proof (cases "i \<le> p - 1")
    case True
    then have "nat (p - i) = Suc (nat (p - 1 - i))" by simp
    with True 1 show ?thesis by (simp add: zero_loop.simps [of i p])
  next
    case False
    then show ?thesis by (simp add: zero_loop.simps [of i p])
  qed
qed

lemma length_rev_radix: "n < b ^ k \<Longrightarrow> 0 < k \<Longrightarrow> length (rev_radix b f n) \<le> k"
proof (induction b f n arbitrary: k rule: rev_radix.induct)
  case (1 b f n)
  show ?case
  proof (cases "b \<le> 1 \<or> n div b = 0")
    case True
    with 1 show ?thesis by (subst rev_radix.simps) auto
  next
    case False
    then obtain j where j: "k = Suc j" "0 < j"
      using "1.prems" by (cases k; cases "k = 1") auto
    have "n div b < b ^ j" using "1.prems" j False by (simp add: less_mult_imp_div_less mult.commute)
    with False 1 j show ?thesis by (subst rev_radix.simps) simp
  qed
qed

lemma rev_radix_Suc_0: "rev_radix b f n \<noteq> []"
  by (subst rev_radix.simps) simp

section \<open>Parsing what was printed\<close>

definition valid_digit :: "u32 \<Rightarrow> char \<Rightarrow> bool" where
  "valid_digit base c \<longleftrightarrow> isxdigit c \<and> digit_value c < unat base"

lemma strtoul_loop_digits:
  "list_all (valid_digit base) s \<Longrightarrow>
   strtoul_loop base r (s @ t) =
     strtoul_loop base (foldl (\<lambda>r c. r * ucast base + of_nat (digit_value c)) r s) t"
  by (induction s arbitrary: r) (auto simp: valid_digit_def)

lemma foldl_rev_radix:
  assumes "1 < b" and "\<And>k. k < b \<Longrightarrow> digit_value (f k) = k" and "ucast base = (of_nat b :: 'a::len word)"
  shows "foldl (\<lambda>r c. r * ucast base + of_nat (digit_value c)) 0 (rev (rev_radix b f n)) = (of_nat n :: 'a word)"
proof (induction n rule: less_induct)
  case (less n)
  show ?case
  proof (cases "n div b = 0")
    case True
    then have "n < b" using assms(1) by (simp add: div_eq_0_iff)
    with assms show ?thesis by (subst rev_radix.simps) simp
  next
    case False
    then have "n div b < n" using assms(1) by (intro div_less_dividend) (auto intro: gr0I)
    then have "foldl (\<lambda>r c. r * ucast base + of_nat (digit_value c)) 0 (rev (rev_radix b f (n div b)))
        = (of_nat (n div b) :: 'a word)" by (rule less.IH)
    moreover have "(of_nat n :: 'a word) = of_nat (n div b) * of_nat b + of_nat (n mod b)"
      by (metis div_mult_mod_eq of_nat_add of_nat_mult)
    ultimately show ?thesis using False assms by (subst rev_radix.simps) simp
  qed
qed

lemma list_all_rev_radix:
  assumes "1 < b" and "\<And>k. k < b \<Longrightarrow> P (f k)"
  shows "list_all P (rev_radix b f n)"
proof (induction n rule: less_induct)
  case (less n)
  have "P (f (n mod b))" using assms by simp
  moreover have "n div b < n" if "n div b \<noteq> 0"
    using assms(1) that by (intro div_less_dividend) (auto intro: gr0I)
  ultimately show ?case using less.IH by (subst rev_radix.simps) auto
qed

lemma digit_char_simps:
  assumes "k < 10"
  shows "digit_value (digit_char k) = k" "isxdigit (digit_char k)" "digit_char k \<noteq> CHR ''x''"
proof -
  have "(of_char (digit_char k) :: nat) = 48 + k"
    using assms by (simp add: digit_char_def)
  with assms show "digit_value (digit_char k) = k" "isxdigit (digit_char k)" "digit_char k \<noteq> CHR ''x''"
    by (auto simp: digit_value_def isdigit_iff isxdigit_iff Let_def)
qed

text \<open>The lower-case hexadecimal digits that \<open>number\<close> prints with \<open>SMALL\<close>.\<close>

definition hex_char :: "nat \<Rightarrow> char" where
  "hex_char k = or_case (num_digits ! k) SMALL"

lemma hex_char_nth: "k < 16 \<Longrightarrow> hex_char k = ''0123456789abcdef'' ! k"
proof -
  have "map hex_char [0..<16] = ''0123456789abcdef''" by code_simp
  then show "k < 16 \<Longrightarrow> ?thesis" by (metis add_0 diff_zero length_upt nth_map nth_upt)
qed

lemma hex_char_simps:
  assumes "k < 16"
  shows "digit_value (hex_char k) = k" "isxdigit (hex_char k)" "hex_char k \<noteq> CHR ''x''"
proof -
  have "k = 0 \<or> k = 1 \<or> k = 2 \<or> k = 3 \<or> k = 4 \<or> k = 5 \<or> k = 6 \<or> k = 7 \<or> k = 8 \<or> k = 9 \<or>
      k = 10 \<or> k = 11 \<or> k = 12 \<or> k = 13 \<or> k = 14 \<or> k = 15"
    using assms by presburger
  then show "digit_value (hex_char k) = k" "isxdigit (hex_char k)" "hex_char k \<noteq> CHR ''x''"
    by (auto simp: hex_char_nth digit_value_def toupper_def ctype_iff)
qed

lemma parse_dec: "simple_strtoul (rev (rev_dec n)) 10 = (of_nat n, [])"
proof -
  let ?s = "rev (rev_dec n)"
  have all: "list_all (valid_digit 10) ?s"
    using list_all_rev_radix [of 10 "valid_digit 10" digit_char n]
    by (simp add: valid_digit_def digit_char_simps list.pred_set)
  then have x: "peek (tl ?s) \<noteq> CHR ''x''"
    using list_all_rev_radix [of 10 "\<lambda>c. c \<noteq> CHR ''x''" digit_char n] digit_char_simps(3)
    by (cases ?s; cases "tl ?s") (auto simp: list.pred_set simp flip: set_rev [of "rev_dec n"])
  have loop: "strtoul_loop 10 0 ?s = (of_nat n :: u32, [])"
  proof -
    have "foldl (\<lambda>r c. r * ucast (10 :: u32) + of_nat (digit_value c)) 0 ?s = (of_nat n :: u32)"
      by (rule foldl_rev_radix) (simp_all add: digit_char_simps)
    then show ?thesis using strtoul_loop_digits [OF all, of "0 :: u32" "[]"] by simp
  qed
  show ?thesis
  proof (cases "peek ?s = CHR ''0''")
    case False
    then show ?thesis using loop by (simp add: simple_strtoul_def strtoul_base_def)
  next
    case True
    then obtain t where t: "?s = CHR ''0'' # t" by (cases ?s) auto
    have "digit_value (CHR ''0'') = 0" "isxdigit (CHR ''0'')"
      by (simp_all add: digit_value_def isdigit_iff isxdigit_iff)
    then have "strtoul_loop 10 0 ?s = (strtoul_loop 10 0 (tl ?s) :: u32 \<times> string)"
      unfolding t by simp
    with True x loop show ?thesis by (simp add: simple_strtoul_def strtoul_base_def Let_def)
  qed
qed


lemma radix_loop_hex: "radix_loop 16 SMALL num = rev_radix 16 hex_char (unat num)"
proof (induction "16::int" "SMALL" num rule: radix_loop.induct)
  case (1 num)
  have "(0xf :: u8) = mask 4" by (simp add: mask_eq_exp_minus_1)
  then have "unat ((ucast num :: u8) AND 0xf) = unat (take_bit 4 (ucast num :: u8))"
    by (simp only: take_bit_eq_mask)
  also have "\<dots> = take_bit 4 (take_bit 8 (unat num))"
    by (simp only: unsigned_take_bit_eq unsigned_ucast_eq) simp
  finally have "unat ((ucast num :: u8) AND 0xf) = unat num mod 16"
    by (simp only: take_bit_take_bit) (simp add: take_bit_eq_mod)
  moreover have "unat (drop_bit 4 num) = unat num div 16"
    by (simp only: unat_drop_bit_eq) (simp add: drop_bit_eq_div)
  moreover from this have "drop_bit 4 num = 0 \<longleftrightarrow> unat num div 16 = 0"
    by (metis unsigned_eq_0_iff)
  ultimately show ?case
    using 1 by (subst radix_loop.simps, subst rev_radix.simps) (simp add: hex_char_def Let_def)
qed

text \<open>\<open>%08x\<close>: eight lower-case hexadecimal digits.\<close>

definition hex8 :: "u32 \<Rightarrow> string" where
  "hex8 w = (let ds = rev (rev_radix 16 hex_char (unat w)) in replicate (8 - length ds) (CHR ''0'') @ ds)"

lemma length_hex8_digits: "length (rev_radix 16 hex_char (unat (w :: u32))) \<le> 8"
proof -
  have "unat w < 2 ^ LENGTH(32)" by (rule unsigned_less)
  then show ?thesis using length_rev_radix [of "unat w" 16 8 hex_char] by simp
qed

lemma length_hex8: "length (hex8 w) = 8"
  using length_hex8_digits [of w] by (simp add: hex8_def Let_def)

lemma number_hex8: "number (ucast (w :: u32)) 16 8 (-1) (ZEROPAD OR SMALL) = hex8 w"
proof (cases "w = 0")
  case True
  then have "rev_radix 16 hex_char (unat w) = ''0''"
    by (subst rev_radix.simps) (simp add: hex_char_nth)
  then show ?thesis using True
    by (simp add: number_def Let_def has_def pad_loop_eq zero_loop_eq hex8_def)
next
  case False
  let ?ds = "rev_radix 16 hex_char (unat w)"
  have "(ucast w :: u64) \<noteq> 0" using False by (metis unat_ucast_u64 unsigned_eq_0_iff)
  moreover have "nat (8 - int (length ?ds)) = 8 - length ?ds" by simp
  ultimately show ?thesis
    by (simp add: number_def Let_def has_def radix_loop_hex pad_loop_eq zero_loop_eq hex8_def)
qed

lemma parse_hex8: "simple_strtoul (''0x'' @ hex8 w) base = (w, [])"
proof -
  let ?ds = "rev (rev_radix 16 hex_char (unat w))"
  have dv: "digit_value (CHR ''0'') = 0" "isxdigit (CHR ''0'')"
    by (simp_all add: digit_value_def isdigit_iff isxdigit_iff)
  have zeros: "strtoul_loop 16 0 (replicate k (CHR ''0'') @ s) = (strtoul_loop 16 0 s :: u32 \<times> string)" for k s
    by (induction k) (simp_all add: dv)
  have all: "list_all (valid_digit 16) ?ds"
    using list_all_rev_radix [of 16 "valid_digit 16" hex_char "unat w"]
    by (simp add: valid_digit_def hex_char_simps list.pred_set)
  have "foldl (\<lambda>r c. r * ucast (16 :: u32) + of_nat (digit_value c)) 0 ?ds = (of_nat (unat w) :: u32)"
    by (rule foldl_rev_radix) (simp_all add: hex_char_simps)
  then have loop: "strtoul_loop 16 0 (hex8 w) = (w, [])"
    using strtoul_loop_digits [OF all, of "0 :: u32" "[]"] by (simp add: hex8_def Let_def zeros)
  obtain c t where ct: "hex8 w = c # t" using length_hex8 [of w] by (cases "hex8 w") auto
  have "c \<in> set (hex8 w)" by (simp add: ct)
  then have "isxdigit c"
    using all dv(2) by (auto simp: hex8_def Let_def list.pred_set valid_digit_def)
  then show ?thesis
    using loop by (simp add: simple_strtoul_def strtoul_base_def Let_def ct)
qed

lemma sprintf_hex8: "sprintf ''0x%08x'' [VInt w] = Some (''0x'' @ hex8 w)"
  using number_hex8 [of w]
  by (simp add: sprintf_def vsprintf_def vs_conv_def vs_width_def vs_precision_def vs_qualifier_def
      is_digit_def skip_atoi_def vs_num_def has_def Let_def)

lemma digit_char_0: "digit_char 0 = CHR ''0''"
  by code_simp

lemma number_dec: "number (ucast (w :: u32)) 10 (-1) (-1) 0 = rev (rev_dec (unat w))"
proof (cases "w = 0")
  case True
  then have "rev_dec (unat w) = ''0''"
    by (subst rev_radix.simps) (simp add: digit_char_0)
  then show ?thesis using True
    by (simp add: number_def Let_def has_def pad_loop_eq zero_loop_eq)
next
  case False
  have "(ucast w :: u64) \<noteq> 0" using False by (metis unat_ucast_u64 unsigned_eq_0_iff)
  moreover have "nat (- 1 - int (length (rev_dec (unat w)))) = 0" by simp
  ultimately show ?thesis
    by (simp add: number_def Let_def has_def put_dec_correct pad_loop_eq zero_loop_eq)
qed

lemma sprintf_dec: "sprintf ''%u'' [VInt w] = Some (rev (rev_dec (unat w)))"
  using number_dec [of w]
  by (simp add: sprintf_def vsprintf_def vs_conv_def vs_width_def vs_precision_def vs_qualifier_def
      is_digit_def skip_atoi_def vs_num_def has_def Let_def)


text \<open>Conversions that messages of other components use.\<close>

lemma vsprintf_s: "vsprintf_loop str counts (CHR ''%'' # CHR ''s'' # fmt) (VStr s # args) =
    vsprintf_loop (str @ (case s of None \<Rightarrow> ''<NULL>'' | Some t \<Rightarrow> t)) counts fmt args"
  by (simp add: vs_conv_def vs_width_def vs_precision_def vs_qualifier_def is_digit_def put_string_def
      width_loop.simps Let_def split: option.splits)

lemma vsprintf_x: "vsprintf_loop str counts (CHR ''%'' # CHR ''x'' # fmt) (VInt v # args) =
    vsprintf_loop (str @ number (ucast v) 16 (-1) (-1) SMALL) counts fmt args"
  by (simp add: vs_conv_def vs_width_def vs_precision_def vs_qualifier_def is_digit_def vs_num_def has_def Let_def)

lemma vsprintf_d: "vsprintf_loop str counts (CHR ''%'' # CHR ''d'' # fmt) (VInt v # args) =
    vsprintf_loop (str @ number (scast v) 10 (-1) (-1) SIGN) counts fmt args"
  by (simp add: vs_conv_def vs_width_def vs_precision_def vs_qualifier_def is_digit_def vs_num_def has_def Let_def)

lemma vsprintf_08x: "vsprintf_loop str counts (CHR ''%'' # CHR ''0'' # CHR ''8'' # CHR ''x'' # fmt) (VInt v # args) =
    vsprintf_loop (str @ hex8 v) counts fmt args"
  using number_hex8 [of v]
  by (simp add: vs_conv_def vs_width_def vs_precision_def vs_qualifier_def
      is_digit_def skip_atoi_def vs_num_def has_def Let_def)

lemma vsprintf_plain: "c \<noteq> CHR ''%'' \<Longrightarrow>
    vsprintf_loop str counts (c # fmt) args = vsprintf_loop (str @ [c]) counts fmt args"
  by simp

lemmas sprintf_simps = sprintf_def vsprintf_def vsprintf_s vsprintf_x vsprintf_d vsprintf_08x vsprintf_plain

section \<open>Properties\<close>

text \<open>C20: the optimised decimal conversion \<open>put_dec\<close> (nibble arithmetic and approximate
  division by ten) emits exactly the decimal digits of its 64-bit argument, least
  significant first.\<close>

theorem put_dec_eq_radix: "put_dec num = rev_radix 10 digit_char (unat num)"
  by (rule put_dec_correct)

text \<open>C26: a 32-bit value printed with \<open>0x%08x\<close> takes ten characters and
  \<open>simple_strtoul\<close> reads it back exactly, whatever base it is called with.\<close>

theorem sprintf_strtoul_hex:
  "\<exists>s. sprintf ''0x%08x'' [VInt w] = Some s \<and> length s = 10 \<and> simple_strtoul s base = (w, [])"
  using sprintf_hex8 [of w] parse_hex8 [of w base] length_hex8 [of w] by auto

text \<open>A 32-bit value printed with \<open>%u\<close> is read back exactly in base 10, and a 16-bit
  value takes at most five characters.\<close>

lemma sprintf_strtoul_dec:
  "\<exists>s. sprintf ''%u'' [VInt w] = Some s \<and> simple_strtoul s 10 = (w, []) \<and>
     (w < 0x10000 \<longrightarrow> length s \<le> 5)"
proof -
  have "length (rev_dec (unat w)) \<le> 5" if "w < 0x10000"
    using that length_rev_radix [of "unat w" 10 5 digit_char] by (simp add: word_less_nat_alt)
  then show ?thesis
    using sprintf_dec [of w] parse_dec [of "unat w"] by auto
qed

lemma sprintf_strtoul_dec_example:
  "\<exists>s. sprintf ''%u'' [VInt 65535] = Some s \<and> simple_strtoul s 10 = (65535, []) \<and> length s \<le> 5"
  using sprintf_strtoul_dec [of 65535] by auto

end
