(* ===== verification/Crc32.thy ===== *)
theory Crc32
  imports Prelude
begin

text \<open>
  The CRC-32 of \<^verbatim>\<open>lib_generic/crc32.c\<close>: the constant table of the source, the routine that
  takes the data a 32-bit word at a time where the buffer is aligned, and its proof
  against the bit-serial definition of the checksum.
\<close>

section \<open>Definitions\<close>

definition crc_table :: "u32 list" where
  "crc_table = [
   0x00000000, 0x77073096, 0xee0e612c, 0x990951ba, 0x076dc419, 0x706af48f, 0xe963a535, 0x9e6495a3,
   0x0edb8832, 0x79dcb8a4, 0xe0d5e91e, 0x97d2d988, 0x09b64c2b, 0x7eb17cbd, 0xe7b82d07, 0x90bf1d91,
   0x1db71064, 0x6ab020f2, 0xf3b97148, 0x84be41de, 0x1adad47d, 0x6ddde4eb, 0xf4d4b551, 0x83d385c7,
   0x136c9856, 0x646ba8c0, 0xfd62f97a, 0x8a65c9ec, 0x14015c4f, 0x63066cd9, 0xfa0f3d63, 0x8d080df5,
   0x3b6e20c8, 0x4c69105e, 0xd56041e4, 0xa2677172, 0x3c03e4d1, 0x4b04d447, 0xd20d85fd, 0xa50ab56b,
   0x35b5a8fa, 0x42b2986c, 0xdbbbc9d6, 0xacbcf940, 0x32d86ce3, 0x45df5c75, 0xdcd60dcf, 0xabd13d59,
   0x26d930ac, 0x51de003a, 0xc8d75180, 0xbfd06116, 0x21b4f4b5, 0x56b3c423, 0xcfba9599, 0xb8bda50f,
   0x2802b89e, 0x5f058808, 0xc60cd9b2, 0xb10be924, 0x2f6f7c87, 0x58684c11, 0xc1611dab, 0xb6662d3d,
   0x76dc4190, 0x01db7106, 0x98d220bc, 0xefd5102a, 0x71b18589, 0x06b6b51f, 0x9fbfe4a5, 0xe8b8d433,
   0x7807c9a2, 0x0f00f934, 0x9609a88e, 0xe10e9818, 0x7f6a0dbb, 0x086d3d2d, 0x91646c97, 0xe6635c01,
   0x6b6b51f4, 0x1c6c6162, 0x856530d8, 0xf262004e, 0x6c0695ed, 0x1b01a57b, 0x8208f4c1, 0xf50fc457,
   0x65b0d9c6, 0x12b7e950, 0x8bbeb8ea, 0xfcb9887c, 0x62dd1ddf, 0x15da2d49, 0x8cd37cf3, 0xfbd44c65,
   0x4db26158, 0x3ab551ce, 0xa3bc0074, 0xd4bb30e2, 0x4adfa541, 0x3dd895d7, 0xa4d1c46d, 0xd3d6f4fb,
   0x4369e96a, 0x346ed9fc, 0xad678846, 0xda60b8d0, 0x44042d73, 0x33031de5, 0xaa0a4c5f, 0xdd0d7cc9,
   0x5005713c, 0x270241aa, 0xbe0b1010, 0xc90c2086, 0x5768b525, 0x206f85b3, 0xb966d409, 0xce61e49f,
   0x5edef90e, 0x29d9c998, 0xb0d09822, 0xc7d7a8b4, 0x59b33d17, 0x2eb40d81, 0xb7bd5c3b, 0xc0ba6cad,
   0xedb88320, 0x9abfb3b6, 0x03b6e20c, 0x74b1d29a, 0xead54739, 0x9dd277af, 0x04db2615, 0x73dc1683,
   0xe3630b12, 0x94643b84, 0x0d6d6a3e, 0x7a6a5aa8, 0xe40ecf0b, 0x9309ff9d, 0x0a00ae27, 0x7d079eb1,
   0xf00f9344, 0x8708a3d2, 0x1e01f268, 0x6906c2fe, 0xf762575d, 0x806567cb, 0x196c3671, 0x6e6b06e7,
   0xfed41b76, 0x89d32be0, 0x10da7a5a, 0x67dd4acc, 0xf9b9df6f, 0x8ebeeff9, 0x17b7be43, 0x60b08ed5,
   0xd6d6a3e8, 0xa1d1937e, 0x38d8c2c4, 0x4fdff252, 0xd1bb67f1, 0xa6bc5767, 0x3fb506dd, 0x48b2364b,
   0xd80d2bda, 0xaf0a1b4c, 0x36034af6, 0x41047a60, 0xdf60efc3, 0xa867df55, 0x316e8eef, 0x4669be79,
   0xcb61b38c, 0xbc66831a, 0x256fd2a0, 0x5268e236, 0xcc0c7795, 0xbb0b4703, 0x220216b9, 0x5505262f,
   0xc5ba3bbe, 0xb2bd0b28, 0x2bb45a92, 0x5cb36a04, 0xc2d7ffa7, 0xb5d0cf31, 0x2cd99e8b, 0x5bdeae1d,
   0x9b64c2b0, 0xec63f226, 0x756aa39c, 0x026d930a, 0x9c0906a9, 0xeb0e363f, 0x72076785, 0x05005713,
   0x95bf4a82, 0xe2b87a14, 0x7bb12bae, 0x0cb61b38, 0x92d28e9b, 0xe5d5be0d, 0x7cdcefb7, 0x0bdbdf21,
   0x86d3d2d4, 0xf1d4e242, 0x68ddb3f8, 0x1fda836e, 0x81be16cd, 0xf6b9265b, 0x6fb077e1, 0x18b74777,
   0x88085ae6, 0xff0f6a70, 0x66063bca, 0x11010b5c, 0x8f659eff, 0xf862ae69, 0x616bffd3, 0x166ccf45,
   0xa00ae278, 0xd70dd2ee, 0x4e048354, 0x3903b3c2, 0xa7672661, 0xd06016f7, 0x4969474d, 0x3e6e77db,
   0xaed16a4a, 0xd9d65adc, 0x40df0b66, 0x37d83bf0, 0xa9bcae53, 0xdebb9ec5, 0x47b2cf7f, 0x30b5ffe9,
   0xbdbdf21c, 0xcabac28a, 0x53b39330, 0x24b4a3a6, 0xbad03605, 0xcdd70693, 0x54de5729, 0x23d967bf,
   0xb3667a2e, 0xc4614ab8, 0x5d681b02, 0x2a6f2b94, 0xb40bbe37, 0xc30c8ea1, 0x5a05df1b, 0x2d02ef8d]"

text \<open>The generator of the table, \<open>make_crc_table\<close> (the \<open>DYNAMIC_CRC_TABLE\<close> variant).\<close>

definition crc_poly :: u32 where
  "crc_poly = foldl (\<lambda>poly p. poly OR push_bit (31 - p) 1) 0 [0,1,2,4,5,7,8,10,11,12,16,22,23,26]"

definition crc_shift :: "u32 \<Rightarrow> u32" where
  "crc_shift c = (if c AND 1 \<noteq> 0 then crc_poly XOR drop_bit 1 c else drop_bit 1 c)"

definition make_crc_table :: "u32 list" where
  "make_crc_table = map (\<lambda>n. (crc_shift ^^ 8) (of_nat n)) [0..<256]"

definition DO_CRC :: "u32 \<Rightarrow> u8 \<Rightarrow> u32" where
  "DO_CRC crc x = crc_table ! unat ((crc XOR ucast x) AND 255) XOR drop_bit 8 crc"

text \<open>The loop that reaches a word boundary: the checksum, the address and the length left.\<close>

fun crc_align :: "mem \<Rightarrow> u32 \<Rightarrow> addr \<Rightarrow> nat \<Rightarrow> u32 \<times> addr \<times> nat" where
  "crc_align m crc p 0 = (crc, p, 0)"
| "crc_align m crc p (Suc len) =
     (let crc = DO_CRC crc (m p) in
      if len \<noteq> 0 \<and> (p + 1) mod 4 \<noteq> 0 then crc_align m crc (p + 1) len else (crc, p + 1, len))"

fun crc_words :: "mem \<Rightarrow> u32 \<Rightarrow> addr \<Rightarrow> nat \<Rightarrow> u32 \<times> addr" where
  "crc_words m crc b 0 = (crc, b)"
| "crc_words m crc b (Suc len) =
     crc_words m (DO_CRC (DO_CRC (DO_CRC (DO_CRC (crc XOR load32 m b) 0) 0) 0) 0) (b + 4) len"

fun crc_tail :: "mem \<Rightarrow> u32 \<Rightarrow> addr \<Rightarrow> nat \<Rightarrow> u32" where
  "crc_tail m crc p 0 = crc"
| "crc_tail m crc p (Suc len) = crc_tail m (DO_CRC crc (m p)) (p + 1) len"

definition crc32_no_comp :: "mem \<Rightarrow> u32 \<Rightarrow> addr \<Rightarrow> nat \<Rightarrow> u32" where
  "crc32_no_comp m crc buf len =
     (let (crc, b, len) =
        (if buf mod 4 \<noteq> 0 \<and> len \<noteq> 0 then crc_align m crc buf len else (crc, buf, len));
          rem_len = len mod 4;
          (crc, b) = crc_words m crc b (len div 4)
      in crc_tail m crc b rem_len)"

definition crc32 :: "mem \<Rightarrow> u32 \<Rightarrow> addr \<Rightarrow> nat \<Rightarrow> u32" where
  "crc32 m crc p len = crc32_no_comp m (crc XOR 0xffffffff) p len XOR 0xffffffff"

text \<open>Without a watchdog, \<open>crc32_wd\<close> is \<open>crc32\<close> over the whole buffer.\<close>

definition crc32_wd :: "mem \<Rightarrow> u32 \<Rightarrow> addr \<Rightarrow> nat \<Rightarrow> nat \<Rightarrow> u32" where
  "crc32_wd m crc buf len chunk_sz = crc32 m crc buf len"

section \<open>The shift register is linear\<close>

lemma and_1_bit: "(c :: u32) AND 1 \<noteq> 0 \<longleftrightarrow> bit c 0"
  by (simp add: and_one_eq bit_0 odd_iff_mod_2_eq_one)

lemma crc_shift_bit: "crc_shift c = (if bit c 0 then crc_poly XOR drop_bit 1 c else drop_bit 1 c)"
  by (simp only: crc_shift_def and_1_bit)

lemma crc_shift_xor: "crc_shift (a XOR b) = crc_shift a XOR crc_shift b"
  unfolding crc_shift_bit by (rule bit_word_eqI) (auto simp: bit_simps)

lemma crc_shift_pow_xor: "(crc_shift ^^ n) (a XOR b) = (crc_shift ^^ n) a XOR (crc_shift ^^ n) b"
  by (induction n) (simp_all add: crc_shift_xor)

text \<open>A value whose low \<open>n\<close> bits are zero is only shifted.\<close>

lemma crc_shift_pow_high: "(\<forall>i<n. \<not> bit c i) \<Longrightarrow> (crc_shift ^^ n) c = drop_bit n c"
proof (induction n)
  case (Suc n)
  then have "(crc_shift ^^ n) c = drop_bit n c" by simp
  moreover have "\<not> bit (drop_bit n c) 0" using Suc.prems by (simp add: bit_drop_bit_eq)
  ultimately show ?case by (simp add: crc_shift_bit [of "drop_bit n c"])
qed simp

text \<open>The bit-serial reference: one byte enters the shift register.\<close>

definition crc_byte :: "u32 \<Rightarrow> u8 \<Rightarrow> u32" where
  "crc_byte crc x = (crc_shift ^^ 8) (crc XOR ucast x)"

lemma crc_split: "(crc_shift ^^ 8) c = (crc_shift ^^ 8) (take_bit 8 c) XOR drop_bit 8 c"
proof -
  let ?h = "push_bit 8 (drop_bit 8 c)"
  have "c = take_bit 8 c XOR ?h"
    by (rule bit_word_eqI) (auto simp: bit_simps)
  then have "(crc_shift ^^ 8) c = (crc_shift ^^ 8) (take_bit 8 c) XOR (crc_shift ^^ 8) ?h"
    by (metis crc_shift_pow_xor)
  moreover have "(crc_shift ^^ 8) ?h = drop_bit 8 ?h"
    by (rule crc_shift_pow_high) (simp add: bit_push_bit_iff)
  moreover have "drop_bit 8 ?h = drop_bit 8 c"
    by (rule bit_word_eqI) (auto simp: bit_simps dest: bit_imp_le_length)
  ultimately show ?thesis by simp
qed

lemma of_nat_xor_pow2:
  assumes "n < 2 ^ k"
  shows "(of_nat (2 ^ k + n) :: u32) = of_nat n XOR push_bit k 1"
proof -
  have "take_bit k n = n" using assms by (simp add: take_bit_nat_eq_self)
  then have "\<not> bit n k" by (metis bit_take_bit_iff less_irrefl)
  then have "(of_nat n :: u32) AND push_bit k 1 = 0"
    by (intro bit_word_eqI) (auto simp: bit_simps bit_1_iff)
  then have "of_nat n + push_bit k 1 = (of_nat n XOR push_bit k 1 :: u32)"
    by (rule disjunctive_add_eq_xor)
  then show ?thesis by (simp add: push_bit_eq_mult add.commute)
qed

section \<open>The table\<close>

lemma crc_poly_eq: "crc_poly = 0xedb88320"
  by (simp add: crc_poly_def)

lemma crc_shift_code [code]:
  "crc_shift c = (if odd (uint c) then 0xedb88320 XOR drop_bit 1 c else drop_bit 1 c)"
proof -
  have "odd c \<longleftrightarrow> bit c 0" "odd (uint c) \<longleftrightarrow> bit (uint c) 0" by (simp_all add: bit_0)
  then have "odd c \<longleftrightarrow> odd (uint c)" by (simp add: bit_uint_iff)
  moreover have "c AND 1 \<noteq> 0 \<longleftrightarrow> odd c" by (simp add: and_one_eq odd_iff_mod_2_eq_one)
  ultimately show ?thesis by (simp add: crc_shift_def crc_poly_eq)
qed

lemma crc_table_xor:
  "list_all (\<lambda>(k, t). crc_table ! (2 ^ k) = t \<and>
      map (\<lambda>x. x XOR t) (take (2 ^ k) crc_table) = take (2 ^ k) (drop (2 ^ k) crc_table))
    (zip [0..<8] [0x77073096, 0xee0e612c, 0x076dc419, 0x0edb8832, 0x1db71064, 0x3b6e20c8,
       0x76dc4190, 0xedb88320])"
  by (simp add: upt_rec crc_table_def)

text \<open>A single bit above bit 0 moves one place down, so the entries of the powers of two
  follow from each other.\<close>

lemma crc_shift_power: "k < 31 \<Longrightarrow> crc_shift (push_bit (Suc k) 1) = push_bit k 1"
proof -
  assume k: "k < 31"
  have "\<not> bit (push_bit (Suc k) 1 :: u32) 0" by (simp only: bit_push_bit_iff) simp
  moreover have "drop_bit 1 (push_bit (Suc k) 1) = (push_bit k 1 :: u32)"
    using k by (intro bit_word_eqI) (simp only: bit_drop_bit_eq bit_push_bit_iff bit_1_iff comp_apply, auto)
  ultimately show ?thesis by (simp only: crc_shift_bit if_False)
qed

lemma crc_power_step:
  "k < 7 \<Longrightarrow> (crc_shift ^^ 8) (push_bit k 1) = crc_shift ((crc_shift ^^ 8) (push_bit (Suc k) 1))"
  by (simp only: crc_shift_power [of k, symmetric] funpow_swap1)

lemma crc_power_7: "(crc_shift ^^ 8) (push_bit 7 1) = 0xedb88320"
proof -
  have "(crc_shift ^^ 7) (push_bit 7 1) = drop_bit 7 (push_bit 7 1)"
    by (rule crc_shift_pow_high) (simp only: bit_push_bit_iff, simp)
  moreover have "drop_bit 7 (push_bit 7 1 :: u32) = 1"
    by (rule bit_word_eqI) (auto simp: bit_simps bit_1_iff)
  moreover have "crc_shift 1 = 0xedb88320" by (simp add: crc_shift_code)
  moreover have "(8 :: nat) = Suc 7" by simp
  ultimately show ?thesis by (simp only: funpow.simps comp_apply)
qed

lemma crc_power_values:
  "(crc_shift ^^ 8) (push_bit 7 1) = 0xedb88320" "(crc_shift ^^ 8) (push_bit 6 1) = 0x76dc4190"
  "(crc_shift ^^ 8) (push_bit 5 1) = 0x3b6e20c8" "(crc_shift ^^ 8) (push_bit 4 1) = 0x1db71064"
  "(crc_shift ^^ 8) (push_bit 3 1) = 0x0edb8832" "(crc_shift ^^ 8) (push_bit 2 1) = 0x076dc419"
  "(crc_shift ^^ 8) (push_bit 1 1) = 0xee0e612c" "(crc_shift ^^ 8) (push_bit 0 1) = 0x77073096"
proof -
  note p = crc_power_step [of 6] crc_power_step [of 5] crc_power_step [of 4] crc_power_step [of 3]
    crc_power_step [of 2] crc_power_step [of 1] crc_power_step [of 0]
  have s: "crc_shift 0xedb88320 = 0x76dc4190" "crc_shift 0x76dc4190 = 0x3b6e20c8"
    "crc_shift 0x3b6e20c8 = 0x1db71064" "crc_shift 0x1db71064 = 0x0edb8832"
    "crc_shift 0x0edb8832 = 0x076dc419" "crc_shift 0x076dc419 = 0xee0e612c"
    "crc_shift 0xee0e612c = 0x77073096"
    by (simp_all add: crc_shift_code)
  have n: "Suc 6 = 7" "Suc 5 = 6" "Suc 4 = 5" "Suc 3 = 4" "Suc 2 = 3" "Suc 1 = 2" "Suc 0 = 1" by simp_all
  show v7: "(crc_shift ^^ 8) (push_bit 7 1) = 0xedb88320" by (rule crc_power_7)
  show v6: "(crc_shift ^^ 8) (push_bit 6 1) = 0x76dc4190" using p(1) by (simp only: n v7 s)
  show v5: "(crc_shift ^^ 8) (push_bit 5 1) = 0x3b6e20c8" using p(2) by (simp only: n v6 s)
  show v4: "(crc_shift ^^ 8) (push_bit 4 1) = 0x1db71064" using p(3) by (simp only: n v5 s)
  show v3: "(crc_shift ^^ 8) (push_bit 3 1) = 0x0edb8832" using p(4) by (simp only: n v4 s)
  show v2: "(crc_shift ^^ 8) (push_bit 2 1) = 0x076dc419" using p(5) by (simp only: n v3 s)
  show v1: "(crc_shift ^^ 8) (push_bit 1 1) = 0xee0e612c" using p(6) by (simp only: n v2 s)
  show "(crc_shift ^^ 8) (push_bit 0 1) = 0x77073096" using p(7) by (simp only: n v1 s)
qed

lemma crc_table_power: "k < 8 \<Longrightarrow> crc_table ! (2 ^ k) = (crc_shift ^^ 8) (push_bit k 1)"
proof -
  assume "k < 8"
  then have "k = 0 \<or> k = 1 \<or> k = 2 \<or> k = 3 \<or> k = 4 \<or> k = 5 \<or> k = 6 \<or> k = 7" by presburger
  then show ?thesis
    using crc_power_values by (elim disjE) (simp_all only: crc_table_def, simp_all)
qed

lemma length_crc_table: "length crc_table = 256"
  by (simp add: crc_table_def)

lemma crc_table_step:
  assumes "k < 8" and "n < 2 ^ k"
  shows "crc_table ! (2 ^ k + n) = crc_table ! n XOR crc_table ! (2 ^ k)"
proof -
  have "(2::nat) ^ k + n < 2 ^ Suc k" "(2::nat) ^ Suc k \<le> 2 ^ 8"
    using assms by (simp, intro power_increasing) simp_all
  then have len: "2 ^ k + n < length crc_table" by (simp add: length_crc_table)
  have "list_all (\<lambda>k. map (\<lambda>x. x XOR crc_table ! (2 ^ k)) (take (2 ^ k) crc_table)
      = take (2 ^ k) (drop (2 ^ k) crc_table)) [0..<8]"
    using crc_table_xor by (simp add: upt_rec)
  then have "map (\<lambda>x. x XOR crc_table ! (2 ^ k)) (take (2 ^ k) crc_table) ! n
      = take (2 ^ k) (drop (2 ^ k) crc_table) ! n"
    using assms(1) by (auto simp: list.pred_set)
  then show ?thesis using assms(2) len by simp
qed

lemma crc_table_nth: "k \<le> 8 \<Longrightarrow> n < 2 ^ k \<Longrightarrow> crc_table ! n = (crc_shift ^^ 8) (of_nat n)"
proof (induction k arbitrary: n)
  case 0
  have "crc_table ! 0 = 0" by (simp add: crc_table_def)
  moreover have "(crc_shift ^^ 8) 0 = 0" using crc_shift_pow_high [of 8 0] by simp
  ultimately show ?case using 0 by simp
next
  case (Suc k)
  show ?case
  proof (cases "n < 2 ^ k")
    case True
    with Suc show ?thesis by simp
  next
    case False
    define j where "j = n - 2 ^ k"
    have j: "n = 2 ^ k + j" "j < 2 ^ k" using False Suc.prems by (simp_all add: j_def)
    have "k < 8" using Suc.prems by simp
    then show ?thesis
      using Suc.IH [of j] j
      by (simp add: crc_table_step crc_table_power of_nat_xor_pow2 crc_shift_pow_xor del: of_nat_add)
  qed
qed

lemma crc_table_make: "crc_table = make_crc_table"
  by (auto simp: list_eq_iff_nth_eq length_crc_table make_crc_table_def intro: crc_table_nth [of 8])

lemma DO_CRC_byte: "DO_CRC crc x = crc_byte crc x"
proof -
  let ?c = "crc XOR ucast x"
  have "unat (take_bit 8 ?c) = take_bit 8 (unat ?c)" by (rule unsigned_take_bit_eq)
  then have u: "unat (take_bit 8 ?c) < 2 ^ 8" by (simp only: take_bit_nat_less_exp)
  have "DO_CRC crc x = crc_table ! unat (take_bit 8 ?c) XOR drop_bit 8 crc"
    by (simp add: DO_CRC_def and_0xff)
  also have "crc_table ! unat (take_bit 8 ?c) = (crc_shift ^^ 8) (take_bit 8 ?c)"
    using crc_table_nth [of 8 "unat (take_bit 8 ?c)"] u by simp
  also have "drop_bit 8 crc = drop_bit 8 ?c"
    by (rule bit_word_eqI) (auto simp: bit_simps dest: bit_imp_le_length)
  finally show ?thesis by (simp add: crc_byte_def crc_split [of ?c])
qed

section \<open>The loops\<close>

lemma crc_tail_foldl: "crc_tail m crc p n = foldl DO_CRC crc (bytes_at m p n)"
  by (induction m crc p n rule: crc_tail.induct) (simp_all add: bytes_at_Suc)

lemma crc_align_foldl:
  "crc_align m crc p n = (crc', p', n') \<Longrightarrow>
   n' \<le> n \<and> p' + n' = p + n \<and>
   foldl DO_CRC crc (bytes_at m p n) = foldl DO_CRC crc' (bytes_at m p' n')"
  by (induction m crc p n rule: crc_align.induct)
    (auto simp: bytes_at_Suc Let_def split: if_splits)

text \<open>A word added to the register in one go enters it byte by byte.\<close>

lemma DO_CRC_word: "DO_CRC (crc XOR w) 0 = DO_CRC crc (ucast w) XOR drop_bit 8 w"
proof -
  have "(crc XOR w) AND 255 = (crc XOR ucast (ucast w :: u8)) AND 255"
    unfolding and_0xff by (rule bit_word_eqI) (auto simp: bit_simps)
  then show ?thesis by (simp add: DO_CRC_def drop_bit_xor xor.assoc xor.commute xor.left_commute)
qed

lemma DO_CRC_load32:
  "DO_CRC (DO_CRC (DO_CRC (DO_CRC (crc XOR load32 m b) 0) 0) 0) 0 = foldl DO_CRC crc (bytes_at m b 4)"
proof -
  let ?w = "load32 m b"
  have z: "drop_bit 8 (drop_bit 8 (drop_bit 8 (drop_bit 8 ?w))) = 0"
    by (rule bit_word_eqI) (auto simp: bit_simps dest: bit_imp_le_length)
  have b: "(ucast ?w :: u8) = m b" "(ucast (drop_bit 8 ?w) :: u8) = m (b + 1)"
    "(ucast (drop_bit 8 (drop_bit 8 ?w)) :: u8) = m (b + 2)"
    "(ucast (drop_bit 8 (drop_bit 8 (drop_bit 8 ?w))) :: u8) = m (b + 3)"
    using byte_of_load32 [of m b] by (simp_all add: byte_of_def drop_bit_drop_bit)
  have l: "bytes_at m b 4 = [m b, m (b + 1), m (b + 2), m (b + 3)]"
    by (simp add: bytes_at_def upt_rec numeral_eq_Suc)
  show ?thesis unfolding l DO_CRC_word b z by simp
qed

lemma bytes_at_append: "bytes_at m a (n + k) = bytes_at m a n @ bytes_at m (a + n) k"
  by (induction n arbitrary: a) (simp_all add: bytes_at_Suc)

lemma crc_words_foldl:
  "crc_words m crc b n = (foldl DO_CRC crc (bytes_at m b (4 * n)), b + 4 * n)"
proof (induction m crc b n rule: crc_words.induct)
  case (2 m crc b n)
  have "bytes_at m b (4 * Suc n) = bytes_at m b 4 @ bytes_at m (b + 4) (4 * n)"
    using bytes_at_append [of m b 4 "4 * n"] by simp
  with 2 show ?case by (simp only: crc_words.simps DO_CRC_load32 foldl_append) simp
qed simp

lemma crc32_no_comp_foldl: "crc32_no_comp m crc p n = foldl crc_byte crc (bytes_at m p n)"
proof -
  have main: "(let (c, b) = crc_words m c0 q (k div 4) in crc_tail m c b (k mod 4))
      = foldl DO_CRC c0 (bytes_at m q k)" for c0 q k
    using bytes_at_append [of m q "4 * (k div 4)" "k mod 4"]
    by (simp add: crc_words_foldl crc_tail_foldl)
  have "crc32_no_comp m crc p n = foldl DO_CRC crc (bytes_at m p n)"
  proof (cases "p mod 4 \<noteq> 0 \<and> n \<noteq> 0")
    case True
    obtain c q k where a: "crc_align m crc p n = (c, q, k)" by (metis prod_cases3)
    have "crc32_no_comp m crc p n = (let (c, b) = crc_words m c q (k div 4) in crc_tail m c b (k mod 4))"
      using True a by (simp add: crc32_no_comp_def)
    with crc_align_foldl [OF a] main show ?thesis by simp
  next
    case False
    have "crc32_no_comp m crc p n = (let (c, b) = crc_words m crc p (n div 4) in crc_tail m c b (n mod 4))"
      using False by (auto simp: crc32_no_comp_def)
    with main show ?thesis by simp
  qed
  moreover have "DO_CRC = crc_byte" by (intro ext) (rule DO_CRC_byte)
  ultimately show ?thesis by simp
qed

lemma crc32_foldl:
  "crc32 m crc p n = foldl crc_byte (crc XOR 0xffffffff) (bytes_at m p n) XOR 0xffffffff"
  by (simp add: crc32_def crc32_no_comp_foldl)

lemma crc32_cong: "bytes_at m p n = bytes_at m' q n \<Longrightarrow> crc32 m c p n = crc32 m' c q n"
  by (simp add: crc32_foldl)

section \<open>Properties\<close>

text \<open>The constant table of the source is the one \<open>make_crc_table\<close> generates from the
  CRC-32 polynomial.\<close>

lemma crc_table_correct: "crc_table = make_crc_table"
  by (rule crc_table_make)

text \<open>C19: on any buffer, aligned or not and of any length, the table-driven word-wise
  \<open>crc32\<close> equals the bit-serial CRC-32: register preset and final inversion included, each
  byte added to the register and shifted eight times.\<close>

theorem crc32_correct:
  "crc32 m crc p n = foldl (\<lambda>c x. (crc_shift ^^ 8) (c XOR ucast x)) (NOT crc) (bytes_at m p n)
     XOR 0xffffffff"
proof -
  have "(0xffffffff :: u32) = - 1" by simp
  then have "crc XOR 0xffffffff = NOT crc" by (metis bit.xor_one_right)
  then show ?thesis by (simp add: crc32_foldl crc_byte_def [abs_def])
qed

text \<open>The checksum of a buffer can be computed piecewise: continuing \<open>crc32\<close> over the
  second part from the checksum of the first gives the checksum of the whole.\<close>

lemma crc32_append: "crc32 m (crc32 m crc p n) (p + n) k = crc32 m crc p (n + k)"
  by (simp add: crc32_foldl bytes_at_append xor.assoc)

end
