(* ===== verification/Stdio.thy ===== *)
theory Stdio
  imports Ctype
begin

text \<open>
  The device list of \<^verbatim>\<open>common/stdio.c\<close> and the console assignment of
  \<^verbatim>\<open>common/console.c\<close> (no \<open>CONFIG_CONSOLE_MUX\<close>).  A device's driver entry points are
  represented by the device itself: the jump table of the monitor records the device
  whose functions it holds.
\<close>

section \<open>Definitions\<close>

abbreviation (input) DEV_FLAGS_INPUT :: u32 where "DEV_FLAGS_INPUT \<equiv> 0x00000001"
abbreviation (input) DEV_FLAGS_OUTPUT :: u32 where "DEV_FLAGS_OUTPUT \<equiv> 0x00000002"
abbreviation (input) DEV_FLAGS_SYSTEM :: u32 where "DEV_FLAGS_SYSTEM \<equiv> 0x80000000"

text \<open>\<open>start\<close> is the device's start function by the value it returns, if it has one.\<close>

record stdio_dev =
  flags :: u32
  dev_name :: string
  start :: "int option"

record stdio =
  devs :: "stdio_dev list"
  stdio_devices :: "nat \<Rightarrow> stdio_dev option"
  jt_in :: "stdio_dev option" \<comment> \<open>\<open>XF_getc\<close>, \<open>XF_tstc\<close>\<close>
  jt_out :: "stdio_dev option" \<comment> \<open>\<open>XF_putc\<close>, \<open>XF_puts\<close>, \<open>XF_printf\<close>\<close>

abbreviation (input) stdin :: nat where "stdin \<equiv> 0"
abbreviation (input) stdout :: nat where "stdout \<equiv> 1"
abbreviation (input) stderr :: nat where "stderr \<equiv> 2"

definition stdio_names :: "string list" where
  "stdio_names = [''stdin'', ''stdout'', ''stderr'']"

definition stdio_get_by_name :: "stdio \<Rightarrow> string option \<Rightarrow> stdio_dev option" where
  "stdio_get_by_name st name =
     (case name of None \<Rightarrow> None
      | Some n \<Rightarrow> List.find (\<lambda>dev. dev_name dev = n) (devs st))"

text \<open>\<open>calloc_ok\<close>: whether \<open>calloc\<close> finds memory.  The name field holds 16 characters.\<close>

definition stdio_clone :: "bool \<Rightarrow> stdio_dev option \<Rightarrow> stdio_dev option" where
  "stdio_clone calloc_ok dev =
     (case dev of None \<Rightarrow> None
      | Some d \<Rightarrow> if calloc_ok then Some (d\<lparr>dev_name := take 16 (dev_name d)\<rparr>) else None)"

definition stdio_register :: "bool \<Rightarrow> stdio \<Rightarrow> stdio_dev \<Rightarrow> int \<times> stdio" where
  "stdio_register calloc_ok st dev =
     (case stdio_clone calloc_ok (Some dev) of None \<Rightarrow> (-1, st)
      | Some d \<Rightarrow> (0, st\<lparr>devs := devs st @ [d]\<rparr>))"

definition drv_system_init :: "bool \<Rightarrow> stdio \<Rightarrow> stdio" where
  "drv_system_init calloc_ok st =
     snd (stdio_register calloc_ok st
       \<lparr>flags = DEV_FLAGS_OUTPUT OR DEV_FLAGS_INPUT OR DEV_FLAGS_SYSTEM, dev_name = ''serial'', start = None\<rparr>)"

definition stdio_init :: "bool \<Rightarrow> stdio \<Rightarrow> int \<times> stdio" where
  "stdio_init calloc_ok st = (0, drv_system_init calloc_ok (st\<lparr>devs := []\<rparr>))"

definition console_setfile :: "stdio \<Rightarrow> nat \<Rightarrow> stdio_dev option \<Rightarrow> int \<times> stdio" where
  "console_setfile st file dev =
     (case dev of None \<Rightarrow> (-1, st)
      | Some d \<Rightarrow>
          if file = stdin \<or> file = stdout \<or> file = stderr then
            (let error = (case start d of None \<Rightarrow> 0 | Some r \<Rightarrow> r) in
             if error < 0 then (error, st)
             else
               (let st = st\<lparr>stdio_devices := (stdio_devices st)(file := Some d)\<rparr>;
                    st = (if file = stdin then st\<lparr>jt_in := Some d\<rparr>
                          else if file = stdout then st\<lparr>jt_out := Some d\<rparr> else st)
                in (error, st)))
          else (-1, st))"

definition search_device :: "stdio \<Rightarrow> u32 \<Rightarrow> string option \<Rightarrow> stdio_dev option" where
  "search_device st flgs name =
     (case stdio_get_by_name st name of
        Some dev \<Rightarrow> if flags dev AND flgs \<noteq> 0 then Some dev else None
      | None \<Rightarrow> None)"

definition console_assign :: "stdio \<Rightarrow> nat \<Rightarrow> string option \<Rightarrow> int \<times> stdio" where
  "console_assign st file devname =
     (if file = stdin \<or> file = stdout \<or> file = stderr then
        (let flag = (if file = stdin then DEV_FLAGS_INPUT else DEV_FLAGS_OUTPUT) in
         case search_device st flag devname of
           Some dev \<Rightarrow> console_setfile st file (Some dev)
         | None \<Rightarrow> (-1, st))
      else (-1, st))"

text \<open>The device scan of \<open>console_init_r\<close> (console not in the environment): the first
  input and the first output device.\<close>

definition console_init_devices :: "stdio \<Rightarrow> stdio" where
  "console_init_devices st =
     (let inputdev = List.find (\<lambda>d. flags d AND DEV_FLAGS_INPUT \<noteq> 0) (devs st);
          outputdev = List.find (\<lambda>d. flags d AND DEV_FLAGS_OUTPUT \<noteq> 0) (devs st);
          st = (if outputdev \<noteq> None
                then snd (console_setfile (snd (console_setfile st stdout outputdev)) stderr outputdev)
                else st)
      in if inputdev \<noteq> None then snd (console_setfile st stdin inputdev) else st)"

section \<open>Lemmas\<close>

lemma search_device_Some:
  "search_device st f n = Some d \<longleftrightarrow> stdio_get_by_name st n = Some d \<and> flags d AND f \<noteq> 0"
  by (auto simp: search_device_def split: option.splits)

text \<open>A successful assignment installs a registered device of that name with the right
  direction; a failed one leaves the console as it was.\<close>

lemma console_assign_fail: "console_assign st file n = (r, st') \<Longrightarrow> r < 0 \<Longrightarrow> st' = st"
  by (auto simp: console_assign_def console_setfile_def Let_def split: if_splits option.splits)

lemma console_assign_ok:
  assumes "console_assign st file n = (r, st')" and "0 \<le> r"
  shows "\<exists>d. stdio_get_by_name st n = Some d \<and> stdio_devices st' file = Some d \<and>
    flags d AND (if file = stdin then DEV_FLAGS_INPUT else DEV_FLAGS_OUTPUT) \<noteq> 0 \<and>
    (\<forall>g. g \<noteq> file \<longrightarrow> stdio_devices st' g = stdio_devices st g)"
  using assms
  by (auto simp: console_assign_def console_setfile_def Let_def search_device_Some
      split: if_splits option.splits)

end
