(* ===== verification/Env.thy ===== *)
theory Env
  imports Crc32 Stdio Vsprintf "HOL-Library.Monad_Syntax"
begin

text \<open>
  The environment: \<^verbatim>\<open>common/env_common.c\<close>, \<^verbatim>\<open>common/cmd_nvedit.c\<close> and
  \<^verbatim>\<open>common/env_sf.c\<close> (environment in SPI flash).  The environment block is a CRC and an
  array of bytes: the definitions \<^verbatim>\<open>name=value\<close> one after the other, each ended by a NUL,
  and one more NUL at the end.  The array is a function from indices to characters, so
  that reads and writes behind its end are visible; \<open>ENV_SIZE\<close> is its size.
\<close>

section \<open>Definitions\<close>

subsection \<open>State\<close>

text \<open>The configuration values of \<^verbatim>\<open>include/configs\<close> the code depends on.\<close>

record env_cfg =
  CONFIG_ENV_SIZE :: nat
  CONFIG_ENV_SECT_SIZE :: nat
  CONFIG_ENV_OFFSET :: nat
  baudrate_table :: "u32 list"
  default_environment :: string

definition ENV_SIZE :: "env_cfg \<Rightarrow> nat" where
  "ENV_SIZE cfg = CONFIG_ENV_SIZE cfg - 4"

text \<open>\<open>gd->env_addr\<close> points either at the block in RAM or at the built-in default.\<close>

datatype env_loc = In_env_ptr | In_default

record ubenv =
  crc :: u32
  env_data :: "nat \<Rightarrow> char"
  env_default :: "nat \<Rightarrow> char"
  env_valid :: bool
  env_addr :: env_loc
  reloc :: bool
  env_id :: u32
  baudrate :: u32
  bi_ip_addr :: u32
  load_addr :: u32
  BootFile :: string
  console :: stdio
  con_in :: string

text \<open>The bytes of a string literal with its NUL, and zeros behind it.\<close>

definition bytes_of :: "string \<Rightarrow> nat \<Rightarrow> char" where
  "bytes_of s i = (if i < length s then s ! i else NUL)"

subsection \<open>Reading the environment (env_common.c, env_sf.c)\<close>

definition env_get_char_spec :: "ubenv \<Rightarrow> nat \<Rightarrow> char" where
  "env_get_char_spec st index =
     (case env_addr st of In_env_ptr \<Rightarrow> env_data st index | In_default \<Rightarrow> env_default st index)"

definition env_get_char_init :: "ubenv \<Rightarrow> nat \<Rightarrow> char" where
  "env_get_char_init st index =
     (if env_valid st then env_get_char_spec st index else env_default st index)"

definition env_get_char_memory :: "ubenv \<Rightarrow> nat \<Rightarrow> char" where
  "env_get_char_memory st index =
     (if env_valid st
      then (case env_addr st of In_env_ptr \<Rightarrow> env_data st index | In_default \<Rightarrow> env_default st index)
      else env_default st index)"

definition env_get_char :: "ubenv \<Rightarrow> nat \<Rightarrow> char" where
  "env_get_char st index =
     (if reloc st then env_get_char_memory st index else env_get_char_init st index)"

text \<open>The array that \<open>env_get_addr (0)\<close> designates, and the state after a write to it.\<close>

definition env_get_addr :: "ubenv \<Rightarrow> env_loc" where
  "env_get_addr st = (if env_valid st then env_addr st else In_default)"

definition set_env_bytes :: "ubenv \<Rightarrow> (nat \<Rightarrow> char) \<Rightarrow> ubenv" where
  "set_env_bytes st D =
     (case env_get_addr st of In_env_ptr \<Rightarrow> st\<lparr>env_data := D\<rparr> | In_default \<Rightarrow> st\<lparr>env_default := D\<rparr>)"

text \<open>The CRC of a data array, as \<open>crc32 (0, env_ptr->data, ENV_SIZE)\<close> computes it.\<close>

definition data_crc :: "env_cfg \<Rightarrow> (nat \<Rightarrow> char) \<Rightarrow> u32" where
  "data_crc cfg D = crc32 (\<lambda>a. of_char (D a)) 0 0 (ENV_SIZE cfg)"

definition env_crc_update :: "env_cfg \<Rightarrow> ubenv \<Rightarrow> ubenv" where
  "env_crc_update cfg st = st\<lparr>crc := data_crc cfg (env_data st)\<rparr>"

text \<open>\<open>sizeof (default_environment)\<close> counts the NUL the compiler adds to the literal.\<close>

definition set_default_env :: "env_cfg \<Rightarrow> ubenv \<Rightarrow> ubenv" where
  "set_default_env cfg st =
     (if ENV_SIZE cfg < length (default_environment cfg) + 1 then st
      else (env_crc_update cfg
              (st\<lparr>env_data := (\<lambda>i. if i < length (default_environment cfg) + 1 then env_default st i
                                  else if i < ENV_SIZE cfg then NUL else env_data st i)\<rparr>))
           \<lparr>env_valid := True\<rparr>)"

subsection \<open>Matching and looking up (cmd_nvedit.c)\<close>

text \<open>\<open>envmatch\<close>: \<open>None\<close> when it reads behind the end of \<open>s1\<close>, else the index of the value
  (\<open>None\<close> for -1).\<close>

fun envmatch :: "(nat \<Rightarrow> char) \<Rightarrow> string \<Rightarrow> nat \<Rightarrow> nat option option" where
  "envmatch D [] i2 =
     (if D i2 = NUL then None else Some (if D i2 = CHR ''='' then Some (i2 + 1) else None))"
| "envmatch D (c # s1) i2 =
     (if c = D i2 then (if c = CHR ''='' then Some (Some (i2 + 1)) else envmatch D s1 (i2 + 1))
      else Some None)"

text \<open>The inner scan of \<open>getenv\<close>: the index of the NUL, or \<open>None\<close> beyond the block.\<close>

function getenv_nxt :: "env_cfg \<Rightarrow> (nat \<Rightarrow> char) \<Rightarrow> nat \<Rightarrow> nat option" where
  "getenv_nxt cfg D nxt =
     (if D nxt \<noteq> NUL then
        (if CONFIG_ENV_SIZE cfg \<le> nxt then None else getenv_nxt cfg D (nxt + 1))
      else Some nxt)"
  by pat_completeness auto
termination
  by (relation "measure (\<lambda>(cfg, D, nxt). CONFIG_ENV_SIZE cfg - nxt)") auto

declare getenv_nxt.simps [simp del]

text \<open>\<open>getenv\<close> gives the index of the value (\<open>Some None\<close> for NULL).\<close>

partial_function (option) getenv_loop ::
    "env_cfg \<Rightarrow> (nat \<Rightarrow> char) \<Rightarrow> string \<Rightarrow> nat \<Rightarrow> nat option option" where
  "getenv_loop cfg D name i =
     (if D i \<noteq> NUL then
        (case getenv_nxt cfg D i of
           None \<Rightarrow> Some None
         | Some nxt \<Rightarrow> Option.bind (envmatch D name i)
             (\<lambda>v. case v of None \<Rightarrow> getenv_loop cfg D name (nxt + 1) | Some val \<Rightarrow> Some (Some val)))
      else Some None)"

definition getenv :: "env_cfg \<Rightarrow> ubenv \<Rightarrow> string \<Rightarrow> nat option option" where
  "getenv cfg st name = getenv_loop cfg (env_get_char st) name 0"

text \<open>The string at an index, up to its NUL.\<close>

partial_function (option) read_str :: "(nat \<Rightarrow> char) \<Rightarrow> nat \<Rightarrow> string option" where
  "read_str D i =
     (if D i = NUL then Some [] else Option.bind (read_str D (i + 1)) (\<lambda>s. Some (D i # s)))"

text \<open>What a caller of \<open>getenv\<close> sees: the text of the value, if the variable exists.\<close>

definition getenv_str :: "env_cfg \<Rightarrow> ubenv \<Rightarrow> string \<Rightarrow> string option option" where
  "getenv_str cfg st name =
     do { v \<leftarrow> getenv cfg st name;
          case v of None \<Rightarrow> Some None
          | Some i \<Rightarrow> map_option Some (read_str (env_get_char st) i) }"

text \<open>The copy loop of \<open>getenv_r\<close>: the buffer, its write position and the count \<open>n\<close>.\<close>

function getenv_r_copy ::
    "(nat \<Rightarrow> char) \<Rightarrow> nat \<Rightarrow> nat \<Rightarrow> (nat \<Rightarrow> char) \<Rightarrow> nat \<Rightarrow> nat \<Rightarrow> (nat \<Rightarrow> char) \<times> nat \<times> nat" where
  "getenv_r_copy D val len buf p n =
     (if n < len then
        (let buf = buf(p := D val) in
         if D val \<noteq> NUL then getenv_r_copy D (val + 1) len buf (p + 1) (n + 1)
         else (buf, p + 1, n + 1))
      else (buf, p, n + 1))"
  by pat_completeness auto
termination
  by (relation "measure (\<lambda>(D, val, len, buf, p, n). len - n)") auto

declare getenv_r_copy.simps [simp del]

text \<open>The value (-1 for not found) and the caller's buffer.\<close>

definition getenv_r ::
    "env_cfg \<Rightarrow> ubenv \<Rightarrow> string \<Rightarrow> (nat \<Rightarrow> char) \<Rightarrow> nat \<Rightarrow> (int \<times> (nat \<Rightarrow> char)) option" where
  "getenv_r cfg st name buf len =
     do { v \<leftarrow> getenv_loop cfg (env_get_char st) name 0;
          case v of None \<Rightarrow> Some (-1, buf)
          | Some val \<Rightarrow>
              (let (buf, p, n) = getenv_r_copy (env_get_char st) val len buf 0 0;
                   buf = (if len = n then buf(p := NUL) else buf)
               in Some (int n, buf)) }"

subsection \<open>Printing (cmd_nvedit.c)\<close>

text \<open>\<open>puts\<close> on a character array.\<close>

definition puts_buf :: "string \<Rightarrow> string" where
  "puts_buf buf = takeWhile (\<lambda>c. c \<noteq> NUL) buf"

text \<open>The \<open>do ... while (c != '\0')\<close> loop of \<open>printenv\<close>: \<open>i\<close>, \<open>j\<close>, the buffer and what has been
  printed.\<close>

partial_function (option) print_def ::
    "(nat \<Rightarrow> char) \<Rightarrow> nat \<Rightarrow> nat \<Rightarrow> nat \<Rightarrow> string \<Rightarrow> string \<Rightarrow> (nat \<times> nat \<times> string \<times> string) option" where
  "print_def D state i j buf out =
     (let c = D i; buf = buf[j := c]; j = j + 1; i = i + 1;
          (out, j) = (if j = 16 then (if state \<le> 1 then out @ puts_buf buf else out, 0) else (out, j))
      in if c \<noteq> NUL then print_def D state i j buf out else Some (i, j, buf, out))"

text \<open>\<open>ctrlc k\<close>: whether the user has interrupted after the \<open>k\<close>-th definition.\<close>

partial_function (option) printenv_loop ::
    "(nat \<Rightarrow> char) \<Rightarrow> (nat \<Rightarrow> bool) \<Rightarrow> nat \<Rightarrow> string \<Rightarrow> nat \<Rightarrow> nat \<Rightarrow> string \<Rightarrow> string \<Rightarrow> (int \<times> string) option" where
  "printenv_loop D ctrlc k name state i buf out =
     (if state \<noteq> 0 \<and> D i \<noteq> NUL then
        Option.bind (if state = 2 then envmatch D name i else Some None)
          (\<lambda>v. let state = (if v \<noteq> None then 0 else state) in
               Option.bind (print_def D state i 0 buf out)
                 (\<lambda>(i, j, buf, out).
                    let out = (if state \<le> 1 then (if j \<noteq> 0 then out @ puts_buf buf else out) @ [CHR 0x0A] else out)
                    in if ctrlc k then Some (-1, out)
                       else printenv_loop D ctrlc (k + 1) name state i buf out))
      else Some (if state = 0 then 0 else int i, out))"

definition printenv :: "ubenv \<Rightarrow> (nat \<Rightarrow> bool) \<Rightarrow> string \<Rightarrow> nat \<Rightarrow> (int \<times> string) option" where
  "printenv st ctrlc name state = printenv_loop (env_get_char st) ctrlc 0 name state 0 (replicate 17 NUL) []"

fun printenv_names :: "ubenv \<Rightarrow> (nat \<Rightarrow> bool) \<Rightarrow> string list \<Rightarrow> int \<Rightarrow> string \<Rightarrow> (int \<times> string) option" where
  "printenv_names st ctrlc [] rcode out = Some (rcode, out)"
| "printenv_names st ctrlc (name # names) rcode out =
     do { (r, o1) \<leftarrow> printenv st ctrlc name 2;
          if r \<noteq> 0
          then printenv_names st ctrlc names (rcode + 1)
                 (out @ o1 @ ''## Error: '' @ [CHR 0x22] @ name @ [CHR 0x22] @ '' not defined'' @ [CHR 0x0A])
          else printenv_names st ctrlc names rcode (out @ o1) }"

definition do_printenv :: "env_cfg \<Rightarrow> ubenv \<Rightarrow> (nat \<Rightarrow> bool) \<Rightarrow> string list \<Rightarrow> (int \<times> string) option" where
  "do_printenv cfg st ctrlc argv =
     (if length argv = 1 then
        do { (rcode, out) \<leftarrow> printenv st ctrlc [] 1;
             if rcode < 0 then Some (1, out)
             else do { msg \<leftarrow> sprintf (CHR 0x0A # ''Environment size: %d/%ld bytes'' @ [CHR 0x0A])
                                [VInt (of_int rcode), VInt (of_nat (ENV_SIZE cfg))];
                       Some (0, out @ msg) } }
      else printenv_names st ctrlc (tl argv) 0 [])"

subsection \<open>Setting a variable (cmd_nvedit.c)\<close>

text \<open>The index of the first NUL at or behind \<open>i\<close>.\<close>

partial_function (option) scan_nul :: "(nat \<Rightarrow> char) \<Rightarrow> nat \<Rightarrow> nat option" where
  "scan_nul D i = (if D i = NUL then Some i else scan_nul D (i + 1))"

text \<open>The search loop of \<open>_do_setenv\<close>: start and terminating NUL of the definition that
  matches \<open>name\<close>.\<close>

partial_function (option) find_def :: "(nat \<Rightarrow> char) \<Rightarrow> string \<Rightarrow> nat \<Rightarrow> (nat \<times> nat) option option" where
  "find_def D name env =
     (if D env = NUL then Some None
      else Option.bind (scan_nul D env)
        (\<lambda>nxt. Option.bind (envmatch D name env)
           (\<lambda>v. case v of None \<Rightarrow> find_def D name (nxt + 1) | Some _ \<Rightarrow> Some (Some (env, nxt)))))"

text \<open>The \<open>for (;;)\<close> loop that moves the following definitions down; it gives \<open>env\<close> at the
  break.\<close>

partial_function (option) shift_down ::
    "(nat \<Rightarrow> char) \<Rightarrow> nat \<Rightarrow> nat \<Rightarrow> ((nat \<Rightarrow> char) \<times> nat) option" where
  "shift_down D env nxt =
     (let D = D(env := D nxt); nxt = nxt + 1 in
      if D env = NUL \<and> D nxt = NUL then Some (D, env) else shift_down D (env + 1) nxt)"

definition delete_def :: "(nat \<Rightarrow> char) \<Rightarrow> nat \<Rightarrow> nat \<Rightarrow> (nat \<Rightarrow> char) option" where
  "delete_def D env nxt =
     (let nxt = nxt + 1 in
      do { (D, env) \<leftarrow>
             (if D nxt = NUL
              then Some (if 0 < env then (D, env - 1) else (D(env := NUL), env))
              else shift_down D env nxt);
           Some (D(env + 1 := NUL)) })"

text \<open>The loop \<open>for (env=env_data; *env || *(env+1); ++env)\<close>.\<close>

partial_function (option) find_end :: "(nat \<Rightarrow> char) \<Rightarrow> nat \<Rightarrow> nat option" where
  "find_end D env = (if D env \<noteq> NUL \<or> D (env + 1) \<noteq> NUL then find_end D (env + 1) else Some env)"

text \<open>\<open>while ((*env = *s++) != '\0') env++\<close>.\<close>

fun write_str :: "(nat \<Rightarrow> char) \<Rightarrow> nat \<Rightarrow> string \<Rightarrow> (nat \<Rightarrow> char) \<times> nat" where
  "write_str D env [] = (D(env := NUL), env)"
| "write_str D env (c # s) = write_str (D(env := c)) (env + 1) s"

fun write_args :: "(nat \<Rightarrow> char) \<Rightarrow> nat \<Rightarrow> bool \<Rightarrow> string list \<Rightarrow> (nat \<Rightarrow> char) \<times> nat" where
  "write_args D env first [] = (D, env)"
| "write_args D env first (val # vs) =
     (let (D, env) = write_str (D(env := (if first then CHR ''='' else CHR '' ''))) (env + 1) val
      in write_args D env False vs)"

text \<open>Appending \<open>name=arg1 arg2 ...\<close>: \<open>None\<close> on the overflow error.\<close>

definition append_def ::
    "env_cfg \<Rightarrow> (nat \<Rightarrow> char) \<Rightarrow> nat \<Rightarrow> string \<Rightarrow> string list \<Rightarrow> (nat \<Rightarrow> char) option" where
  "append_def cfg D env name args =
     (let env = (if 0 < env then env + 1 else env);
          len = length name + 2 + sum_list (map (\<lambda>a. length a + 1) args)
      in if int (ENV_SIZE cfg) - int env < int len then None
         else (let (D, env) = write_str D env name;
                   (D, env) = write_args D env True args
               in Some (D(env + 1 := NUL))))"

text \<open>\<open>for (;;) if (getc() == '\r') break;\<close>: the input that is left, \<open>None\<close> when the user never
  presses ENTER.\<close>

fun wait_cr :: "string \<Rightarrow> string option" where
  "wait_cr [] = None"
| "wait_cr (c # s) = (if c = CHR 0x0D then Some s else wait_cr s)"

text \<open>The switch to a new baud rate: \<open>Inl\<close> is the early return.\<close>

definition switch_baudrate :: "env_cfg \<Rightarrow> ubenv \<Rightarrow> string \<Rightarrow> (ubenv + ubenv) option" where
  "switch_baudrate cfg st arg =
     (let b = fst (simple_strtoul arg 10) in
      if b \<notin> set (baudrate_table cfg) then Some (Inl st)
      else map_option (\<lambda>inp. Inr (st\<lparr>baudrate := b, con_in := inp\<rparr>)) (wait_cr (con_in st)))"

definition htonl :: "u32 \<Rightarrow> u32" where
  "htonl x = push_bit 24 (x AND 0xff) OR push_bit 8 (x AND 0xff00)
     OR drop_bit 8 (x AND 0xff0000) OR drop_bit 24 (x AND 0xff000000)"

fun ipaddr_loop :: "nat \<Rightarrow> u32 \<Rightarrow> string \<Rightarrow> u32" where
  "ipaddr_loop 0 addr s = addr"
| "ipaddr_loop (Suc i) addr s =
     (let (val, e) = simple_strtoul s 10;
          addr = push_bit 8 addr OR (val AND 0xff)
      in ipaddr_loop i addr (if e \<noteq> [] then tl e else e))"

text \<open>\<open>copy_filename\<close> of \<^verbatim>\<open>net/net.c\<close>; the string it leaves in \<open>dst\<close>.\<close>

fun copy_filename_loop :: "int \<Rightarrow> string \<Rightarrow> string" where
  "copy_filename_loop sz [] = []"
| "copy_filename_loop sz (c # src) =
     (let sz = sz - 1 in
      if 0 < sz \<and> c \<noteq> CHR 0x22 then c # copy_filename_loop sz src else [])"

definition copy_filename :: "string \<Rightarrow> int \<Rightarrow> string" where
  "copy_filename src sz =
     (let (src, sz) = (if src \<noteq> [] \<and> peek src = CHR 0x22 then (tl src, sz - 1) else (src, sz))
      in copy_filename_loop sz src)"

definition setenv_actions :: "ubenv \<Rightarrow> string \<Rightarrow> string \<Rightarrow> ubenv" where
  "setenv_actions st name arg =
     (if name = ''ethaddr'' then st
      else if name = ''ipaddr'' then st\<lparr>bi_ip_addr := htonl (ipaddr_loop 4 0 arg)\<rparr>
      else if name = ''loadaddr'' then st\<lparr>load_addr := fst (simple_strtoul arg 16)\<rparr>
      else if name = ''bootfile'' then st\<lparr>BootFile := copy_filename arg 128\<rparr>
      else st)"

text \<open>The console redirection of \<open>stdin\<close>, \<open>stdout\<close> and \<open>stderr\<close>: \<open>Inl\<close> is the early
  return.\<close>

definition setenv_console :: "ubenv \<Rightarrow> nat \<Rightarrow> string option list \<Rightarrow> string \<Rightarrow> ubenv + ubenv" where
  "setenv_console st argc argv name =
     (if name \<in> set stdio_names then
        (let con = (if name = ''stdin'' then stdin else if name = ''stdout'' then stdout else stderr) in
         if argc < 3 then Inl st
         else (let (r, c) = console_assign (console st) con (argv ! 2)
               in if r < 0 then Inl (st\<lparr>console := c\<rparr>) else Inr (st\<lparr>console := c\<rparr>)))
      else Inr st)"

text \<open>The deletion of an existing definition, with the baud rate switch before it.\<close>

definition setenv_delete ::
    "env_cfg \<Rightarrow> ubenv \<Rightarrow> string option list \<Rightarrow> string \<Rightarrow> (nat \<times> nat) option \<Rightarrow> (ubenv + ubenv) option" where
  "setenv_delete cfg st argv name old =
     (case old of None \<Rightarrow> Some (Inr st)
      | Some (env, nxt) \<Rightarrow>
          do { r \<leftarrow> (if name = ''baudrate''
                     then Option.bind (argv ! 2) (switch_baudrate cfg st)
                     else Some (Inr st));
               case r of Inl st \<Rightarrow> Some (Inl st)
               | Inr st \<Rightarrow> map_option (\<lambda>D. Inr (set_env_bytes st D))
                   (delete_def (env_get_char st) env nxt) })"

text \<open>\<open>argv\<close> holds NULL as \<open>None\<close>; the value and the new state, \<open>None\<close> when the C code reads
  through NULL or behind a string, or does not return.\<close>

definition do_setenv_common ::
    "env_cfg \<Rightarrow> ubenv \<Rightarrow> nat \<Rightarrow> string option list \<Rightarrow> (int \<times> ubenv) option" where
  "do_setenv_common cfg st argc argv =
     do { name \<leftarrow> argv ! 1;
          if CHR ''='' \<in> set name then Some (1, st)
          else do {
            let st = st\<lparr>env_id := env_id st + 1\<rparr>;
            old \<leftarrow> find_def (env_get_char st) name 0;
            case setenv_console st argc argv name of
              Inl st \<Rightarrow> Some (1, st)
            | Inr st \<Rightarrow> do {
                r \<leftarrow> setenv_delete cfg st argv name old;
                case r of
                  Inl st \<Rightarrow> Some (1, st)
                | Inr st \<Rightarrow>
                    if argc < 3 \<or> argv ! 2 = None then Some (0, env_crc_update cfg st)
                    else do {
                      env \<leftarrow> find_end (env_get_char st) 0;
                      args \<leftarrow> those (take (argc - 2) (drop 2 argv));
                      case append_def cfg (env_get_char st) env name args of
                        None \<Rightarrow> Some (1, st)
                      | Some D \<Rightarrow>
                          Some (0, setenv_actions (env_crc_update cfg (set_env_bytes st D))
                                     name (hd args)) } } } }"

definition setenv :: "env_cfg \<Rightarrow> ubenv \<Rightarrow> string \<Rightarrow> string option \<Rightarrow> (int \<times> ubenv) option" where
  "setenv cfg st varname varvalue =
     (let argv = [Some ''setenv'', Some varname, varvalue, None] in
      if varvalue = None \<or> varvalue = Some [] then do_setenv_common cfg st 2 argv
      else do_setenv_common cfg st 3 argv)"

definition do_setenv :: "env_cfg \<Rightarrow> ubenv \<Rightarrow> string list \<Rightarrow> (int \<times> ubenv) option" where
  "do_setenv cfg st argv =
     (if length argv < 2 then Some (1, st)
      else do_setenv_common cfg st (length argv) (map Some argv @ [None]))"

text \<open>\<open>readline\<close> is what the user makes of the offered text.\<close>

definition do_editenv ::
    "env_cfg \<Rightarrow> (string \<Rightarrow> string) \<Rightarrow> ubenv \<Rightarrow> string list \<Rightarrow> (int \<times> ubenv) option" where
  "do_editenv cfg readline st argv =
     (if length argv < 2 then Some (1, st)
      else do { init_val \<leftarrow> getenv_str cfg st (argv ! 1);
                let buffer = (case init_val of None \<Rightarrow> [] | Some v \<Rightarrow> v);
                setenv cfg st (argv ! 1) (Some (readline buffer)) })"

declare getenv_loop.simps [code] read_str.simps [code] print_def.simps [code] printenv_loop.simps [code]
  scan_nul.simps [code] find_def.simps [code] shift_down.simps [code] find_end.simps [code]

section \<open>Layout of the block\<close>

subsection \<open>Text in an array\<close>

primrec text_at :: "(nat \<Rightarrow> char) \<Rightarrow> nat \<Rightarrow> string \<Rightarrow> bool" where
  "text_at D i [] \<longleftrightarrow> True"
| "text_at D i (c # s) \<longleftrightarrow> D i = c \<and> text_at D (Suc i) s"

definition overwrite :: "(nat \<Rightarrow> char) \<Rightarrow> nat \<Rightarrow> string \<Rightarrow> nat \<Rightarrow> char" where
  "overwrite D i s k = (if i \<le> k \<and> k < i + length s then s ! (k - i) else D k)"

lemma text_at_append [simp]:
  "text_at D i (s @ t) \<longleftrightarrow> text_at D i s \<and> text_at D (i + length s) t"
  by (induction s arbitrary: i) auto

lemma text_at_iff: "text_at D i s \<longleftrightarrow> (\<forall>k<length s. D (i + k) = s ! k)"
  by (induction s arbitrary: i) (auto simp: less_Suc_eq_0_disj)

lemma overwrite_Nil [simp]: "overwrite D i [] = D"
  by (rule ext) (auto simp: overwrite_def)

lemma overwrite_Cons: "overwrite D i (c # s) = overwrite (D(i := c)) (Suc i) s"
proof
  fix k
  show "overwrite D i (c # s) k = overwrite (D(i := c)) (Suc i) s k"
    by (cases "k = i") (auto simp: overwrite_def nth_Cons' Suc_diff_Suc)
qed

lemma overwrite_append: "overwrite D i (s @ t) = overwrite (overwrite D i s) (i + length s) t"
  by (rule ext) (auto simp: overwrite_def nth_append)

lemma overwrite_snoc: "overwrite D i (s @ [c]) = (overwrite D i s)(i + length s := c)"
  by (simp add: overwrite_append overwrite_Cons)

lemma text_at_overwrite [simp]: "text_at (overwrite D i s) i s"
  by (simp add: text_at_iff overwrite_def)

lemma overwrite_outside: "k < i \<or> i + length s \<le> k \<Longrightarrow> overwrite D i s k = D k"
  by (auto simp: overwrite_def)

lemma text_at_overwrite_below:
  "j + length t \<le> i \<Longrightarrow> text_at (overwrite D i s) j t \<longleftrightarrow> text_at D j t"
  by (auto simp: text_at_iff overwrite_def)

lemma text_at_upd: "k < j \<or> j + length t \<le> k \<Longrightarrow> text_at (D(k := c)) j t \<longleftrightarrow> text_at D j t"
  by (induction t arbitrary: j) auto

subsection \<open>The block as a list of definitions\<close>

definition entry :: "string \<times> string \<Rightarrow> string" where
  "entry e = fst e @ CHR ''='' # snd e"

definition flat :: "(string \<times> string) list \<Rightarrow> string" where
  "flat es = concat (map (\<lambda>e. entry e @ [NUL]) es)"

text \<open>A legal name and value, and a list of definitions with different names.\<close>

definition name_ok :: "string \<Rightarrow> bool" where
  "name_ok n \<longleftrightarrow> CHR ''='' \<notin> set n \<and> NUL \<notin> set n"

definition wf_defs :: "(string \<times> string) list \<Rightarrow> bool" where
  "wf_defs es \<longleftrightarrow> list_all (\<lambda>e. name_ok (fst e) \<and> NUL \<notin> set (snd e)) es \<and> distinct (map fst es)"

definition layout :: "(nat \<Rightarrow> char) \<Rightarrow> (string \<times> string) list \<Rightarrow> bool" where
  "layout D es \<longleftrightarrow> text_at D 0 (flat es @ [NUL]) \<and> (es = [] \<longrightarrow> D 1 = NUL)"

lemma flat_simps [simp]:
  "flat [] = []" "flat (e # es) = entry e @ NUL # flat es" "flat (es @ es') = flat es @ flat es'"
  by (simp_all add: flat_def)

lemma length_entry [simp]: "length (entry e) = length (fst e) + length (snd e) + 1"
  by (simp add: entry_def)

lemma NUL_entry: "name_ok (fst e) \<Longrightarrow> NUL \<notin> set (snd e) \<Longrightarrow> NUL \<notin> set (entry e)"
  by (auto simp: entry_def name_ok_def)

lemma entry_Cons: "\<exists>c s. entry e = c # s"
  by (cases "entry e") (auto simp: entry_def)

lemma wf_defs_simps [simp]:
  "wf_defs []"
  "wf_defs (e # es) \<longleftrightarrow> name_ok (fst e) \<and> NUL \<notin> set (snd e) \<and> fst e \<notin> set (map fst es) \<and> wf_defs es"
  by (auto simp: wf_defs_def)

lemma wf_defs_append:
  "wf_defs (es @ es') \<longleftrightarrow> wf_defs es \<and> wf_defs es' \<and> set (map fst es) \<inter> set (map fst es') = {}"
  by (auto simp: wf_defs_def)

lemma wf_defs_filter: "wf_defs es \<Longrightarrow> wf_defs (filter P es)"
  by (auto simp: wf_defs_def list_all_iff distinct_map_filter)

text \<open>No two NULs in a row inside a run of definitions.\<close>

abbreviation (input) single_nul :: "string \<Rightarrow> bool" where
  "single_nul s \<equiv> successively (\<lambda>a b. a = NUL \<longrightarrow> b \<noteq> NUL) s"

lemma single_nul_free: "NUL \<notin> set s \<Longrightarrow> single_nul s"
  by (induction s) (auto simp: successively_Cons)

lemma single_nul_flat: "wf_defs es \<Longrightarrow> single_nul (flat es)"
proof (induction es)
  case (Cons e es)
  then have "NUL \<notin> set (entry e)" by (simp add: NUL_entry)
  moreover have "flat es = [] \<or> hd (flat es) \<noteq> NUL"
    using Cons.prems entry_Cons [of "hd es"] NUL_entry [of "hd es"]
    by (cases es) (auto simp del: length_entry)
  moreover have "entry e \<noteq> [] \<longrightarrow> last (entry e) \<noteq> NUL"
    using calculation(1) by (metis last_in_set)
  ultimately show ?case
    using Cons by (auto simp: successively_append_iff successively_Cons single_nul_free)
qed simp

lemma flat_snoc: "es \<noteq> [] \<Longrightarrow> flat es = butlast (flat es) @ [NUL]"
  by (cases es rule: rev_cases) (simp_all add: butlast_append)

lemma flat_eq_Nil [simp]: "flat es = [] \<longleftrightarrow> es = []"
  by (cases es) auto

lemma length_flat: "es \<noteq> [] \<Longrightarrow> 2 \<le> length (flat es)"
  by (cases es) auto

section \<open>The loops on a well-formed block\<close>

lemma scan_nul_text:
  "text_at D i s \<Longrightarrow> NUL \<notin> set s \<Longrightarrow> D (i + length s) = NUL \<Longrightarrow> scan_nul D i = Some (i + length s)"
  by (induction s arbitrary: i) (subst scan_nul.simps, auto)+

lemma read_str_text:
  "text_at D i s \<Longrightarrow> NUL \<notin> set s \<Longrightarrow> D (i + length s) = NUL \<Longrightarrow> read_str D i = Some s"
  by (induction s arbitrary: i) (subst read_str.simps, auto)+

lemma getenv_nxt_text:
  "text_at D i s \<Longrightarrow> NUL \<notin> set s \<Longrightarrow> D (i + length s) = NUL \<Longrightarrow> i + length s \<le> CONFIG_ENV_SIZE cfg \<Longrightarrow>
    getenv_nxt cfg D i = Some (i + length s)"
  by (induction s arbitrary: i) (subst getenv_nxt.simps, auto)+

lemma envmatch_entry:
  assumes "text_at D i (n @ [CHR ''=''])" and "name_ok n" and "name_ok name"
  shows "envmatch D name i = Some (if name = n then Some (i + length n + 1) else None)"
  using assms
proof (induction name arbitrary: i n)
  case Nil
  then show ?case by (cases n) (auto simp: name_ok_def)
next
  case (Cons c name)
  show ?case
  proof (cases n)
    case Nil
    then show ?thesis using Cons.prems by (auto simp: name_ok_def)
  next
    case (Cons d n')
    then have "c = d \<Longrightarrow> envmatch D name (i + 1) = Some (if name = n' then Some (i + 1 + length n' + 1) else None)"
      using Cons.IH [of "i + 1" n'] Cons.prems by (auto simp: name_ok_def)
    then show ?thesis using Cons Cons.prems by (auto simp: name_ok_def)
  qed
qed

text \<open>The position of a definition in the block, relative to \<open>i\<close>.\<close>

fun def_pos :: "(string \<times> string) list \<Rightarrow> string \<Rightarrow> nat \<Rightarrow> (nat \<times> nat) option" where
  "def_pos [] name i = None"
| "def_pos (e # es) name i =
     (if fst e = name then Some (i, i + length (entry e))
      else def_pos es name (i + length (entry e) + 1))"

lemma entry_at:
  "text_at D i (flat (e # es)) \<Longrightarrow> name_ok (fst e) \<and> NUL \<notin> set (snd e) \<Longrightarrow>
    D i \<noteq> NUL \<and> text_at D i (entry e) \<and> text_at D i (fst e @ [CHR ''='']) \<and> NUL \<notin> set (entry e) \<and>
    D (i + length (entry e)) = NUL \<and> text_at D (i + length (entry e) + 1) (flat es)"
  using NUL_entry [of e] by (cases "fst e") (auto simp: entry_def name_ok_def ac_simps)

lemma find_def_flat:
  assumes "text_at D i (flat es @ [NUL])" and "wf_defs es" and "name_ok name"
  shows "find_def D name i = Some (def_pos es name i)"
  using assms
proof (induction es arbitrary: i)
  case Nil
  then show ?case by (simp add: find_def.simps)
next
  case (Cons e es)
  have wf: "name_ok (fst e) \<and> NUL \<notin> set (snd e)" and fl: "text_at D i (flat (e # es))"
    using Cons.prems by auto
  note E = entry_at [OF fl wf]
  have "scan_nul D i = Some (i + length (entry e))"
    using E by (intro scan_nul_text) auto
  moreover have "envmatch D name i = Some (if name = fst e then Some (i + length (fst e) + 1) else None)"
    using E wf Cons.prems by (intro envmatch_entry) auto
  moreover have "find_def D name (i + length (entry e) + 1) = Some (def_pos es name (i + length (entry e) + 1))"
    using Cons.prems E by (intro Cons.IH) (auto simp: ac_simps)
  ultimately show ?case
    using E by (subst find_def.simps) auto
qed

lemma getenv_loop_flat:
  assumes "text_at D i (flat es @ [NUL])" and "wf_defs es" and "name_ok name"
    and "i + length (flat es) \<le> CONFIG_ENV_SIZE cfg"
  shows "getenv_loop cfg D name i = Some (map_option (\<lambda>(a, b). a + length name + 1) (def_pos es name i))"
  using assms
proof (induction es arbitrary: i)
  case Nil
  then show ?case by (simp add: getenv_loop.simps)
next
  case (Cons e es)
  have wf: "name_ok (fst e) \<and> NUL \<notin> set (snd e)" and fl: "text_at D i (flat (e # es))"
    using Cons.prems by auto
  note E = entry_at [OF fl wf]
  have "getenv_nxt cfg D i = Some (i + length (entry e))"
    using E Cons.prems by (intro getenv_nxt_text) auto
  moreover have "envmatch D name i = Some (if name = fst e then Some (i + length (fst e) + 1) else None)"
    using E wf Cons.prems by (intro envmatch_entry) auto
  moreover have "getenv_loop cfg D name (i + length (entry e) + 1) =
      Some (map_option (\<lambda>(a, b). a + length name + 1) (def_pos es name (i + length (entry e) + 1)))"
    using Cons.prems E by (intro Cons.IH) (auto simp: ac_simps)
  ultimately show ?case
    using E by (subst getenv_loop.simps) auto
qed

lemma shift_down_text:
  assumes "text_at D nxt (u @ [NUL, NUL])" and "single_nul (u @ [NUL])" and "env < nxt"
  shows "shift_down D env nxt = Some (overwrite D env (u @ [NUL]), env + length u)"
  using assms
proof (induction u arbitrary: D env nxt)
  case Nil
  then show ?case by (subst shift_down.simps) (simp add: Let_def overwrite_Cons)
next
  case (Cons c u)
  let ?D = "D(env := c)"
  have "text_at ?D (Suc nxt) (u @ [NUL, NUL])"
    using Cons.prems(1,3) by (subst text_at_upd) auto
  then have "shift_down ?D (env + 1) (nxt + 1) = Some (overwrite ?D (Suc env) (u @ [NUL]), env + 1 + length u)"
    using Cons.IH [OF \<open>text_at ?D (Suc nxt) (u @ [NUL, NUL])\<close>, of "Suc env"] Cons.prems(2,3)
    by (simp del: text_at_append fun_upd_apply add: successively_Cons)
  moreover have "c = NUL \<Longrightarrow> D (nxt + 1) \<noteq> NUL"
    using Cons.prems by (cases u) auto
  ultimately show ?case
    using Cons.prems by (subst shift_down.simps) (auto simp: Let_def overwrite_Cons)
qed

lemma find_end_text:
  assumes "text_at D i (u @ [NUL, NUL])" and "single_nul (u @ [NUL])"
  shows "find_end D i = Some (i + length u)"
  using assms
proof (induction u arbitrary: i)
  case Nil
  then show ?case by (subst find_end.simps) simp
next
  case (Cons c u)
  moreover have "c = NUL \<Longrightarrow> D (i + 1) \<noteq> NUL"
    using Cons.prems by (cases u) auto
  moreover have "find_end D (i + 1) = Some (i + 1 + length u)"
    using Cons.IH [of "Suc i"] Cons.prems by (auto simp: successively_Cons)
  ultimately show ?case by (subst find_end.simps) auto
qed

lemma write_str_overwrite: "write_str D env s = (overwrite D env (s @ [NUL]), env + length s)"
  by (induction D env s rule: write_str.induct) (simp_all add: overwrite_Cons del: fun_upd_apply)

text \<open>The value that \<open>setenv name arg1 arg2 ...\<close> defines.\<close>

definition join_args :: "string list \<Rightarrow> string" where
  "join_args args = tl (concat (map (\<lambda>a. CHR '' '' # a) args))"

lemma overwrite_upd_first: "i < j \<Longrightarrow> overwrite (D(i := c)) j s = (overwrite D j s)(i := c)"
  by (rule ext) (auto simp: overwrite_def)

lemma overwrite_overwrite_NUL:
  "s \<noteq> [] \<Longrightarrow> overwrite (D(i := c)) i s = overwrite D i s"
  by (rule ext) (auto simp: overwrite_def)

lemma write_args_overwrite:
  "write_args (overwrite D env [NUL]) env first args =
     (overwrite D env (concat (map (\<lambda>a. CHR '' '' # a) args) @ [NUL]) , env + length (concat (map (\<lambda>a. CHR '' '' # a) args)))"
  if "\<not> first" for D env first args
  using that
proof (induction args arbitrary: D env)
  case (Cons a args)
  let ?w = "CHR '' '' # a"
  have "overwrite (D(env := NUL, env := CHR '' '')) (Suc env) (a @ [NUL]) =
      overwrite (overwrite D env ?w) (env + length ?w) [NUL]"
    by (simp add: overwrite_Cons overwrite_snoc del: fun_upd_apply)
  then show ?case
    using Cons.IH [of "overwrite D env ?w" "env + length ?w"] Cons.prems
    by (simp add: write_str_overwrite overwrite_Cons overwrite_append del: fun_upd_apply)
qed simp

lemma write_args_first:
  assumes "args \<noteq> []"
  shows "write_args (overwrite D env [NUL]) env True args =
     (overwrite D env (CHR ''='' # join_args args @ [NUL]), env + 1 + length (join_args args))"
proof -
  obtain a as where args: "args = a # as" using assms by (cases args) auto
  let ?w = "CHR ''='' # a"
  have "overwrite (D(env := NUL, env := CHR ''='')) (Suc env) (a @ [NUL]) =
      overwrite (overwrite D env ?w) (env + length ?w) [NUL]"
    by (simp add: overwrite_Cons overwrite_snoc del: fun_upd_apply)
  then show ?thesis
    using write_args_overwrite [of False "overwrite D env ?w" "env + length ?w" as]
    by (simp add: args join_args_def write_str_overwrite overwrite_Cons overwrite_append del: fun_upd_apply)
qed

lemma length_join_args: "args \<noteq> [] \<Longrightarrow> Suc (length (join_args args)) = sum_list (map (\<lambda>a. length a + 1) args)"
  by (cases args) (simp_all add: join_args_def length_concat comp_def)

lemma append_def_overwrite:
  assumes "args \<noteq> []"
  shows "append_def cfg D env name args =
    (let env = (if 0 < env then env + 1 else env) in
     if ENV_SIZE cfg < env + length (entry (name, join_args args)) + 2 then None
     else Some (overwrite D env (entry (name, join_args args) @ [NUL, NUL])))"
proof -
  have "write_str D env name = (overwrite (overwrite D env name) (env + length name) [NUL], env + length name)" for env
    by (simp add: write_str_overwrite overwrite_append)
  then show ?thesis
    using write_args_first [OF assms, of "overwrite D e name" "e + length name" for e] length_join_args [OF assms]
    by (simp add: append_def_def Let_def entry_def overwrite_append overwrite_Cons del: fun_upd_apply
        flip: of_nat_less_iff)
qed

subsection \<open>Deleting and appending\<close>

lemma layout_find_end:
  assumes "layout D es" and "wf_defs es"
  shows "find_end D 0 = Some (length (flat es) - 1)"
proof (cases "es = []")
  case True
  then show ?thesis using assms by (subst find_end.simps) (simp add: layout_def)
next
  case False
  have "text_at D 0 (butlast (flat es) @ [NUL, NUL])"
    using assms(1) flat_snoc [OF False] by (simp add: layout_def del: text_at_append) (metis append.assoc append_Cons append_Nil)
  then show ?thesis
    using find_end_text [of D 0 "butlast (flat es)"] single_nul_flat [OF assms(2)] flat_snoc [OF False] by simp
qed

lemma layout_append:
  assumes "layout D es" and "0 < length (flat es) \<longrightarrow> i = length (flat es)" and "es = [] \<longrightarrow> i = 0"
  shows "layout (overwrite D i (entry e @ [NUL, NUL])) (es @ [e])"
proof -
  have i: "i = length (flat es)" using assms(2,3) by (cases "es = []") auto
  have "text_at (overwrite D i (entry e @ [NUL, NUL])) 0 (flat es)"
    using assms(1) by (subst text_at_overwrite_below) (auto simp: layout_def i)
  then show ?thesis
    using text_at_overwrite [of D i "entry e @ [NUL, NUL]"] by (simp add: layout_def i ac_simps)
qed

lemma layout_delete:
  assumes "layout D (pre @ e # post)" and "wf_defs (pre @ e # post)"
  defines "env \<equiv> length (flat pre)"
  shows "\<exists>D'. delete_def D env (env + length (entry e)) = Some D' \<and> layout D' (pre @ post) \<and>
    (\<forall>i>length (flat (pre @ e # post)). D' i = D i)"
proof (cases "post = []")
  case True
  then have last: "D (env + length (entry e) + 1) = NUL" and pre: "text_at D 0 (flat pre)"
    using assms by (auto simp: layout_def ac_simps)
  have "0 < env \<longleftrightarrow> pre \<noteq> []" using length_flat [of pre] by (auto simp: env_def)
  then show ?thesis
    using True last pre
    by (auto simp: delete_def_def Let_def layout_def env_def text_at_upd)
next
  case False
  then obtain u where post: "flat post = u @ [NUL]" using flat_snoc by blast
  have D: "text_at D 0 (flat pre)" "text_at D (env + length (entry e) + 1) (u @ [NUL, NUL])"
    using assms(1) post by (auto simp: layout_def env_def ac_simps)
  obtain p ps where pp: "post = p # ps" using False by (cases post) auto
  have nn: "D (env + length (entry e) + 1) \<noteq> NUL"
    using assms(1,2) entry_at [of D "env + length (entry e) + 1" p ps]
    by (simp add: layout_def env_def wf_defs_append pp ac_simps)
  have "shift_down D env (env + length (entry e) + 1) = Some (overwrite D env (flat post), env + length u)"
    using shift_down_text [OF D(2), of env] single_nul_flat [of post] post assms(2) by (simp add: wf_defs_append)
  moreover have "length (flat post) = Suc (length u)"
    by (simp add: post)
  ultimately have "delete_def D env (env + length (entry e)) = Some (overwrite D env (flat post @ [NUL]))"
    using nn by (simp add: delete_def_def Let_def overwrite_snoc)
  moreover have "layout (overwrite D env (flat post @ [NUL])) (pre @ post)"
    using text_at_overwrite [of D env "flat post @ [NUL]"] D(1) False
    by (auto simp: layout_def env_def text_at_overwrite_below)
  ultimately show ?thesis
    by (auto intro!: overwrite_outside simp: env_def)
qed

section \<open>The operations on the state\<close>

subsection \<open>Frame facts\<close>

lemma env_get_char_eq:
  "env_get_char st = (case env_get_addr st of In_env_ptr \<Rightarrow> env_data st | In_default \<Rightarrow> env_default st)"
  by (rule ext) (auto simp: env_get_char_def env_get_char_memory_def env_get_char_init_def
      env_get_char_spec_def env_get_addr_def split: env_loc.splits)

lemma env_get_addr_frame [simp]:
  "env_get_addr (st\<lparr>env_id := a\<rparr>) = env_get_addr st"
  "env_get_addr (st\<lparr>console := b\<rparr>) = env_get_addr st"
  "env_get_addr (st\<lparr>baudrate := c, con_in := d\<rparr>) = env_get_addr st"
  "env_get_addr (env_crc_update cfg st) = env_get_addr st"
  "env_get_addr (set_env_bytes st D) = env_get_addr st"
  "env_get_addr (setenv_actions st name arg) = env_get_addr st"
  by (auto simp: env_get_addr_def env_crc_update_def set_env_bytes_def setenv_actions_def split: env_loc.splits)

lemma env_get_char_frame [simp]:
  "env_get_char (st\<lparr>env_id := a\<rparr>) = env_get_char st"
  "env_get_char (st\<lparr>console := b\<rparr>) = env_get_char st"
  "env_get_char (st\<lparr>baudrate := c, con_in := d\<rparr>) = env_get_char st"
  "env_get_char (env_crc_update cfg st) = env_get_char st"
  "env_get_char (set_env_bytes st D) = D"
  "env_get_char (setenv_actions st name arg) = env_get_char st"
  unfolding env_get_char_eq env_get_addr_frame
  by (auto simp: env_crc_update_def set_env_bytes_def setenv_actions_def split: env_loc.splits)

lemma set_env_bytes_id [simp]: "set_env_bytes st (env_get_char st) = st"
  by (simp add: set_env_bytes_def env_get_char_eq split: env_loc.splits)

lemma set_env_bytes_twice [simp]: "set_env_bytes (set_env_bytes st D) D' = set_env_bytes st D'"
  by (auto simp: set_env_bytes_def env_get_addr_def split: env_loc.splits)

subsection \<open>Representation\<close>

text \<open>The state holds the definitions \<open>es\<close>: the block is laid out as they say, their names
  are legal and different, and the block fits.\<close>

definition env_rep :: "env_cfg \<Rightarrow> ubenv \<Rightarrow> (string \<times> string) list \<Rightarrow> bool" where
  "env_rep cfg st es \<longleftrightarrow> layout (env_get_char st) es \<and> wf_defs es \<and>
     length (flat es) + 1 \<le> ENV_SIZE cfg \<and> 2 \<le> ENV_SIZE cfg"

definition crc_ok :: "env_cfg \<Rightarrow> ubenv \<Rightarrow> bool" where
  "crc_ok cfg st \<longleftrightarrow> crc st = data_crc cfg (env_data st)"

text \<open>The definitions without one name, and with a new one.\<close>

definition del_def :: "string \<Rightarrow> (string \<times> string) list \<Rightarrow> (string \<times> string) list" where
  "del_def name es = filter (\<lambda>e. fst e \<noteq> name) es"

lemma env_rep_cong: "env_get_char st = env_get_char st' \<Longrightarrow> env_rep cfg st es = env_rep cfg st' es"
  by (simp add: env_rep_def)

lemma def_pos_None: "def_pos es name i = None \<longleftrightarrow> name \<notin> fst ` set es"
  by (induction es name i rule: def_pos.induct) auto

lemma def_pos_Some:
  assumes "name \<in> fst ` set es"
  shows "\<exists>pre v post. es = pre @ (name, v) # post \<and> name \<notin> fst ` set pre \<and>
    def_pos es name i = Some (i + length (flat pre), i + length (flat pre) + length (entry (name, v)))"
  using assms
proof (induction es name i rule: def_pos.induct)
  case (2 e es name i)
  show ?case
  proof (cases "fst e = name")
    case True
    then show ?thesis
      by (intro exI [of _ "[]"] exI [of _ "snd e"] exI [of _ es]) (cases e, auto)
  next
    case False
    then obtain pre v post where IH: "es = pre @ (name, v) # post" "name \<notin> fst ` set pre"
      "def_pos es name (i + length (entry e) + 1) = Some (i + length (entry e) + 1 + length (flat pre),
         i + length (entry e) + 1 + length (flat pre) + length (entry (name, v)))"
      using 2 by auto
    with False show ?thesis
      by (intro exI [of _ "e # pre"] exI [of _ v] exI [of _ post]) auto
  qed
qed simp

lemma map_of_split:
  "name \<notin> fst ` set pre \<Longrightarrow> map_of (pre @ (name, v) # post) name = Some v"
  by (induction pre) auto

lemma map_of_del_def: "map_of (del_def name es) n = (if n = name then None else map_of es n)"
  by (induction es) (auto simp: del_def_def)

lemma del_def_absent: "name \<notin> fst ` set es \<Longrightarrow> del_def name es = es"
  by (induction es) (auto simp: del_def_def)

lemma del_def_split:
  "wf_defs (pre @ (name, v) # post) \<Longrightarrow> del_def name (pre @ (name, v) # post) = pre @ post"
  using del_def_absent [of name pre] del_def_absent [of name post]
  by (auto simp: wf_defs_append del_def_def)

lemma length_flat_del_def: "length (flat (del_def name es)) \<le> length (flat es)"
  by (induction es) (auto simp: del_def_def)

text \<open>Looking up finds exactly the definitions.\<close>

lemma getenv_def_pos:
  assumes "env_rep cfg st es" and "name_ok name"
  shows "getenv cfg st name = Some (map_option (\<lambda>(a, b). a + length name + 1) (def_pos es name 0))"
  unfolding getenv_def
  by (rule getenv_loop_flat) (use assms in \<open>auto simp: env_rep_def layout_def ENV_SIZE_def\<close>)

lemma getenv_str_map_of:
  assumes "env_rep cfg st es" and "name_ok name"
  shows "getenv_str cfg st name = Some (map_of es name)"
proof (cases "name \<in> fst ` set es")
  case False
  have "getenv cfg st name = Some None"
    using getenv_def_pos [OF assms] def_pos_None [of es name 0] False by simp
  then show ?thesis
    using False map_of_eq_None_iff [of es name] by (simp add: getenv_str_def)
next
  case True
  from def_pos_Some [OF this, of 0] obtain pre v post where S: "es = pre @ (name, v) # post"
    "name \<notin> fst ` set pre" "def_pos es name 0 = Some (length (flat pre), length (flat pre) + length (entry (name, v)))"
    by auto
  have "getenv cfg st name = Some (Some (length (flat pre) + length name + 1))"
    using getenv_def_pos [OF assms] S(3) by simp
  moreover have "read_str (env_get_char st) (length (flat pre) + length name + 1) = Some v"
    using assms(1) S(1) by (intro read_str_text) (auto simp: env_rep_def layout_def wf_defs_append entry_def ac_simps)
  ultimately show ?thesis
    using S(1) map_of_split [OF S(2), of v post] by (simp add: getenv_str_def del: map_of_append)
qed

subsection \<open>Setting\<close>

text \<open>The early steps of \<open>_do_setenv\<close> for a variable without a side effect on the console or
  the serial line.\<close>

definition plain :: "string \<Rightarrow> bool" where
  "plain name \<longleftrightarrow> name_ok name \<and> name \<notin> set stdio_names \<and> name \<noteq> ''baudrate''"

lemma setenv_console_plain: "name \<notin> set stdio_names \<Longrightarrow> setenv_console st argc argv name = Inr st"
  by (simp add: setenv_console_def)

text \<open>After the deletion, the state holds the other definitions, and nothing behind the
  block has been written.\<close>

lemma setenv_delete_rep:
  assumes "env_rep cfg st es" and "name_ok name"
    and sw: "def_pos es name 0 \<noteq> None \<and> name = ''baudrate'' \<Longrightarrow>
      Option.bind (argv ! 2) (switch_baudrate cfg st) = Some (Inr st')"
    and nosw: "\<not> (def_pos es name 0 \<noteq> None \<and> name = ''baudrate'') \<Longrightarrow> st' = st"
    and same: "env_get_char st' = env_get_char st"
  shows "\<exists>D. setenv_delete cfg st argv name (def_pos es name 0) = Some (Inr (set_env_bytes st' D)) \<and>
    env_rep cfg (set_env_bytes st' D) (del_def name es) \<and> (\<forall>i\<ge>ENV_SIZE cfg. D i = env_get_char st i)"
proof (cases "name \<in> fst ` set es")
  case False
  then have "def_pos es name 0 = None" by (simp add: def_pos_None)
  with False assms show ?thesis
    by (auto intro!: exI [of _ "env_get_char st"] simp: setenv_delete_def del_def_absent nosw)
next
  case True
  from def_pos_Some [OF this, of 0] obtain pre v post where S: "es = pre @ (name, v) # post"
    "def_pos es name 0 = Some (length (flat pre), length (flat pre) + length (entry (name, v)))"
    by auto
  have rep: "layout (env_get_char st) (pre @ (name, v) # post)" "wf_defs (pre @ (name, v) # post)"
    "length (flat es) + 1 \<le> ENV_SIZE cfg" "2 \<le> ENV_SIZE cfg"
    using assms(1) by (simp_all add: env_rep_def S(1) del: flat_simps)
  from layout_delete [OF rep(1,2)] obtain D where
    D: "delete_def (env_get_char st) (length (flat pre)) (length (flat pre) + length (entry (name, v))) = Some D"
    "layout D (pre @ post)" "\<forall>i>length (flat es). D i = env_get_char st i"
    unfolding S(1) by blast
  have "setenv_delete cfg st argv name (def_pos es name 0) = Some (Inr (set_env_bytes st' D))"
    using sw nosw same S(2) D(1) by (auto simp: setenv_delete_def simp del: length_entry)
  moreover have "wf_defs (pre @ post)" using rep(2) by (auto simp: wf_defs_append)
  then have "env_rep cfg (set_env_bytes st' D) (del_def name es)"
    using D(2) rep(3,4) del_def_split [OF rep(2)] by (simp add: env_rep_def S(1))
  ultimately show ?thesis
    using D(3) rep(3) by (intro exI [of _ D]) auto
qed

lemma env_rep_append:
  assumes "env_rep cfg st es" and "name_ok name" and "name \<notin> fst ` set es" and "args \<noteq> []"
    and "list_all (\<lambda>a. NUL \<notin> set a) args"
  defines "e \<equiv> (name, join_args args)"
  shows "append_def cfg (env_get_char st) (length (flat es) - 1) name args =
      (if ENV_SIZE cfg < length (flat (es @ [e])) + 1 then None
       else Some (overwrite (env_get_char st) (length (flat es)) (entry e @ [NUL, NUL])))"
    and "length (flat (es @ [e])) + 1 \<le> ENV_SIZE cfg \<Longrightarrow>
      env_rep cfg (set_env_bytes st (overwrite (env_get_char st) (length (flat es)) (entry e @ [NUL, NUL]))) (es @ [e])"
proof -
  have pos: "(if 0 < length (flat es) - 1 then length (flat es) - 1 + 1 else length (flat es) - 1) = length (flat es)"
    using length_flat [of es] by (cases "es = []") auto
  show "append_def cfg (env_get_char st) (length (flat es) - 1) name args =
      (if ENV_SIZE cfg < length (flat (es @ [e])) + 1 then None
       else Some (overwrite (env_get_char st) (length (flat es)) (entry e @ [NUL, NUL])))"
    unfolding append_def_overwrite [OF assms(4)] Let_def pos by (simp add: e_def)
  have "NUL \<notin> set (join_args args)"
    using assms(4,5) by (cases args) (auto simp: join_args_def list_all_iff)
  moreover assume "length (flat (es @ [e])) + 1 \<le> ENV_SIZE cfg"
  ultimately show "env_rep cfg (set_env_bytes st (overwrite (env_get_char st) (length (flat es)) (entry e @ [NUL, NUL]))) (es @ [e])"
    using assms layout_append [of "env_get_char st" es "length (flat es)" e]
    by (auto simp: env_rep_def wf_defs_append simp del: flat_simps length_entry)
qed

text \<open>The core of \<open>_do_setenv\<close>: from a state that holds \<open>es\<close>, setting a plain variable leaves
  a state that holds \<open>es\<close> with the definition replaced, or without it when it does not
  fit.\<close>

lemma do_setenv_common_set:
  assumes rep: "env_rep cfg st es" and name: "plain name" and args: "args \<noteq> []"
    and nul: "list_all (\<lambda>a. NUL \<notin> set a) args"
  defines "es' \<equiv> del_def name es @ [(name, join_args args)]"
  shows "\<exists>D. do_setenv_common cfg st (length args + 2) (cmd # Some name # map Some args @ rest) =
      (if length (flat es') + 1 \<le> ENV_SIZE cfg
       then Some (0, setenv_actions (env_crc_update cfg (set_env_bytes (st\<lparr>env_id := env_id st + 1\<rparr>) D)) name (hd args))
       else Some (1, set_env_bytes (st\<lparr>env_id := env_id st + 1\<rparr>) D)) \<and>
    layout D (if length (flat es') + 1 \<le> ENV_SIZE cfg then es' else del_def name es) \<and>
    (\<forall>i\<ge>ENV_SIZE cfg. D i = env_get_char st i)"
proof -
  let ?st = "st\<lparr>env_id := env_id st + 1\<rparr>" and ?argv = "cmd # Some name # map Some args @ rest"
  have ok: "name_ok name" "name \<notin> set stdio_names" "name \<noteq> ''baudrate''" using name by (auto simp: plain_def)
  have rep': "env_rep cfg ?st es" using rep by (simp add: env_rep_def)
  have find: "find_def (env_get_char ?st) name 0 = Some (def_pos es name 0)"
    using rep ok(1) by (intro find_def_flat) (auto simp: env_rep_def layout_def)
  obtain D where D: "setenv_delete cfg ?st ?argv name (def_pos es name 0) = Some (Inr (set_env_bytes ?st D))"
    "env_rep cfg (set_env_bytes ?st D) (del_def name es)" "\<forall>i\<ge>ENV_SIZE cfg. D i = env_get_char st i"
    using setenv_delete_rep [OF rep' ok(1), of ?argv ?st] ok(3) by auto
  have fend: "find_end D 0 = Some (length (flat (del_def name es)) - 1)"
    using D(2) by (intro layout_find_end) (auto simp: env_rep_def)
  have args': "those (take (length args) (map Some args @ rest)) = Some args"
    by simp
  have absent: "name \<notin> fst ` set (del_def name es)" by (auto simp: del_def_def)
  have noeq: "CHR ''='' \<notin> set name" using ok(1) by (simp add: name_ok_def)
  note app = env_rep_append [OF D(2) ok(1) absent args nul]
  have hd_args: "(map Some args @ rest) ! 0 = Some (hd args)" using args by (cases args) auto
  have run: "do_setenv_common cfg st (length args + 2) ?argv =
      (case append_def cfg D (length (flat (del_def name es)) - 1) name args of
         None \<Rightarrow> Some (1, set_env_bytes ?st D)
       | Some D' \<Rightarrow> Some (0, setenv_actions (env_crc_update cfg (set_env_bytes ?st D')) name (hd args)))"
    using find D(1) hd_args
    by (simp add: do_setenv_common_def Let_def noeq setenv_console_plain ok fend args args'
        split: option.split)
  show ?thesis
  proof (cases "length (flat es') + 1 \<le> ENV_SIZE cfg")
    case True
    then show ?thesis
      using run app D(3)
      by (intro exI [of _ "overwrite D (length (flat (del_def name es))) (entry (name, join_args args) @ [NUL, NUL])"])
        (auto simp: es'_def env_rep_def overwrite_def simp del: length_entry)
  next
    case False
    then show ?thesis
      using run app(1) D(2,3) by (intro exI [of _ D]) (auto simp: es'_def env_rep_def)
  qed
qed

lemma do_setenv_common_delete:
  assumes rep: "env_rep cfg st es" and name: "plain name" and argc: "argc < 3"
  shows "\<exists>D. do_setenv_common cfg st argc (cmd # Some name # rest) =
      Some (0, env_crc_update cfg (set_env_bytes (st\<lparr>env_id := env_id st + 1\<rparr>) D)) \<and>
    layout D (del_def name es) \<and> (\<forall>i\<ge>ENV_SIZE cfg. D i = env_get_char st i)"
proof -
  let ?st = "st\<lparr>env_id := env_id st + 1\<rparr>" and ?argv = "cmd # Some name # rest"
  have ok: "name_ok name" "name \<notin> set stdio_names" "name \<noteq> ''baudrate''" using name by (auto simp: plain_def)
  have rep': "env_rep cfg ?st es" using rep by (simp add: env_rep_def)
  have find: "find_def (env_get_char ?st) name 0 = Some (def_pos es name 0)"
    using rep ok(1) by (intro find_def_flat) (auto simp: env_rep_def layout_def)
  obtain D where D: "setenv_delete cfg ?st ?argv name (def_pos es name 0) = Some (Inr (set_env_bytes ?st D))"
    "env_rep cfg (set_env_bytes ?st D) (del_def name es)" "\<forall>i\<ge>ENV_SIZE cfg. D i = env_get_char st i"
    using setenv_delete_rep [OF rep' ok(1), of ?argv ?st] ok(3) by auto
  have "CHR ''='' \<notin> set name" using ok(1) by (simp add: name_ok_def)
  then have "do_setenv_common cfg st argc ?argv = Some (0, env_crc_update cfg (set_env_bytes ?st D))"
    using find D(1) argc by (simp add: do_setenv_common_def Let_def setenv_console_plain ok)
  then show ?thesis using D(2,3) by (intro exI [of _ D]) (auto simp: env_rep_def)
qed

text \<open>\<open>setenv (name, value)\<close> on the block in RAM, with the CRC it leaves.\<close>

definition in_ram :: "ubenv \<Rightarrow> bool" where
  "in_ram st \<longleftrightarrow> env_valid st \<and> env_addr st = In_env_ptr"

lemma in_ram_get_char: "in_ram st \<Longrightarrow> env_get_char st = env_data st"
  by (simp add: in_ram_def env_get_char_eq env_get_addr_def)

lemma in_ram_set_env_bytes: "in_ram st \<Longrightarrow> set_env_bytes st D = st\<lparr>env_data := D\<rparr>"
  by (simp add: in_ram_def set_env_bytes_def env_get_addr_def)

lemma in_ram_frame [simp]:
  "in_ram (st\<lparr>env_id := a\<rparr>) = in_ram st" "in_ram (st\<lparr>env_data := D\<rparr>) = in_ram st"
  "in_ram (set_env_bytes st D) = in_ram st"
  "in_ram (env_crc_update cfg st) = in_ram st" "in_ram (setenv_actions st n v) = in_ram st"
  by (simp_all add: in_ram_def env_crc_update_def setenv_actions_def set_env_bytes_def split: env_loc.splits)

lemma crc_ok_update [simp]:
  "crc_ok cfg (env_crc_update cfg st)" "crc_ok cfg (setenv_actions st n a) = crc_ok cfg st"
  by (simp_all add: crc_ok_def env_crc_update_def setenv_actions_def)

lemma env_data_frame [simp]:
  "env_data (env_crc_update cfg st) = env_data st" "env_data (setenv_actions st n v) = env_data st"
  "in_ram st \<Longrightarrow> env_data (set_env_bytes st D) = D" "crc (set_env_bytes st D) = crc st"
  by (simp_all add: env_crc_update_def setenv_actions_def in_ram_set_env_bytes)
    (simp add: set_env_bytes_def split: env_loc.splits)

lemma join_args_single [simp]: "join_args [v] = v"
  by (simp add: join_args_def)

text \<open>What \<open>setenv\<close> does to the definitions.\<close>

definition setenv_spec :: "env_cfg \<Rightarrow> (string \<times> string) list \<Rightarrow> string \<Rightarrow> string \<Rightarrow> (string \<times> string) list option" where
  "setenv_spec cfg es name v =
     (let es' = del_def name es @ (if v = [] then [] else [(name, v)])
      in if length (flat es') + 1 \<le> ENV_SIZE cfg then Some es' else None)"

lemma setenv_refines:
  assumes rep: "env_rep cfg st es" and name: "plain name" and nul: "NUL \<notin> set v" and ram: "in_ram st"
  shows "\<exists>r st'. setenv cfg st name (Some v) = Some (r, st') \<and> in_ram st' \<and>
    (\<forall>i\<ge>ENV_SIZE cfg. env_data st' i = env_data st i) \<and>
    (case setenv_spec cfg es name v of
       Some es' \<Rightarrow> r = 0 \<and> env_rep cfg st' es' \<and> crc_ok cfg st'
     | None \<Rightarrow> r = 1 \<and> env_rep cfg st' (del_def name es) \<and> crc st' = crc st)"
proof (cases "v = []")
  case True
  from do_setenv_common_delete [OF rep name, of 2 "Some ''setenv''" "[Some v, None]"] obtain D where
    D: "setenv cfg st name (Some v) = Some (0, env_crc_update cfg (set_env_bytes (st\<lparr>env_id := env_id st + 1\<rparr>) D))"
    "layout D (del_def name es)" "\<forall>i\<ge>ENV_SIZE cfg. D i = env_get_char st i"
    using True by (auto simp: setenv_def)
  have "length (flat (del_def name es)) + 1 \<le> ENV_SIZE cfg" "wf_defs (del_def name es)"
    using rep length_flat_del_def [of name es] by (auto simp: env_rep_def del_def_def wf_defs_filter)
  with D ram rep True show ?thesis
    by (auto simp: setenv_spec_def env_rep_def in_ram_get_char [OF ram])
next
  case False
  let ?es = "del_def name es @ [(name, v)]"
  have S: "setenv cfg st name (Some v) = do_setenv_common cfg st (length [v] + 2)
      (Some ''setenv'' # Some name # map Some [v] @ [None])"
    using False by (simp add: setenv_def numeral_3_eq_3)
  have "[v] \<noteq> []" "list_all (\<lambda>a. NUL \<notin> set a) [v]" using nul by auto
  from do_setenv_common_set [OF rep name this, of "Some ''setenv''" "[None]", folded S, unfolded join_args_single list.sel]
  obtain D where
    D: "setenv cfg st name (Some v) =
      (if length (flat ?es) + 1 \<le> ENV_SIZE cfg
       then Some (0, setenv_actions (env_crc_update cfg (set_env_bytes (st\<lparr>env_id := env_id st + 1\<rparr>) D)) name v)
       else Some (1, set_env_bytes (st\<lparr>env_id := env_id st + 1\<rparr>) D))"
    "layout D (if length (flat ?es) + 1 \<le> ENV_SIZE cfg then ?es else del_def name es)"
    "\<forall>i\<ge>ENV_SIZE cfg. D i = env_get_char st i"
    by blast
  have wf: "length (flat (del_def name es)) + 1 \<le> ENV_SIZE cfg" "wf_defs (del_def name es)" "wf_defs ?es"
    using rep length_flat_del_def [of name es] name nul
    by (auto simp: env_rep_def wf_defs_append wf_defs_filter plain_def del_def_def)
  show ?thesis
    using D ram rep wf False
    by (auto simp: setenv_spec_def env_rep_def in_ram_get_char [OF ram])
qed

text \<open>The same, as the values the readers see.\<close>

lemma setenv_lookup:
  assumes "env_rep cfg st es" and "plain name" and "NUL \<notin> set v" and "in_ram st"
  shows "\<exists>r st'. setenv cfg st name (Some v) = Some (r, st') \<and>
    (if v = [] \<or> length (flat (del_def name es)) + length name + length v + 3 \<le> ENV_SIZE cfg
     then r = 0 \<and> crc_ok cfg st' else r = 1) \<and>
    (\<forall>m. name_ok m \<longrightarrow> getenv_str cfg st' m =
       Some (if m = name then (if r = 0 \<and> v \<noteq> [] then Some v else None) else map_of es m)) \<and>
    (\<forall>i\<ge>ENV_SIZE cfg. env_data st' i = env_data st i)"
proof -
  obtain r st' where R: "setenv cfg st name (Some v) = Some (r, st')"
    "\<forall>i\<ge>ENV_SIZE cfg. env_data st' i = env_data st i"
    "case setenv_spec cfg es name v of
       Some es' \<Rightarrow> r = 0 \<and> env_rep cfg st' es' \<and> crc_ok cfg st'
     | None \<Rightarrow> r = 1 \<and> env_rep cfg st' (del_def name es) \<and> crc st' = crc st"
    using setenv_refines [OF assms] by blast
  have "length (flat (del_def name es)) + 1 \<le> ENV_SIZE cfg"
    using assms(1) length_flat_del_def [of name es] by (auto simp: env_rep_def)
  with R(3) show ?thesis
    by (intro exI [of _ r] exI [of _ st'] conjI R(1,2))
      (auto simp: setenv_spec_def Let_def getenv_str_map_of map_of_del_def map_add_def split: if_splits option.splits)
qed

section \<open>The environment as a variable store\<close>

text \<open>What the commands rely on when they set and read variables: setting changes the one
  variable and keeps the store in order.\<close>

fun put_all :: "('s \<Rightarrow> string \<Rightarrow> string \<Rightarrow> 's option) \<Rightarrow> 's \<Rightarrow> (string \<times> string) list \<Rightarrow> 's option" where
  "put_all put s [] = Some s"
| "put_all put s ((n, v) # l) = Option.bind (put s n v) (\<lambda>s. put_all put s l)"

locale var_store =
  fixes inv :: "'s \<Rightarrow> bool"
    and get :: "'s \<Rightarrow> string \<Rightarrow> string option"
    and put :: "'s \<Rightarrow> string \<Rightarrow> string \<Rightarrow> 's option"
    and legal :: "string \<Rightarrow> bool"
    and legal_val :: "string \<Rightarrow> bool"
  assumes put_inv: "inv s \<Longrightarrow> legal n \<Longrightarrow> legal_val v \<Longrightarrow> put s n v = Some s' \<Longrightarrow> inv s'"
    and get_put: "inv s \<Longrightarrow> legal n \<Longrightarrow> legal_val v \<Longrightarrow> put s n v = Some s' \<Longrightarrow> legal m \<Longrightarrow>
      get s' m = (if m = n then Some v else get s m)"
begin

lemma put_all_inv:
  "inv s \<Longrightarrow> list_all (\<lambda>(n, v). legal n \<and> legal_val v) l \<Longrightarrow> put_all put s l = Some s' \<Longrightarrow> inv s'"
proof (induction l arbitrary: s)
  case (Cons a l)
  then show ?case by (cases a) (auto simp: bind_eq_Some_conv intro: put_inv)
qed simp

text \<open>The last assignment to a variable wins; the others keep their values.\<close>

lemma put_all_get:
  "inv s \<Longrightarrow> list_all (\<lambda>(n, v). legal n \<and> legal_val v) l \<Longrightarrow> put_all put s l = Some s' \<Longrightarrow> legal m \<Longrightarrow>
    get s' m = (case map_of (rev l) m of Some v \<Rightarrow> Some v | None \<Rightarrow> get s m)"
proof (induction l arbitrary: s)
  case (Cons a l)
  obtain n v where a: "a = (n, v)" by (cases a)
  obtain s1 where s1: "put s n v = Some s1" "put_all put s1 l = Some s'"
    using Cons.prems(3) by (auto simp: a bind_eq_Some_conv)
  have "get s' m = (case map_of (rev l) m of Some v \<Rightarrow> Some v | None \<Rightarrow> get s1 m)"
    using Cons.prems s1 a by (intro Cons.IH) (auto intro: put_inv)
  moreover have "get s1 m = (if m = n then Some v else get s m)"
    using Cons.prems s1(1) a by (intro get_put) auto
  ultimately show ?case
    by (auto simp: a map_add_def split: option.splits)
qed simp

end

definition env_inv :: "env_cfg \<Rightarrow> ubenv \<Rightarrow> bool" where
  "env_inv cfg st \<longleftrightarrow> in_ram st \<and> crc_ok cfg st \<and> (\<exists>es. env_rep cfg st es)"

definition env_get :: "env_cfg \<Rightarrow> ubenv \<Rightarrow> string \<Rightarrow> string option" where
  "env_get cfg st name = Option.bind (getenv_str cfg st name) id"

definition env_put :: "env_cfg \<Rightarrow> ubenv \<Rightarrow> string \<Rightarrow> string \<Rightarrow> ubenv option" where
  "env_put cfg st name v =
     Option.bind (setenv cfg st name (Some v)) (\<lambda>(r, st'). if r = 0 then Some st' else None)"

definition legal_val :: "string \<Rightarrow> bool" where
  "legal_val v \<longleftrightarrow> v \<noteq> [] \<and> NUL \<notin> set v"

lemma env_get_map_of: "env_rep cfg st es \<Longrightarrow> name_ok m \<Longrightarrow> env_get cfg st m = map_of es m"
  by (simp add: env_get_def getenv_str_map_of)

lemma env_put_rep:
  assumes "env_rep cfg st es" and "in_ram st" and "plain name" and "legal_val v"
    and "env_put cfg st name v = Some st'"
  shows "env_rep cfg st' (del_def name es @ [(name, v)])" "in_ram st'" "crc_ok cfg st'"
proof -
  from setenv_refines [OF assms(1,3) _ assms(2), of v] assms(4,5)
  obtain es' where "setenv_spec cfg es name v = Some es'" "env_rep cfg st' es'" "in_ram st'" "crc_ok cfg st'"
    by (auto simp: env_put_def legal_val_def split: option.splits)
  moreover from this have "es' = del_def name es @ [(name, v)]"
    using assms(4) by (auto simp: setenv_spec_def legal_val_def Let_def split: if_splits)
  ultimately show "env_rep cfg st' (del_def name es @ [(name, v)])" "in_ram st'" "crc_ok cfg st'" by auto
qed

lemma env_put_ok:
  assumes "env_rep cfg st es" and "in_ram st" and "plain name" and "legal_val v"
    and "length (flat (del_def name es)) + length name + length v + 3 \<le> ENV_SIZE cfg"
  shows "\<exists>st'. env_put cfg st name v = Some st'"
  using setenv_refines [OF assms(1,3) _ assms(2), of v] assms(4,5)
  by (auto simp: env_put_def legal_val_def setenv_spec_def Let_def)

interpretation env_store: var_store "env_inv cfg" "env_get cfg" "env_put cfg" plain legal_val
  for cfg
proof unfold_locales
  fix st n v st' m
  assume st: "env_inv cfg st" "plain n" "legal_val v" "env_put cfg st n v = Some st'"
  then obtain es where es: "env_rep cfg st es" and ram: "in_ram st" by (auto simp: env_inv_def)
  note R = env_put_rep [OF es ram st(2,3,4)]
  then show "env_inv cfg st'" by (auto simp: env_inv_def)
  assume "plain m"
  then show "env_get cfg st' m = (if m = n then Some v else env_get cfg st m)"
    using env_get_map_of [OF R(1), of m] env_get_map_of [OF es, of m]
    by (auto simp: plain_def map_of_del_def map_add_def split: option.splits)
qed

section \<open>Copying out and printing\<close>

lemma getenv_r_copy_fits:
  "text_at D val v \<Longrightarrow> NUL \<notin> set v \<Longrightarrow> D (val + length v) = NUL \<Longrightarrow> n + length v < len \<Longrightarrow>
    getenv_r_copy D val len buf p n = (overwrite buf p (v @ [NUL]), p + length v + 1, n + length v + 1)"
  by (induction v arbitrary: val buf p n)
    (subst getenv_r_copy.simps, auto simp: Let_def overwrite_Cons simp del: fun_upd_apply)+

lemma getenv_r_copy_long:
  "text_at D val v \<Longrightarrow> NUL \<notin> set v \<Longrightarrow> n \<le> len \<Longrightarrow> len \<le> n + length v \<Longrightarrow>
    getenv_r_copy D val len buf p n = (overwrite buf p (take (len - n) v), p + (len - n), len + 1)"
proof (induction v arbitrary: val buf p n)
  case Nil
  then show ?case by (subst getenv_r_copy.simps) auto
next
  case (Cons c v)
  then show ?case
    by (cases "n = len") (subst getenv_r_copy.simps, auto simp: Let_def overwrite_Cons take_Cons' Suc_diff_Suc simp del: fun_upd_apply)+
qed

lemma puts_buf_take: "k < length b \<Longrightarrow> b ! k = NUL \<Longrightarrow> NUL \<notin> set (take k b) \<Longrightarrow> puts_buf b = take k b"
  unfolding puts_buf_def
  by (subst id_take_nth_drop [of k b]) (auto intro: takeWhile_append2 [THEN trans])

lemma print_def_text:
  assumes "text_at D i s" and "NUL \<notin> set s" and "D (i + length s) = NUL" and "j < 16"
    and "length buf = 17" and "NUL \<notin> set (take j buf)" and "buf ! 16 = NUL"
  shows "\<exists>j' buf' out'. print_def D state i j buf out = Some (i + length s + 1, j', buf', out') \<and>
    length buf' = 17 \<and> buf' ! 16 = NUL \<and>
    (state \<le> 1 \<longrightarrow> out' @ (if j' \<noteq> 0 then puts_buf buf' else []) = out @ take j buf @ s) \<and>
    (1 < state \<longrightarrow> out' = out)"
  using assms
proof (induction s arbitrary: i j buf out)
  case Nil
  have "puts_buf (buf[j := NUL]) = take j buf"
    using Nil.prems by (subst puts_buf_take [of j]) auto
  then show ?case
    using Nil.prems by (subst print_def.simps) (auto simp: Let_def nth_list_update)
next
  case (Cons c s)
  let ?b = "buf[j := c]"
  have c: "D i = c" "c \<noteq> NUL" using Cons.prems by auto
  have tk: "take (Suc j) ?b = take j buf @ [c]" using Cons.prems(4,5) by (simp add: take_Suc_conv_app_nth)
  have b: "length ?b = 17" "?b ! 16 = NUL" using Cons.prems by (auto simp: nth_list_update)
  show ?case
  proof (cases "Suc j = 16")
    case True
    then have "puts_buf ?b = take j buf @ [c]"
      using puts_buf_take [of "Suc j" ?b] tk Cons.prems b by auto
    moreover have "print_def D state i j buf out =
        print_def D state (Suc i) 0 ?b (if state \<le> 1 then out @ puts_buf ?b else out)"
      using c True by (subst print_def.simps) (simp add: Let_def)
    ultimately show ?thesis
      using Cons.IH [of "Suc i" 0 ?b "if state \<le> 1 then out @ puts_buf ?b else out"] Cons.prems b
      by (cases "state \<le> 1") simp_all
  next
    case False
    then have "print_def D state i j buf out = print_def D state (Suc i) (Suc j) ?b out"
      using c by (subst print_def.simps) (simp add: Let_def)
    then show ?thesis
      using Cons.IH [of "Suc i" "Suc j" ?b out] Cons.prems b c tk False by simp
  qed
qed

text \<open>What \<open>printenv\<close> shows for the definitions from index \<open>i\<close> on.\<close>

lemma printenv_loop_all:
  assumes "text_at (D :: nat \<Rightarrow> char) i (flat es @ [NUL])" and "wf_defs es" and "length buf = 17" and "buf ! 16 = NUL"
  shows "printenv_loop D (\<lambda>_. False) k name 1 i buf out =
    Some (int (i + length (flat es)), out @ concat (map (\<lambda>e. entry e @ [CHR 0x0A]) es))"
  using assms
proof (induction es arbitrary: i buf out k)
  case Nil
  then show ?case by (subst printenv_loop.simps) simp
next
  case (Cons e es)
  have wf: "name_ok (fst e) \<and> NUL \<notin> set (snd e)" and fl: "text_at D i (flat (e # es))"
    using Cons.prems by auto
  note E = entry_at [OF fl wf]
  obtain j' buf' out' where P: "print_def D 1 i 0 buf out = Some (i + length (entry e) + 1, j', buf', out')"
    "length buf' = 17" "buf' ! 16 = NUL" "out' @ (if j' \<noteq> 0 then puts_buf buf' else []) = out @ entry e"
    using print_def_text [of D i "entry e" 0 buf 1 out] E Cons.prems(3,4) by auto
  let ?out = "(if j' \<noteq> 0 then out' @ puts_buf buf' else out') @ [CHR 0x0A]"
  have "printenv_loop D (\<lambda>_. False) (k + 1) name 1 (i + length (entry e) + 1) buf' ?out =
      Some (int (i + length (entry e) + 1 + length (flat es)), ?out @ concat (map (\<lambda>e. entry e @ [CHR 0x0A]) es))"
    using Cons.prems E P(2,3) by (intro Cons.IH) (auto simp: ac_simps)
  moreover have "?out = out @ entry e @ [CHR 0x0A]" using P(4) by (auto split: if_splits)
  ultimately show ?case
    using E P(1) by (subst printenv_loop.simps) (simp add: Let_def ac_simps)
qed

section \<open>Properties\<close>

text \<open>A block that holds given definitions, for the examples.\<close>

definition sample_cfg :: env_cfg where
  "sample_cfg = \<lparr>CONFIG_ENV_SIZE = 28, CONFIG_ENV_SECT_SIZE = 28, CONFIG_ENV_OFFSET = 0,
     baudrate_table = [9600, 115200], default_environment = ''a=1'' @ [NUL, NUL]\<rparr>"

definition sample_env :: "(string \<times> string) list \<Rightarrow> ubenv" where
  "sample_env es = \<lparr>crc = data_crc sample_cfg (bytes_of (flat es)), env_data = bytes_of (flat es),
     env_default = bytes_of ''a=1'', env_valid = True, env_addr = In_env_ptr, reloc = True, env_id = 1,
     baudrate = 115200, bi_ip_addr = 0, load_addr = 0, BootFile = [],
     console = \<lparr>devs = [], stdio_devices = (\<lambda>_. None), jt_in = None, jt_out = None\<rparr>, con_in = []\<rparr>"

definition sample_defs :: "(string \<times> string) list" where
  "sample_defs = [(''ip'', ''10''), (''host'', ''volkh'')]"

lemma sample_in_ram: "in_ram (sample_env es)" "crc_ok sample_cfg (sample_env es)"
  by (simp_all add: sample_env_def in_ram_def crc_ok_def)

lemma sample_rep: "env_rep sample_cfg (sample_env sample_defs) sample_defs"
proof -
  have "layout (bytes_of (flat sample_defs)) sample_defs \<and> wf_defs sample_defs \<and>
      length (flat sample_defs) + 1 \<le> ENV_SIZE sample_cfg \<and> 2 \<le> ENV_SIZE sample_cfg"
    by (code_simp)
  then show ?thesis
    using in_ram_get_char [OF sample_in_ram(1)] by (simp add: env_rep_def sample_env_def)
qed

text \<open>C23: on a block in RAM that holds the definitions \<open>es\<close>, \<open>getenv\<close> returns for every legal name
  exactly the value \<open>es\<close> gives it, and NULL for a name \<open>es\<close> does not have.\<close>

theorem getenv_correct:
  assumes "env_rep cfg st es" and "name_ok name"
  shows "getenv_str cfg st name = Some (map_of es name)"
  using assms by (rule getenv_str_map_of)

theorem getenv_correct_witness:
  "getenv_str sample_cfg (sample_env sample_defs) ''host'' = Some (Some ''volkh'')"
  using getenv_correct [OF sample_rep, of "''host''"] by (simp add: name_ok_def sample_defs_def)

text \<open>C1: \<open>setenv\<close> always returns on such a block.  It returns 0 exactly when the new definition
  fits (an empty value always does), and then \<open>getenv\<close> gives the new value for the name (NULL
  for an empty value), the old values for all others, and the stored CRC is the CRC of the block.
  When it returns 1 the variable is gone and the others are unchanged.  In no case is a byte
  behind the block written.\<close>

theorem setenv_getenv:
  assumes "env_rep cfg st es" and "plain name" and "NUL \<notin> set v" and "in_ram st"
  shows "\<exists>r st'. setenv cfg st name (Some v) = Some (r, st') \<and>
    (if v = [] \<or> length (flat (del_def name es)) + length name + length v + 3 \<le> ENV_SIZE cfg
     then r = 0 \<and> crc_ok cfg st' else r = 1) \<and>
    (\<forall>m. name_ok m \<longrightarrow> getenv_str cfg st' m =
       Some (if m = name then (if r = 0 \<and> v \<noteq> [] then Some v else None) else map_of es m)) \<and>
    (\<forall>i\<ge>ENV_SIZE cfg. env_data st' i = env_data st i)"
  using setenv_lookup [OF assms] .

theorem setenv_getenv_witness:
  "\<exists>st'. setenv sample_cfg (sample_env sample_defs) ''ip'' (Some ''11'') = Some (0, st') \<and>
     getenv_str sample_cfg st' ''ip'' = Some (Some ''11'') \<and> getenv_str sample_cfg st' ''host'' = Some (Some ''volkh'')"
proof -
  have "plain ''ip''" "name_ok ''host''" "name_ok ''ip''" "NUL \<notin> set ''11''" by (code_simp)+
  moreover have "length (flat (del_def ''ip'' sample_defs)) + length ''ip'' + length ''11'' + 3 \<le> ENV_SIZE sample_cfg"
    by code_simp
  ultimately show ?thesis
    using setenv_getenv [OF sample_rep, of "''ip''" "''11''"] sample_in_ram(1) by (auto simp: sample_defs_def)
qed

text \<open>C17: a sequence of successful assignments to a store in order leaves a store in order, with a
  valid CRC, in which every variable has the value last assigned to it and every other one the
  value it had.\<close>

theorem setenv_sequence:
  assumes "env_inv cfg st" and "list_all (\<lambda>(n, v). plain n \<and> legal_val v) l"
    and "put_all (env_put cfg) st l = Some st'" and "plain m"
  shows "env_inv cfg st' \<and>
    env_get cfg st' m = (case map_of (rev l) m of Some v \<Rightarrow> Some v | None \<Rightarrow> env_get cfg st m)"
  using env_store.put_all_inv [OF assms(1-3)] env_store.put_all_get [OF assms(1-4)] by blast

theorem setenv_sequence_witness:
  "\<exists>st'. put_all (env_put sample_cfg) (sample_env sample_defs) [(''ip'', ''1''), (''ip'', ''12'')] = Some st' \<and>
     env_inv sample_cfg st' \<and> env_get sample_cfg st' ''ip'' = Some ''12''"
proof -
  have ok: "plain ''ip''" "legal_val ''1''" "legal_val ''12''" by (code_simp)+
  have "length (flat (del_def ''ip'' sample_defs)) + length ''ip'' + length ''1'' + 3 \<le> ENV_SIZE sample_cfg"
    by code_simp
  from env_put_ok [OF sample_rep sample_in_ram(1) ok(1,2) this] obtain st1 where
    st1: "env_put sample_cfg (sample_env sample_defs) ''ip'' ''1'' = Some st1" ..
  note R = env_put_rep [OF sample_rep sample_in_ram(1) ok(1,2) st1]
  have "length (flat (del_def ''ip'' (del_def ''ip'' sample_defs @ [(''ip'', ''1'')]))) + length ''ip'' + length ''12'' + 3
      \<le> ENV_SIZE sample_cfg"
    by code_simp
  from env_put_ok [OF R(1,2) ok(1,3) this] obtain st2 where
    "env_put sample_cfg st1 ''ip'' ''12'' = Some st2" ..
  with st1 have "put_all (env_put sample_cfg) (sample_env sample_defs) [(''ip'', ''1''), (''ip'', ''12'')] = Some st2"
    by simp
  moreover have "env_inv sample_cfg (sample_env sample_defs)"
    using sample_rep sample_in_ram by (auto simp: env_inv_def)
  ultimately show ?thesis
    using setenv_sequence [of sample_cfg "sample_env sample_defs" "[(''ip'', ''1''), (''ip'', ''12'')]" st2 "''ip''"] ok
    by auto
qed

text \<open>On an overflow the variable is deleted but the CRC is not updated: the block that is left
  fails the check that \<open>env_relocate_spec\<close> makes after a \<open>saveenv\<close> and a reset.\<close>

lemma setenv_overflow_stale_crc:
  "(case setenv sample_cfg (sample_env sample_defs) ''ip'' (Some ''192.168.0.10'') of
      Some (r, st') \<Rightarrow> r = 1 \<and> getenv_str sample_cfg st' ''ip'' = Some None \<and> \<not> crc_ok sample_cfg st'
    | None \<Rightarrow> False)"
  by code_simp

text \<open>C25: \<open>getenv_r\<close> for a variable with value \<open>v\<close> and a buffer of \<open>len\<close> bytes.  A value that
  leaves room behind its NUL is copied with it.  A value that fills the buffer exactly makes it
  write one more NUL at \<open>buf[len]\<close>, behind the buffer.  A longer value is cut at \<open>len\<close> bytes without
  a NUL, and the result is \<open>len + 1\<close>.\<close>

theorem getenv_r_cases:
  assumes "env_rep cfg st es" and "name_ok name" and "map_of es name = Some v"
  shows "getenv_r cfg st name buf len = Some
    (if length v + 1 < len then (int (length v) + 1, overwrite buf 0 (v @ [NUL]))
     else if length v + 1 = len then (int len, overwrite buf 0 (v @ [NUL, NUL]))
     else (int len + 1, overwrite buf 0 (take len v)))"
proof -
  from assms(3) have "name \<in> fst ` set es" by (metis map_of_eq_None_iff option.distinct(1))
  from def_pos_Some [OF this, of 0] assms(3) obtain pre post where S: "es = pre @ (name, v) # post"
    "def_pos es name 0 = Some (length (flat pre), length (flat pre) + length (entry (name, v)))"
    by (auto simp: map_of_split simp del: map_of_append)
  let ?val = "length (flat pre) + length name + 1" and ?D = "env_get_char st"
  have D: "text_at ?D ?val v" "NUL \<notin> set v" "?D (?val + length v) = NUL"
    using assms(1) S(1) by (auto simp: env_rep_def layout_def wf_defs_append entry_def ac_simps)
  have "getenv_loop cfg ?D name 0 = Some (Some ?val)"
    using getenv_def_pos [OF assms(1,2)] S(2) by (simp add: getenv_def)
  moreover have "getenv_r_copy ?D ?val len buf 0 0 = (if length v + 1 \<le> len
      then (overwrite buf 0 (v @ [NUL]), length v + 1, length v + 1) else (overwrite buf 0 (take len v), len, len + 1))"
    using getenv_r_copy_fits [OF D, of 0 len buf 0] getenv_r_copy_long [OF D(1,2), of 0 len buf 0] by auto
  moreover have "overwrite buf 0 (v @ [NUL, NUL]) = (overwrite buf 0 (v @ [NUL]))(length v + 1 := NUL)"
    using overwrite_snoc [of buf 0 "v @ [NUL]" NUL] by simp
  ultimately show ?thesis
    by (auto simp: getenv_r_def)
qed

theorem getenv_r_cases_witness:
  "(case getenv_r sample_cfg (sample_env sample_defs) ''host'' (\<lambda>_. CHR ''x'') 6 of
      Some (n, buf) \<Rightarrow> n = 6 \<and> buf 6 = NUL | None \<Rightarrow> False)"
  using getenv_r_cases [OF sample_rep, of "''host''" "''volkh''" "\<lambda>_. CHR ''x''" 6]
  by (simp add: sample_defs_def name_ok_def overwrite_def)

text \<open>\<open>printenv\<close> without a name and without an interrupt prints every definition on a line of
  its own, in the order of the block, and returns the size of the definitions; the 16 byte buffer
  it prints through loses and repeats nothing.\<close>

lemma printenv_all:
  assumes "env_rep cfg st es"
  shows "printenv st (\<lambda>_. False) name 1 =
    Some (int (length (flat es)), concat (map (\<lambda>e. entry e @ [CHR 0x0A]) es))"
  using printenv_loop_all [of "env_get_char st" 0 es "replicate 17 NUL" 0 name "[]"] assms
  by (simp add: printenv_def env_rep_def layout_def)

lemma printenv_all_example:
  "printenv (sample_env sample_defs) (\<lambda>_. False) [] 1 =
     Some (17, ''ip=10'' @ [CHR 0x0A] @ ''host=volkh'' @ [CHR 0x0A])"
  using printenv_all [OF sample_rep, of "[]"] by (simp add: sample_defs_def entry_def)

text \<open>Redirecting \<open>stdin\<close>, \<open>stdout\<close> or \<open>stderr\<close> to a device that is not registered with the right
  direction, or deleting one of the three, is refused: the command returns 1 and leaves the
  definitions, the CRC and the console as they were.\<close>

lemma setenv_console_refused:
  assumes "env_rep cfg st es" and "name \<in> set stdio_names"
    and "v \<noteq> [] \<longrightarrow> search_device (console st)
      (if name = ''stdin'' then DEV_FLAGS_INPUT else DEV_FLAGS_OUTPUT) (Some v) = None"
  shows "setenv cfg st name (Some v) = Some (1, st\<lparr>env_id := env_id st + 1\<rparr>)"
proof -
  let ?st = "st\<lparr>env_id := env_id st + 1\<rparr>"
  have ok: "name_ok name" "CHR ''='' \<notin> set name"
    using assms(2) by (auto simp: stdio_names_def name_ok_def)
  have find: "find_def (env_get_char ?st) name 0 = Some (def_pos es name 0)"
    using assms(1) ok(1) by (intro find_def_flat) (auto simp: env_rep_def layout_def)
  have "setenv_console ?st (if v = [] then 2 else 3) [Some ''setenv'', Some name, Some v, None] name = Inl ?st"
    using assms(2,3) by (auto simp: setenv_console_def console_assign_def stdio_names_def)
  then show ?thesis
    using find ok(2) by (cases "v = []") (simp_all add: setenv_def do_setenv_common_def Let_def)
qed

lemma setenv_console_refused_example:
  "setenv sample_cfg (sample_env sample_defs) ''stdout'' (Some ''vga'') =
     Some (1, (sample_env sample_defs)\<lparr>env_id := env_id (sample_env sample_defs) + 1\<rparr>)"
  using setenv_console_refused [OF sample_rep, of "''stdout''" "''vga''"]
  by (simp add: stdio_names_def search_device_def stdio_get_by_name_def sample_env_def)

end
