(* ===== verification/SpiFlash.thy ===== *)
theory SpiFlash
  imports Prelude "HOL-Library.Monad_Syntax"
begin

text \<open>
  The SPI flash drivers: \<^verbatim>\<open>drivers/mtd/spi/spi_flash.c\<close>, \<^verbatim>\<open>spansion.c\<close>, \<^verbatim>\<open>stmicro.c\<close> and the
  inline functions of \<^verbatim>\<open>include/spi_flash.h\<close>, for the board's \<open>CONFIG_SPI_MAX_XF_LEN\<close>.
  The bus and the clock are parameters (a record of functions on the state of the hardware);
  \<open>None\<close> is a call that does not return.  What the chip does with the commands is stated as
  the hypothesis \<open>nor_chip\<close>, and a simulated chip shows that it can hold.
\<close>

section \<open>Definitions\<close>

subsection \<open>The bus\<close>

text \<open>\<open>xxfer w bitlen dout flags\<close>: the result of \<open>spi_xfer\<close> and the bytes shifted in.\<close>

record 'w spi_bus =
  xsetup :: "'w \<Rightarrow> u32 \<Rightarrow> u32 \<Rightarrow> u32 \<Rightarrow> u32 \<Rightarrow> bool \<times> 'w"
  xclaim :: "'w \<Rightarrow> int \<times> 'w"
  xrelease :: "'w \<Rightarrow> 'w"
  xxfer :: "'w \<Rightarrow> u32 \<Rightarrow> u8 list option \<Rightarrow> nat \<Rightarrow> int \<times> u8 list \<times> 'w"
  xtimer :: "'w \<Rightarrow> u32 \<Rightarrow> u32 \<times> 'w"
  xmalloc_ok :: bool

abbreviation (input) SPI_XFER_BEGIN :: nat where "SPI_XFER_BEGIN \<equiv> 1"
abbreviation (input) SPI_XFER_END :: nat where "SPI_XFER_END \<equiv> 2"
abbreviation (input) CONFIG_SYS_HZ :: u32 where "CONFIG_SYS_HZ \<equiv> 1000"
abbreviation (input) SPI_FLASH_PROG_TIMEOUT :: u32 where "SPI_FLASH_PROG_TIMEOUT \<equiv> 2 * CONFIG_SYS_HZ"
abbreviation (input) SPI_FLASH_PAGE_ERASE_TIMEOUT :: u32 where "SPI_FLASH_PAGE_ERASE_TIMEOUT \<equiv> 5 * CONFIG_SYS_HZ"
abbreviation (input) CONFIG_SPI_MAX_XF_LEN :: u32 where "CONFIG_SPI_MAX_XF_LEN \<equiv> 65530"
abbreviation (input) CMD_READ_ID :: u8 where "CMD_READ_ID \<equiv> 0x9f"
abbreviation (input) CMD_READ_ARRAY_FAST :: u8 where "CMD_READ_ARRAY_FAST \<equiv> 0x0b"

definition spi_flash_cmd :: "'w spi_bus \<Rightarrow> 'w \<Rightarrow> u8 \<Rightarrow> nat \<Rightarrow> int \<times> u8 list \<times> 'w" where
  "spi_flash_cmd B w cmd len =
     (let flags = (if len = 0 then SPI_XFER_BEGIN + SPI_XFER_END else SPI_XFER_BEGIN);
          (ret, _, w) = xxfer B w 8 (Some [cmd]) flags
      in if ret \<noteq> 0 then (ret, [], w)
         else if len \<noteq> 0 then xxfer B w (of_nat len * 8) None SPI_XFER_END
         else (ret, [], w))"

definition spi_flash_cmd_read :: "'w spi_bus \<Rightarrow> 'w \<Rightarrow> u8 list \<Rightarrow> u32 \<Rightarrow> int \<times> u8 list \<times> 'w" where
  "spi_flash_cmd_read B w cmd data_len =
     (let flags = (if data_len = 0 then SPI_XFER_BEGIN + SPI_XFER_END else SPI_XFER_BEGIN);
          (ret, _, w) = xxfer B w (of_nat (length cmd) * 8) (Some cmd) flags
      in if ret \<noteq> 0 then (ret, [], w)
         else if data_len \<noteq> 0 then xxfer B w (data_len * 8) None SPI_XFER_END
         else (ret, [], w))"

definition spi_flash_cmd_write :: "'w spi_bus \<Rightarrow> 'w \<Rightarrow> u8 list \<Rightarrow> u8 list \<Rightarrow> int \<times> 'w" where
  "spi_flash_cmd_write B w cmd data =
     (let flags = (if data = [] then SPI_XFER_BEGIN + SPI_XFER_END else SPI_XFER_BEGIN);
          (ret, _, w) = xxfer B w (of_nat (length cmd) * 8) (Some cmd) flags
      in if ret \<noteq> 0 then (ret, w)
         else if data \<noteq> [] then
           (let (ret, _, w) = xxfer B w (of_nat (length data) * 8) (Some data) SPI_XFER_END in (ret, w))
         else (ret, w))"

definition spi_flash_read_common :: "'w spi_bus \<Rightarrow> 'w \<Rightarrow> u8 list \<Rightarrow> u32 \<Rightarrow> int \<times> u8 list \<times> 'w" where
  "spi_flash_read_common B w cmd data_len =
     (let w = snd (xclaim B w);
          (ret, d, w) = spi_flash_cmd_read B w cmd data_len
      in (ret, d, xrelease B w))"

subsection \<open>Code the two chip drivers have in common\<close>

text \<open>\<open>spansion_wait_ready\<close> and \<open>stmicro_wait_ready\<close> (they differ only in the names of their
  constants).\<close>

partial_function (option) wait_ready_loop :: "'w spi_bus \<Rightarrow> 'w \<Rightarrow> u32 \<Rightarrow> u32 \<Rightarrow> (int \<times> 'w) option" where
  "wait_ready_loop B w timebase timeout =
     (let (ret, resp, w) = spi_flash_cmd B w 0x05 1 in
      if ret \<noteq> 0 then Some (-1, w)
      else if hd resp AND 1 = 0 then Some (0, w)
      else (let (t, w) = xtimer B w timebase in
            if t < timeout then wait_ready_loop B w timebase timeout else Some (-1, w)))"

definition wait_ready :: "'w spi_bus \<Rightarrow> 'w \<Rightarrow> u32 \<Rightarrow> (int \<times> 'w) option" where
  "wait_ready B w timeout =
     (let (timebase, w) = xtimer B w 0 in wait_ready_loop B w timebase timeout)"

text \<open>One write-enable, command, wait sequence of the program and erase loops.\<close>

definition flash_op :: "'w spi_bus \<Rightarrow> 'w \<Rightarrow> u8 list \<Rightarrow> u8 list \<Rightarrow> u32 \<Rightarrow> (int \<times> 'w) option" where
  "flash_op B w cmd data timeout =
     (let (ret, _, w) = spi_flash_cmd B w 0x06 0 in
      if ret < 0 then Some (ret, w)
      else (let (ret, w) = spi_flash_cmd_write B w cmd data in
            if ret < 0 then Some (ret, w) else wait_ready B w timeout))"

text \<open>The body of \<open>spansion_write\<close> and \<open>stmicro_write\<close>: \<open>buf i\<close> is the byte at \<open>buf + i\<close>; the
  page program command is 0x02.\<close>

partial_function (option) page_write_loop ::
    "'w spi_bus \<Rightarrow> u32 \<Rightarrow> (nat \<Rightarrow> u8) \<Rightarrow> u32 \<Rightarrow> 'w \<Rightarrow> u32 \<Rightarrow> u32 \<Rightarrow> u32 \<Rightarrow> int \<Rightarrow> (int \<times> 'w) option" where
  "page_write_loop B page_size buf len w actual page_addr byte_addr ret =
     (if actual < len then
        (let chunk_len = min (len - actual) (page_size - byte_addr);
             cmd = [0x02, ucast (drop_bit 8 page_addr), ucast page_addr, ucast byte_addr]
         in Option.bind (flash_op B w cmd (map buf [unat actual..<unat actual + unat chunk_len]) SPI_FLASH_PROG_TIMEOUT)
              (\<lambda>(ret, w). if ret < 0 then Some (ret, w)
                 else page_write_loop B page_size buf len w (actual + chunk_len) (page_addr + 1) 0 ret))
      else Some (ret, w))"

definition page_write ::
    "'w spi_bus \<Rightarrow> u32 \<Rightarrow> 'w \<Rightarrow> u32 \<Rightarrow> u32 \<Rightarrow> (nat \<Rightarrow> u8) \<Rightarrow> (int \<times> 'w) option" where
  "page_write B page_size w offset len buf =
     (let (ret, w) = xclaim B w in
      if ret \<noteq> 0 then Some (ret, w)
      else map_option (\<lambda>(ret, w). (ret, xrelease B w))
             (page_write_loop B page_size buf len w 0 (offset div page_size) (offset mod page_size) 0))"

text \<open>The \<open>do ... while (pos < end)\<close> loop of the erase functions.  \<open>sec_size pos\<close> and \<open>opcode pos\<close>
  are the sector size and the erase command at \<open>pos\<close>.\<close>

partial_function (option) sector_erase_loop ::
    "'w spi_bus \<Rightarrow> (u32 \<Rightarrow> u32) \<Rightarrow> (u32 \<Rightarrow> u8) \<Rightarrow> 'w \<Rightarrow> u32 \<Rightarrow> u32 \<Rightarrow> (int \<times> 'w) option" where
  "sector_erase_loop B sec_size opcode w pos e =
     (let cmd = [opcode pos, ucast (drop_bit 16 pos), ucast (drop_bit 8 pos), ucast pos] in
      Option.bind (flash_op B w cmd [] SPI_FLASH_PAGE_ERASE_TIMEOUT)
        (\<lambda>(ret, w). if ret < 0 then Some (ret, w)
           else (let pos = pos + sec_size pos in
                 if pos < e then sector_erase_loop B sec_size opcode w pos e else Some (ret, w))))"

definition sector_erase ::
    "'w spi_bus \<Rightarrow> (u32 \<Rightarrow> u32) \<Rightarrow> (u32 \<Rightarrow> u8) \<Rightarrow> 'w \<Rightarrow> u32 \<Rightarrow> u32 \<Rightarrow> (int \<times> 'w) option" where
  "sector_erase B sec_size opcode w start e =
     (let (ret, w) = xclaim B w in
      if ret \<noteq> 0 then Some (ret, w)
      else map_option (\<lambda>(ret, w). (ret, xrelease B w)) (sector_erase_loop B sec_size opcode w start e))"

definition page_read :: "'w spi_bus \<Rightarrow> u32 \<Rightarrow> 'w \<Rightarrow> u32 \<Rightarrow> u32 \<Rightarrow> int \<times> u8 list \<times> 'w" where
  "page_read B page_size w offset len =
     (let page_addr = offset div page_size;
          cmd = [CMD_READ_ARRAY_FAST, ucast (drop_bit 8 page_addr), ucast page_addr,
                 ucast (offset mod page_size), 0]
      in spi_flash_read_common B w cmd len)"

declare wait_ready_loop.simps [code] page_write_loop.simps [code] sector_erase_loop.simps [code]

subsection \<open>Spansion (spansion.c)\<close>

record spansion_spi_flash_params =
  idcode1 :: u16
  idcode2 :: u16
  page_size :: u16
  pages_per_sector :: "u16 list"
  nr_sectors :: "u16 list"
  sp_name :: string
  end_addr :: "u32 list"
  cmd_pe :: u8

definition spsn :: "u16 \<Rightarrow> u16 \<Rightarrow> u16 list \<Rightarrow> u16 list \<Rightarrow> string \<Rightarrow> spansion_spi_flash_params" where
  "spsn id1 id2 pps nrs nm = \<lparr>idcode1 = id1, idcode2 = id2, page_size = 256, pages_per_sector = pps,
     nr_sectors = nrs, sp_name = nm, end_addr = [0, 0], cmd_pe = 0\<rparr>"

definition spansion_spi_flash_table :: "spansion_spi_flash_params list" where
  "spansion_spi_flash_table = [
     spsn 0x0213 0 [256, 0] [16, 0] ''S25FL008A'',
     spsn 0x0214 0 [256, 0] [32, 0] ''S25FL016A'',
     spsn 0x0215 0 [256, 0] [64, 0] ''S25FL032A'',
     spsn 0x0216 0 [256, 0] [128, 0] ''S25FL064A'',
     spsn 0x0216 0x4D00 [256, 0] [128, 0] ''S25FL064P'',
     spsn 0x2018 0x0301 [256, 0] [256, 0] ''S25FL128P_64K'',
     spsn 0x2018 0x0300 [1024, 0] [64, 0] ''S25FL128P_256K'',
     spsn 0x2018 0x4D01 [16, 256] [32, 254] ''S25FL128S_64K'']"

definition spansion_sec_size :: "spansion_spi_flash_params \<Rightarrow> u32 \<Rightarrow> u32" where
  "spansion_sec_size p addr =
     (case List.find (\<lambda>i. addr < end_addr p ! i) [0, 1] of
        Some i \<Rightarrow> ucast (page_size p) * ucast (pages_per_sector p ! i)
      | None \<Rightarrow> 0)"

definition spansion_read_fast ::
    "'w spi_bus \<Rightarrow> spansion_spi_flash_params \<Rightarrow> 'w \<Rightarrow> u32 \<Rightarrow> u32 \<Rightarrow> int \<times> u8 list \<times> 'w" where
  "spansion_read_fast B p w offset len = page_read B (ucast (page_size p)) w offset len"

definition spansion_write ::
    "'w spi_bus \<Rightarrow> spansion_spi_flash_params \<Rightarrow> 'w \<Rightarrow> u32 \<Rightarrow> u32 \<Rightarrow> (nat \<Rightarrow> u8) \<Rightarrow> (int \<times> 'w) option" where
  "spansion_write B p w offset len buf = page_write B (ucast (page_size p)) w offset len buf"

definition spansion_erase ::
    "'w spi_bus \<Rightarrow> spansion_spi_flash_params \<Rightarrow> 'w \<Rightarrow> u32 \<Rightarrow> u32 \<Rightarrow> (int \<times> 'w) option" where
  "spansion_erase B p w offset len =
     (let sector_size = spansion_sec_size p offset;
          start = offset AND NOT (sector_size - 1);
          sector_size = spansion_sec_size p (offset + len);
          e = (offset + len + sector_size - 1) AND NOT (sector_size - 1)
      in sector_erase B (spansion_sec_size p)
           (\<lambda>pos. if spansion_sec_size p pos = 4096 then cmd_pe p else 0xd8) w start e)"

subsection \<open>STMicro and Micron (stmicro.c)\<close>

record stmicro_spi_flash_params =
  st_idcode1 :: u16
  st_page_size :: u16
  st_pages_per_sector :: u16
  st_nr_sectors :: u16
  st_name :: string

definition stm :: "u16 \<Rightarrow> u16 \<Rightarrow> u16 \<Rightarrow> string \<Rightarrow> stmicro_spi_flash_params" where
  "stm id1 pps nrs nm = \<lparr>st_idcode1 = id1, st_page_size = 256, st_pages_per_sector = pps,
     st_nr_sectors = nrs, st_name = nm\<rparr>"

definition stmicro_spi_flash_table :: "stmicro_spi_flash_params list" where
  "stmicro_spi_flash_table = [
     stm 0x2015 256 32 ''M25P16'', stm 0x2012 256 4 ''M25P20'', stm 0x2016 256 64 ''M25P32'',
     stm 0x2013 256 8 ''M25P40'', stm 0x2017 256 128 ''M25P64'', stm 0x2014 256 16 ''M25P80'',
     stm 0x2018 1024 64 ''M25P128'',
     stm 0xba16 256 64 ''N25Q32'', stm 0xbb16 256 64 ''N25Q32A'',
     stm 0xba17 256 128 ''N25Q064'', stm 0xbb17 256 128 ''N25Q64A'',
     stm 0xba18 256 256 ''N25Q128'', stm 0xbb18 256 256 ''N25Q128A'',
     stm 0xba19 256 512 ''N25Q256'', stm 0xbb19 256 512 ''N25Q256A'',
     stm 0xba20 256 1024 ''N25Q512'', stm 0xbb20 256 1024 ''N25Q512A'',
     stm 0xba21 256 2048 ''N25Q00'', stm 0xbb21 256 2048 ''N25Q00A'']"

definition stmicro_read_fast ::
    "'w spi_bus \<Rightarrow> stmicro_spi_flash_params \<Rightarrow> 'w \<Rightarrow> u32 \<Rightarrow> u32 \<Rightarrow> int \<times> u8 list \<times> 'w" where
  "stmicro_read_fast B p w offset len = page_read B (ucast (st_page_size p)) w offset len"

definition stmicro_write ::
    "'w spi_bus \<Rightarrow> stmicro_spi_flash_params \<Rightarrow> 'w \<Rightarrow> u32 \<Rightarrow> u32 \<Rightarrow> (nat \<Rightarrow> u8) \<Rightarrow> (int \<times> 'w) option" where
  "stmicro_write B p w offset len buf = page_write B (ucast (st_page_size p)) w offset len buf"

definition stmicro_erase ::
    "'w spi_bus \<Rightarrow> stmicro_spi_flash_params \<Rightarrow> 'w \<Rightarrow> u32 \<Rightarrow> u32 \<Rightarrow> (int \<times> 'w) option" where
  "stmicro_erase B p w offset len =
     (let sector_size = ucast (st_page_size p) * ucast (st_pages_per_sector p);
          start = offset AND NOT (sector_size - 1);
          e = (offset + len + sector_size - 1) AND NOT (sector_size - 1)
      in sector_erase B (\<lambda>_. sector_size) (\<lambda>_. 0xd8) w start e)"

subsection \<open>Probing and the device interface (spi_flash.c, spi_flash.h)\<close>

datatype flash_driver = Spansion spansion_spi_flash_params | Stmicro stmicro_spi_flash_params

record spi_flash =
  driver :: flash_driver
  fl_size :: u32

definition be16 :: "u8 \<Rightarrow> u8 \<Rightarrow> u16" where
  "be16 a b = push_bit 8 (ucast a) OR ucast b"

fun spansion_ends :: "u32 \<Rightarrow> u16 \<Rightarrow> (u16 \<times> u16) list \<Rightarrow> u32 list" where
  "spansion_ends sz pg [] = []"
| "spansion_ends sz pg ((pps, nrs) # l) =
     (let sz = sz + ucast pg * ucast pps * ucast nrs in sz # spansion_ends sz pg l)"

definition spi_flash_probe_spansion :: "'w spi_bus \<Rightarrow> u8 list \<Rightarrow> spi_flash option" where
  "spi_flash_probe_spansion B idcode =
     (let jedec = be16 (idcode ! 1) (idcode ! 2); ext_jedec = be16 (idcode ! 3) (idcode ! 4) in
      case List.find (\<lambda>p. idcode1 p = jedec \<and> idcode2 p = ext_jedec) spansion_spi_flash_table of
        None \<Rightarrow> None
      | Some p \<Rightarrow>
          if \<not> xmalloc_ok B then None
          else (let ends = spansion_ends 0 (page_size p) (zip (pages_per_sector p) (nr_sectors p));
                    pe = (if idcode1 p = 0x2018 \<and> idcode2 p = 0x4D01 then 0x20 else 0xd8)
                in Some \<lparr>driver = Spansion (p\<lparr>end_addr := ends, cmd_pe := pe\<rparr>), fl_size = last ends\<rparr>))"

definition spi_flash_probe_stmicro :: "'w spi_bus \<Rightarrow> u8 list \<Rightarrow> spi_flash option" where
  "spi_flash_probe_stmicro B idcode =
     (let jid = be16 (idcode ! 1) (idcode ! 2) in
      case List.find (\<lambda>p. st_idcode1 p = jid) stmicro_spi_flash_table of
        None \<Rightarrow> None
      | Some p \<Rightarrow>
          if \<not> xmalloc_ok B then None
          else Some \<lparr>driver = Stmicro p,
                 fl_size = ucast (st_page_size p) * ucast (st_pages_per_sector p) * ucast (st_nr_sectors p)\<rparr>)"

definition spi_flash_probe ::
    "'w spi_bus \<Rightarrow> 'w \<Rightarrow> u32 \<Rightarrow> u32 \<Rightarrow> u32 \<Rightarrow> u32 \<Rightarrow> spi_flash option \<times> 'w" where
  "spi_flash_probe B w bus cs max_hz spi_mode =
     (let (ok, w) = xsetup B w bus cs max_hz spi_mode in
      if \<not> ok then (None, w)
      else (let (ret, w) = xclaim B w in
            if ret \<noteq> 0 then (None, w)
            else (let (ret, idcode, w) = spi_flash_cmd B w CMD_READ_ID 5 in
                  if ret \<noteq> 0 then (None, xrelease B w)
                  else (let flash = (if idcode ! 0 = 0x01 then spi_flash_probe_spansion B idcode
                                     else if idcode ! 0 = 0x20 then spi_flash_probe_stmicro B idcode
                                     else None)
                        in (flash, xrelease B w)))))"

definition dev_read :: "'w spi_bus \<Rightarrow> spi_flash \<Rightarrow> 'w \<Rightarrow> u32 \<Rightarrow> u32 \<Rightarrow> int \<times> u8 list \<times> 'w" where
  "dev_read B flash w offset len =
     (case driver flash of Spansion p \<Rightarrow> spansion_read_fast B p w offset len
      | Stmicro p \<Rightarrow> stmicro_read_fast B p w offset len)"

definition dev_write :: "'w spi_bus \<Rightarrow> spi_flash \<Rightarrow> 'w \<Rightarrow> u32 \<Rightarrow> u32 \<Rightarrow> (nat \<Rightarrow> u8) \<Rightarrow> (int \<times> 'w) option" where
  "dev_write B flash w offset len buf =
     (case driver flash of Spansion p \<Rightarrow> spansion_write B p w offset len buf
      | Stmicro p \<Rightarrow> stmicro_write B p w offset len buf)"

definition spi_flash_erase :: "'w spi_bus \<Rightarrow> spi_flash \<Rightarrow> 'w \<Rightarrow> u32 \<Rightarrow> u32 \<Rightarrow> (int \<times> 'w) option" where
  "spi_flash_erase B flash w offset len =
     (case driver flash of Spansion p \<Rightarrow> spansion_erase B p w offset len
      | Stmicro p \<Rightarrow> stmicro_erase B p w offset len)"

text \<open>The chunked transfers; the bytes read are those of the successful chunks.\<close>

partial_function (option) spi_flash_read_loop ::
    "'w spi_bus \<Rightarrow> spi_flash \<Rightarrow> 'w \<Rightarrow> u32 \<Rightarrow> u32 \<Rightarrow> u8 list \<Rightarrow> (int \<times> u8 list \<times> 'w) option" where
  "spi_flash_read_loop B flash w adr len acc =
     (let sz = (if len < CONFIG_SPI_MAX_XF_LEN then len else CONFIG_SPI_MAX_XF_LEN);
          (rv, d, w) = dev_read B flash w adr sz
      in if rv \<noteq> 0 then Some (rv, acc, w)
         else if len - sz \<noteq> 0 then spi_flash_read_loop B flash w (adr + sz) (len - sz) (acc @ d)
         else Some (rv, acc @ d, w))"

definition spi_flash_read ::
    "'w spi_bus \<Rightarrow> spi_flash \<Rightarrow> 'w \<Rightarrow> u32 \<Rightarrow> u32 \<Rightarrow> (int \<times> u8 list \<times> 'w) option" where
  "spi_flash_read B flash w offset len = spi_flash_read_loop B flash w offset len []"

partial_function (option) spi_flash_write_loop ::
    "'w spi_bus \<Rightarrow> spi_flash \<Rightarrow> (nat \<Rightarrow> u8) \<Rightarrow> 'w \<Rightarrow> u32 \<Rightarrow> u32 \<Rightarrow> u32 \<Rightarrow> (int \<times> 'w) option" where
  "spi_flash_write_loop B flash buf w adr pos len =
     (let sz = (if len < CONFIG_SPI_MAX_XF_LEN then len else CONFIG_SPI_MAX_XF_LEN) in
      Option.bind (dev_write B flash w adr sz (\<lambda>i. buf (unat pos + i)))
        (\<lambda>(rv, w). if rv \<noteq> 0 then Some (rv, w)
           else if len - sz \<noteq> 0 then spi_flash_write_loop B flash buf w (adr + sz) (pos + sz) (len - sz)
           else Some (rv, w)))"

definition spi_flash_write ::
    "'w spi_bus \<Rightarrow> spi_flash \<Rightarrow> 'w \<Rightarrow> u32 \<Rightarrow> u32 \<Rightarrow> (nat \<Rightarrow> u8) \<Rightarrow> (int \<times> 'w) option" where
  "spi_flash_write B flash w offset len buf = spi_flash_write_loop B flash buf w offset 0 len"

declare spi_flash_read_loop.simps [code] spi_flash_write_loop.simps [code]

section \<open>The chip\<close>

text \<open>What the data sheets of the chips promise, as a hypothesis on the bus: \<open>V\<close> reads the content,
  the write enable latch, the number of status reads until the operation in progress is over,
  and the clock out of the state of the hardware; \<open>geom a\<close> is the command that erases the
  sector that starts at \<open>a\<close>, and the size of that sector; \<open>cap\<close> is the size of the chip.\<close>

record 'w chip_view =
  content :: "'w \<Rightarrow> nat \<Rightarrow> u8"
  wel :: "'w \<Rightarrow> bool"
  busy :: "'w \<Rightarrow> nat"
  clock :: "'w \<Rightarrow> nat"

definition addr24 :: "u8 \<Rightarrow> u8 \<Rightarrow> u8 \<Rightarrow> nat" where
  "addr24 a b c = unat a * 65536 + unat b * 256 + unat c"

text \<open>Programming can only clear bits, erasing sets them all.\<close>

definition prog :: "(nat \<Rightarrow> u8) \<Rightarrow> nat \<Rightarrow> u8 list \<Rightarrow> nat \<Rightarrow> u8" where
  "prog m a bs x = (if a \<le> x \<and> x < a + length bs then m x AND bs ! (x - a) else m x)"

definition erased :: "(nat \<Rightarrow> u8) \<Rightarrow> nat \<Rightarrow> nat \<Rightarrow> nat \<Rightarrow> u8" where
  "erased m a e x = (if a \<le> x \<and> x < e then 0xff else m x)"

definition steady :: "'w chip_view \<Rightarrow> 'w \<Rightarrow> 'w \<Rightarrow> bool" where
  "steady V w w' \<longleftrightarrow> content V w' = content V w \<and> busy V w' = busy V w \<and> wel V w' = wel V w"

definition bus_law :: "'w spi_bus \<Rightarrow> 'w chip_view \<Rightarrow> bool" where
  "bus_law B V \<longleftrightarrow> (\<forall>w. fst (xclaim B w) = 0 \<and> steady V w (snd (xclaim B w)) \<and> steady V w (xrelease B w))"

definition timer_law :: "'w spi_bus \<Rightarrow> 'w chip_view \<Rightarrow> bool" where
  "timer_law B V \<longleftrightarrow> (\<forall>w b. fst (xtimer B w b) = of_nat (clock V w) - b \<and> steady V w (snd (xtimer B w b)) \<and>
     clock V w \<le> clock V (snd (xtimer B w b)) \<and> clock V (snd (xtimer B w b)) \<le> clock V w + 1)"

definition wren_law :: "'w spi_bus \<Rightarrow> 'w chip_view \<Rightarrow> bool" where
  "wren_law B V \<longleftrightarrow> (\<forall>w. busy V w = 0 \<longrightarrow> (\<exists>d w'. xxfer B w 8 (Some [0x06]) 3 = (0, d, w') \<and>
     content V w' = content V w \<and> busy V w' = 0 \<and> wel V w'))"

definition status_law :: "'w spi_bus \<Rightarrow> 'w chip_view \<Rightarrow> bool" where
  "status_law B V \<longleftrightarrow> (\<forall>w. \<exists>d w1 s w2. xxfer B w 8 (Some [0x05]) 1 = (0, d, w1) \<and> xxfer B w1 8 None 2 = (0, [s], w2) \<and>
     (s AND 1 = 0 \<longleftrightarrow> busy V w = 0) \<and> content V w2 = content V w \<and> busy V w2 = busy V w - 1 \<and>
     clock V w \<le> clock V w2 \<and> clock V w2 \<le> clock V w + 1)"

definition program_law :: "'w spi_bus \<Rightarrow> 'w chip_view \<Rightarrow> nat \<Rightarrow> bool" where
  "program_law B V cap \<longleftrightarrow> (\<forall>w a b c bs. busy V w = 0 \<longrightarrow> wel V w \<longrightarrow> bs \<noteq> [] \<longrightarrow> addr24 a b c < cap \<longrightarrow>
     addr24 a b c mod 256 + length bs \<le> 256 \<longrightarrow>
     (\<exists>d w1 d' w2. xxfer B w 32 (Some [0x02, a, b, c]) 1 = (0, d, w1) \<and>
        xxfer B w1 (of_nat (length bs) * 8) (Some bs) 2 = (0, d', w2) \<and>
        content V w2 = prog (content V w) (addr24 a b c) bs \<and> busy V w2 \<le> 900))"

definition erase_law :: "'w spi_bus \<Rightarrow> 'w chip_view \<Rightarrow> (nat \<Rightarrow> u8 \<times> nat) \<Rightarrow> nat \<Rightarrow> bool" where
  "erase_law B V geom cap \<longleftrightarrow> (\<forall>w a b c. busy V w = 0 \<longrightarrow> wel V w \<longrightarrow> addr24 a b c < cap \<longrightarrow>
     addr24 a b c mod snd (geom (addr24 a b c)) = 0 \<longrightarrow>
     (\<exists>d w'. xxfer B w 32 (Some [fst (geom (addr24 a b c)), a, b, c]) 3 = (0, d, w') \<and>
        content V w' = erased (content V w) (addr24 a b c) (addr24 a b c + snd (geom (addr24 a b c))) \<and>
        busy V w' \<le> 900))"

definition read_law :: "'w spi_bus \<Rightarrow> 'w chip_view \<Rightarrow> nat \<Rightarrow> bool" where
  "read_law B V cap \<longleftrightarrow> (\<forall>w a b c n. busy V w = 0 \<longrightarrow> n \<noteq> 0 \<longrightarrow> addr24 a b c + unat n \<le> cap \<longrightarrow>
     (\<exists>d w1 w2. xxfer B w 40 (Some [0x0b, a, b, c, 0]) 1 = (0, d, w1) \<and>
        xxfer B w1 (n * 8) None 2 = (0, map (content V w) [addr24 a b c..<addr24 a b c + unat n], w2) \<and>
        steady V w w2))"

definition nor_chip ::
    "'w spi_bus \<Rightarrow> 'w chip_view \<Rightarrow> (nat \<Rightarrow> u8 \<times> nat) \<Rightarrow> nat \<Rightarrow> bool" where
  "nor_chip B V geom cap \<longleftrightarrow> bus_law B V \<and> timer_law B V \<and> wren_law B V \<and> status_law B V \<and>
     program_law B V cap \<and> erase_law B V geom cap \<and> read_law B V cap \<and> cap \<le> 2 ^ 24"

section \<open>Lemmas\<close>

lemma prog_Nil [simp]: "prog m a [] = m"
  by (rule ext) (auto simp: prog_def)

lemma prog_append: "prog m a (bs @ cs) = prog (prog m a bs) (a + length bs) cs"
  by (rule ext) (auto simp: prog_def nth_append)

lemma erased_append: "a \<le> b \<Longrightarrow> b \<le> c \<Longrightarrow> erased (erased m a b) b c = erased m a c"
  by (rule ext) (auto simp: erased_def)

lemma erased_empty [simp]: "erased m a a = m"
  by (rule ext) (auto simp: erased_def)

lemma prog_erased:
  assumes "\<And>x. a \<le> x \<Longrightarrow> x < a + length bs \<Longrightarrow> m x = 0xff"
  shows "prog m a bs x = (if a \<le> x \<and> x < a + length bs then bs ! (x - a) else m x)"
proof (cases "a \<le> x \<and> x < a + length bs")
  case True
  have "(0xff :: u8) = - 1" by simp
  then have "0xff AND bs ! (x - a) = bs ! (x - a)" by (simp only: and.left_neutral)
  then show ?thesis using True assms [of x] by (simp add: prog_def)
qed (auto simp: prog_def)

text \<open>The drivers on a chip that keeps its promises.\<close>

locale nor_bus =
  fixes B :: "'w spi_bus" and V :: "'w chip_view" and geom :: "nat \<Rightarrow> u8 \<times> nat" and cap :: nat
  assumes chip: "nor_chip B V geom cap"
begin

lemmas laws = chip [unfolded nor_chip_def, THEN conjunct1]
  chip [unfolded nor_chip_def, THEN conjunct2, THEN conjunct1]
  chip [unfolded nor_chip_def, THEN conjunct2, THEN conjunct2, THEN conjunct1]
  chip [unfolded nor_chip_def, THEN conjunct2, THEN conjunct2, THEN conjunct2, THEN conjunct1]
  chip [unfolded nor_chip_def, THEN conjunct2, THEN conjunct2, THEN conjunct2, THEN conjunct2, THEN conjunct1]
  chip [unfolded nor_chip_def, THEN conjunct2, THEN conjunct2, THEN conjunct2, THEN conjunct2, THEN conjunct2, THEN conjunct1]
  chip [unfolded nor_chip_def, THEN conjunct2, THEN conjunct2, THEN conjunct2, THEN conjunct2, THEN conjunct2, THEN conjunct2, THEN conjunct1]

lemma claim_ok: "fst (xclaim B w) = 0" "steady V w (snd (xclaim B w))" "steady V w (xrelease B w)"
  using laws(1) by (simp_all add: bus_law_def)

lemma timer_ok: "fst (xtimer B w b) = of_nat (clock V w) - b" "steady V w (snd (xtimer B w b))"
    "clock V w \<le> clock V (snd (xtimer B w b))" "clock V (snd (xtimer B w b)) \<le> clock V w + 1"
  using laws(2) by (simp_all add: timer_law_def)

lemma wren_ok: "busy V w = 0 \<Longrightarrow> \<exists>w'. spi_flash_cmd B w 0x06 0 = (0, [], w') \<and>
    content V w' = content V w \<and> busy V w' = 0 \<and> wel V w'"
  using laws(3) [unfolded wren_law_def, rule_format, of w]
  by (auto simp: spi_flash_cmd_def simp flip: numeral_3_eq_3)

lemma rdsr_ok: "\<exists>s w'. spi_flash_cmd B w 0x05 1 = (0, [s], w') \<and>
    (s AND 1 = 0 \<longleftrightarrow> busy V w = 0) \<and> content V w' = content V w \<and> busy V w' = busy V w - 1 \<and>
    clock V w \<le> clock V w' \<and> clock V w' \<le> clock V w + 1"
proof -
  note L = laws(4) [unfolded status_law_def, rule_format, of w]
  then show ?thesis by (auto simp: spi_flash_cmd_def)
qed

lemma wait_ready_loop_ok:
  assumes "base \<le> clock V w" and "clock V w - base + 2 * busy V w + 2 \<le> unat timeout"
  shows "\<exists>w'. wait_ready_loop B w (of_nat base) timeout = Some (0, w') \<and> content V w' = content V w \<and> busy V w' = 0"
  using assms
proof (induction "busy V w" arbitrary: w)
  case 0
  then show ?case
    using rdsr_ok [of w] by (subst wait_ready_loop.simps) (auto simp: Let_def)
next
  case (Suc n)
  obtain s w1 where R: "spi_flash_cmd B w 0x05 1 = (0, [s], w1)" "s AND 1 \<noteq> 0" "content V w1 = content V w"
    "busy V w1 = n" "clock V w \<le> clock V w1" "clock V w1 \<le> clock V w + 1"
    using rdsr_ok [of w] Suc.hyps(2) by auto
  obtain t w2 where T: "xtimer B w1 (of_nat base) = (t, w2)" by (cases "xtimer B w1 (of_nat base)") auto
  have T': "t = of_nat (clock V w1) - of_nat base" "steady V w1 w2" "clock V w1 \<le> clock V w2" "clock V w2 \<le> clock V w1 + 1"
    using timer_ok [of w1 "of_nat base"] T by auto
  have small: "clock V w1 - base < unat timeout" using Suc.hyps(2) Suc.prems R by linarith
  have "t = of_nat (clock V w1 - base)" using T'(1) Suc.prems R by (simp add: of_nat_diff)
  moreover have "unat (of_nat (clock V w1 - base) :: u32) = clock V w1 - base"
    by (rule unat_of_nat_u32) (use small unat_u32_less [of timeout] in linarith)
  ultimately have "t < timeout" using small by (simp add: word_less_nat_alt)
  moreover have "\<exists>w'. wait_ready_loop B w2 (of_nat base) timeout = Some (0, w') \<and> content V w' = content V w2 \<and> busy V w' = 0"
    using Suc.hyps(2) Suc.prems R T' by (intro Suc.hyps(1)) (auto simp: steady_def)
  ultimately show ?case
    using R T T' by (subst wait_ready_loop.simps) (auto simp: Let_def steady_def)
qed

lemma wait_ready_ok:
  assumes "busy V w \<le> 900" and "2000 \<le> unat timeout"
  shows "\<exists>w'. wait_ready B w timeout = Some (0, w') \<and> content V w' = content V w \<and> busy V w' = 0"
proof -
  obtain t w1 where T: "xtimer B w 0 = (t, w1)" by (cases "xtimer B w 0") auto
  have T': "t = of_nat (clock V w)" "steady V w w1" "clock V w \<le> clock V w1" "clock V w1 \<le> clock V w + 1"
    using timer_ok [of w 0] T by auto
  then show ?thesis
    using wait_ready_loop_ok [of "clock V w" w1 timeout] assms T by (auto simp: wait_ready_def steady_def)
qed

lemma program_ok:
  assumes "busy V w = 0" and "bs \<noteq> []" and "addr24 a b c < cap" and "addr24 a b c mod 256 + length bs \<le> 256"
    and "2000 \<le> unat timeout"
  shows "\<exists>w'. flash_op B w [0x02, a, b, c] bs timeout = Some (0, w') \<and>
    content V w' = prog (content V w) (addr24 a b c) bs \<and> busy V w' = 0"
proof -
  obtain w1 where w1: "spi_flash_cmd B w 0x06 0 = (0, [], w1)" "content V w1 = content V w" "busy V w1 = 0" "wel V w1"
    using wren_ok [OF assms(1)] by blast
  then obtain d w2 d' w3 where w3: "xxfer B w1 32 (Some [0x02, a, b, c]) 1 = (0, d, w2)"
    "xxfer B w2 (of_nat (length bs) * 8) (Some bs) 2 = (0, d', w3)"
    "content V w3 = prog (content V w1) (addr24 a b c) bs" "busy V w3 \<le> 900"
    using laws(5) [unfolded program_law_def, rule_format, of w1 bs a b c] assms(2-4) by blast
  then have "spi_flash_cmd_write B w1 [0x02, a, b, c] bs = (0, w3)"
    using assms(2) by (simp add: spi_flash_cmd_write_def)
  then show ?thesis
    using wait_ready_ok [OF w3(4) assms(5)] w1 w3(3) by (auto simp: flash_op_def)
qed

lemma erase_ok:
  assumes "busy V w = 0" and "addr24 a b c < cap" and "addr24 a b c mod snd (geom (addr24 a b c)) = 0"
    and "2000 \<le> unat timeout"
  shows "\<exists>w'. flash_op B w [fst (geom (addr24 a b c)), a, b, c] [] timeout = Some (0, w') \<and>
    content V w' = erased (content V w) (addr24 a b c) (addr24 a b c + snd (geom (addr24 a b c))) \<and> busy V w' = 0"
proof -
  obtain w1 where w1: "spi_flash_cmd B w 0x06 0 = (0, [], w1)" "content V w1 = content V w" "busy V w1 = 0" "wel V w1"
    using wren_ok [OF assms(1)] by blast
  then obtain d w2 where w2: "xxfer B w1 32 (Some [fst (geom (addr24 a b c)), a, b, c]) 3 = (0, d, w2)"
    "content V w2 = erased (content V w1) (addr24 a b c) (addr24 a b c + snd (geom (addr24 a b c)))" "busy V w2 \<le> 900"
    using laws(6) [unfolded erase_law_def, rule_format, of w1 a b c] assms(2,3) by blast
  then have "spi_flash_cmd_write B w1 [fst (geom (addr24 a b c)), a, b, c] [] = (0, w2)"
    by (simp add: spi_flash_cmd_write_def flip: numeral_3_eq_3)
  then show ?thesis
    using wait_ready_ok [OF w2(3) assms(4)] w1 w2(2) by (auto simp: flash_op_def)
qed

lemma page_read_cmd_ok:
  assumes "busy V w = 0" and "n \<noteq> 0" and "addr24 a b c + unat n \<le> cap"
  shows "\<exists>w'. spi_flash_read_common B w [0x0b, a, b, c, 0] n =
      (0, map (content V w) [addr24 a b c..<addr24 a b c + unat n], w') \<and> steady V w w'"
proof -
  let ?w = "snd (xclaim B w)"
  have S: "steady V w ?w" by (rule claim_ok)
  from S have "busy V ?w = 0" using assms(1) by (simp add: steady_def)
  then obtain d w1 w2 where "xxfer B ?w 40 (Some [0x0b, a, b, c, 0]) 1 = (0, d, w1)"
    "xxfer B w1 (n * 8) None 2 = (0, map (content V ?w) [addr24 a b c..<addr24 a b c + unat n], w2)" "steady V ?w w2"
    using laws(7) [unfolded read_law_def, rule_format, of ?w n a b c] assms(2,3) by blast
  then show ?thesis
    using S assms(2) claim_ok(3) [of w2]
    by (auto simp: spi_flash_read_common_def spi_flash_cmd_read_def Let_def steady_def)
qed

text \<open>The three address bytes of a command.\<close>

lemma addr24_page:
  assumes "p < 65536" and "b < 256"
  shows "addr24 (ucast (drop_bit 8 (of_nat p :: u32))) (ucast (of_nat p :: u32)) (ucast (of_nat b :: u32)) = p * 256 + b"
proof -
  have "unat (ucast (drop_bit 8 (of_nat p :: u32)) :: u8) = p div 2 ^ 8 mod 256"
    by (rule byte_of_nat_u32) (use assms in simp)
  moreover have "unat (ucast (of_nat p :: u32) :: u8) = p mod 256" "unat (ucast (of_nat b :: u32) :: u8) = b mod 256"
    using assms by (simp_all only: unat_ucast_u8) (simp_all add: unat_of_nat_u32)
  moreover have "p div 2 ^ 8 mod 256 = p div 256" using assms(1) by (simp add: less_mult_imp_div_less)
  moreover have "p = p div 256 * 256 + p mod 256" "b mod 256 = b" using assms(2) by simp_all
  ultimately show ?thesis
    unfolding addr24_def by linarith
qed

lemma addr24_pos:
  assumes "p < 2 ^ 24"
  shows "addr24 (ucast (drop_bit 16 (of_nat p :: u32))) (ucast (drop_bit 8 (of_nat p :: u32))) (ucast (of_nat p :: u32)) = p"
proof -
  have p: "p < 2 ^ 32" using assms by simp
  have "unat (ucast (drop_bit 16 (of_nat p :: u32)) :: u8) = p div 2 ^ 16 mod 256"
    "unat (ucast (drop_bit 8 (of_nat p :: u32)) :: u8) = p div 2 ^ 8 mod 256"
    by (rule byte_of_nat_u32 [OF p])+
  moreover have "unat (ucast (of_nat p :: u32) :: u8) = p mod 256"
    using p by (simp only: unat_ucast_u8 unat_of_nat_u32)
  moreover have "p div 2 ^ 8 mod 256 = p div 256 mod 256" "p div 2 ^ 16 mod 256 = p div 256 div 256"
    using assms less_mult_imp_div_less [of p 256 65536] div_mult2_eq [of p 256 256] by simp_all
  moreover have "p = p div 256 * 256 + p mod 256" "p div 256 = p div 256 div 256 * 256 + p div 256 mod 256"
    by simp_all
  ultimately show ?thesis
    unfolding addr24_def by linarith
qed

lemma page_write_loop_ok:
  assumes "busy V w = 0" and "act \<le> len" and "len < 2 ^ 32" and "byt < 256" and "256 * page + byt + (len - act) \<le> cap"
    and "cap \<le> 2 ^ 24"
  shows "\<exists>w'. page_write_loop B 256 buf (of_nat len) w (of_nat act) (of_nat page) (of_nat byt) 0 = Some (0, w') \<and>
    content V w' = prog (content V w) (256 * page + byt) (map buf [act..<len]) \<and> busy V w' = 0"
  using assms
proof (induction "len - act" arbitrary: w act page byt rule: less_induct)
  case less
  have small: "unat (of_nat act :: u32) = act" "unat (of_nat len :: u32) = len"
    using less.prems by (simp_all add: unat_of_nat_u32)
  show ?case
  proof (cases "act < len")
    case False
    then have "act = len" using less.prems by simp
    then show ?thesis using less.prems by (subst page_write_loop.simps) simp
  next
    case True
    define n where "n = min (len - act) (256 - byt)"
    have n: "0 < n" "n \<le> len - act" "byt + n \<le> 256" using True less.prems by (auto simp: n_def)
    have chunk: "min (of_nat len - of_nat act :: u32) (256 - of_nat byt) = of_nat n"
    proof -
      have "of_nat len - of_nat act = (of_nat (len - act) :: u32)" using True by (simp add: of_nat_diff)
      moreover have "256 - of_nat byt = (of_nat (256 - byt) :: u32)" using less.prems by (simp add: of_nat_diff)
      moreover have "unat (of_nat (len - act) :: u32) = len - act" "unat (of_nat (256 - byt) :: u32) = 256 - byt"
        by (rule unat_of_nat_u32, use less.prems in \<open>linarith | simp\<close>)+
      ultimately show ?thesis by (simp add: min_def word_le_nat_alt n_def)
    qed
    have page: "page < 65536" using less.prems True by simp
    let ?cmd = "[0x02, ucast (drop_bit 8 (of_nat page :: u32)), ucast (of_nat page :: u32), ucast (of_nat byt :: u32)]"
    let ?bs = "map buf [act..<act + n]"
    have A: "addr24 (ucast (drop_bit 8 (of_nat page :: u32))) (ucast (of_nat page :: u32)) (ucast (of_nat byt :: u32))
        = page * 256 + byt"
      by (rule addr24_page) (use page less.prems in auto)
    obtain w1 where w1: "flash_op B w ?cmd ?bs 2000 = Some (0, w1)"
      "content V w1 = prog (content V w) (page * 256 + byt) ?bs" "busy V w1 = 0"
      using program_ok [of w ?bs "ucast (drop_bit 8 (of_nat page :: u32))" "ucast (of_nat page :: u32)"
          "ucast (of_nat byt :: u32)" 2000] less.prems n unfolding A by auto
    have un: "unat (of_nat n :: u32) = n" using n less.prems by (intro unat_of_nat_u32) linarith
    have "\<exists>w'. page_write_loop B 256 buf (of_nat len) w1 (of_nat (act + n)) (of_nat (Suc page)) (of_nat 0) 0 = Some (0, w') \<and>
      content V w' = prog (content V w1) (256 * Suc page + 0) (map buf [act + n..<len]) \<and> busy V w' = 0"
    proof (cases "act + n = len")
      case True
      then show ?thesis using w1(3) by (subst page_write_loop.simps) simp
    next
      case False
      then have "n = 256 - byt" using n by (auto simp: n_def)
      then show ?thesis using n less.prems w1(3) False by (intro less.hyps) auto
    qed
    then obtain w' where w': "page_write_loop B 256 buf (of_nat len) w1 (of_nat (act + n)) (of_nat (Suc page)) (of_nat 0) 0
        = Some (0, w')" "content V w' = prog (content V w1) (256 * Suc page + 0) (map buf [act + n..<len])" "busy V w' = 0"
      by blast
    have "prog (content V w1) (256 * Suc page + 0) (map buf [act + n..<len]) =
        prog (content V w) (256 * page + byt) (map buf [act..<len])"
    proof (cases "act + n = len")
      case True
      then show ?thesis using w1(2) by (simp add: mult.commute)
    next
      case False
      then have "256 * Suc page + 0 = 256 * page + byt + length ?bs" using n by (auto simp: n_def)
      moreover have "[act..<len] = [act..<act + n] @ [act + n..<len]"
        using n True by (metis le_add1 le_add_diff_inverse less_imp_le nat_add_left_cancel_le upt_add_eq_append)
      ultimately show ?thesis using w1(2) by (simp only: map_append prog_append mult.commute)
    qed
    moreover have "page_write_loop B 256 buf (of_nat len) w (of_nat act) (of_nat page) (of_nat byt) 0 = Some (0, w')"
      using True w1(1) w'(1) small un
      by (subst page_write_loop.simps) (simp add: Let_def chunk word_less_nat_alt algebra_simps)
    ultimately show ?thesis using w'(2,3) by auto
  qed
qed

lemma page_write_ok:
  assumes "busy V w = 0" and "unat offset + unat len \<le> cap"
  shows "\<exists>w'. page_write B 256 w offset len buf = Some (0, w') \<and>
    content V w' = prog (content V w) (unat offset) (map buf [0..<unat len]) \<and> busy V w' = 0"
proof -
  let ?w = "snd (xclaim B w)"
  have C: "xclaim B w = (0, ?w)" "steady V w ?w" using claim_ok [of w] by (auto simp: prod_eq_iff)
  have d: "offset div 256 = of_nat (unat offset div 256)" "offset mod 256 = of_nat (unat offset mod 256)"
    by (simp_all add: of_nat_div [symmetric] word_unat_eq_iff unat_div unat_mod unat_of_nat_u32 unsigned_of_nat
        take_bit_nat_eq_self unat_u32_less [simplified] less_imp_le_nat le_less_trans [OF div_le_dividend])
  have eq: "256 * (unat offset div 256) + unat offset mod 256 = unat offset" by simp
  have cap: "cap \<le> 2 ^ 24" using chip by (simp add: nor_chip_def)
  obtain w' where w': "page_write_loop B 256 buf (of_nat (unat len)) ?w (of_nat 0) (of_nat (unat offset div 256))
      (of_nat (unat offset mod 256)) 0 = Some (0, w')"
    "content V w' = prog (content V ?w) (unat offset) (map buf [0..<unat len])" "busy V w' = 0"
    using page_write_loop_ok [of ?w 0 "unat len" "unat offset mod 256" "unat offset div 256" buf]
      assms C(2) cap unat_u32_less [of len] unfolding eq by (auto simp: steady_def)
  then have "page_write B 256 w offset len buf = Some (0, xrelease B w')"
    by (subst page_write_def, subst C(1)) (simp add: d)
  then show ?thesis
    using w'(2,3) C(2) claim_ok(3) [of w'] by (auto simp: steady_def)
qed

lemma page_read_ok:
  assumes "busy V w = 0" and "len \<noteq> 0" and "unat offset + unat len \<le> cap"
  shows "\<exists>w'. page_read B 256 w offset len =
      (0, map (content V w) [unat offset..<unat offset + unat len], w') \<and> steady V w w'"
proof -
  have d: "offset div 256 = of_nat (unat offset div 256)" "offset mod 256 = of_nat (unat offset mod 256)"
    by (simp_all add: of_nat_div [symmetric] word_unat_eq_iff unat_div unat_mod unat_of_nat_u32 unsigned_of_nat
        take_bit_nat_eq_self unat_u32_less [simplified] less_imp_le_nat le_less_trans [OF div_le_dividend])
  have cap: "cap \<le> 2 ^ 24" using chip by (simp add: nor_chip_def)
  have "0 < unat len" using assms(2) by (simp add: unat_gt_0)
  then have "unat offset div 256 < 65536" using assms(3) cap by (simp add: less_mult_imp_div_less)
  from addr24_page [OF this, of "unat offset mod 256"]
  have A: "addr24 (ucast (drop_bit 8 (offset div 256))) (ucast (offset div 256)) (ucast (offset mod 256)) = unat offset"
    unfolding d by simp
  show ?thesis
    using page_read_cmd_ok [of w len, OF assms(1,2), of "ucast (drop_bit 8 (offset div 256))"
        "ucast (offset div 256)" "ucast (offset mod 256)", unfolded A, OF assms(3)]
    by (simp only: page_read_def Let_def)
qed

text \<open>Erasing from sector to sector: \<open>P\<close> holds at the sector starts on the way to \<open>e\<close>.\<close>

lemma sector_erase_loop_ok:
  assumes "busy V w = 0" and "pos < e" and "e \<le> cap" and "P pos"
    and step: "\<And>p. P p \<Longrightarrow> p < e \<Longrightarrow> geom p = (opcode (of_nat p), unat (sec_size (of_nat p))) \<and>
      0 < unat (sec_size (of_nat p)) \<and> p mod unat (sec_size (of_nat p)) = 0 \<and>
      (p + unat (sec_size (of_nat p)) = e \<or> p + unat (sec_size (of_nat p)) < e \<and> P (p + unat (sec_size (of_nat p))))"
  shows "\<exists>w'. sector_erase_loop B sec_size opcode w (of_nat pos) (of_nat e) = Some (0, w') \<and>
    content V w' = erased (content V w) pos e \<and> busy V w' = 0"
  using assms(1,2,4)
proof (induction "e - pos" arbitrary: w pos rule: less_induct)
  case less
  let ?s = "unat (sec_size (of_nat pos))"
  note S = step [OF less.prems(3,2)]
  have cap: "cap \<le> 2 ^ 24" using chip by (simp add: nor_chip_def)
  have p24: "pos < 2 ^ 24" using less.prems(2) assms(3) cap by linarith
  note A = addr24_pos [OF p24]
  have "snd (geom pos) = ?s" "fst (geom pos) = opcode (of_nat pos)" "pos < cap" "pos mod snd (geom pos) = 0"
    using S less.prems(2) assms(3) by auto
  then obtain w1 where w1: "flash_op B w [opcode (of_nat pos), ucast (drop_bit 16 (of_nat pos :: u32)),
      ucast (drop_bit 8 (of_nat pos :: u32)), ucast (of_nat pos :: u32)] [] 5000 = Some (0, w1)"
    "content V w1 = erased (content V w) pos (pos + ?s)" "busy V w1 = 0"
    using erase_ok [of w "ucast (drop_bit 16 (of_nat pos :: u32))" "ucast (drop_bit 8 (of_nat pos :: u32))"
        "ucast (of_nat pos :: u32)" 5000, unfolded A] less.prems(1) by auto
  have nxt: "of_nat pos + sec_size (of_nat pos) = of_nat (pos + ?s)" by simp
  have le: "pos + ?s \<le> e" "e < 2 ^ 32" using S assms(3) cap by auto
  have cmp: "(of_nat (pos + ?s) :: u32) < of_nat e \<longleftrightarrow> pos + ?s < e"
    using le unat_of_nat_u32 [of "pos + ?s"] unat_of_nat_u32 [of e] by (simp add: word_less_nat_alt)
  have run: "sector_erase_loop B sec_size opcode w (of_nat pos) (of_nat e) =
      (if pos + ?s < e then sector_erase_loop B sec_size opcode w1 (of_nat (pos + ?s)) (of_nat e) else Some (0, w1))"
    unfolding cmp [symmetric] nxt [symmetric] using w1(1) by (subst sector_erase_loop.simps) (simp add: Let_def)
  show ?case
  proof (cases "pos + ?s = e")
    case True
    then have "sector_erase_loop B sec_size opcode w (of_nat pos) (of_nat e) = Some (0, w1)"
      using run by simp
    then show ?thesis using w1 True by auto
  next
    case False
    then have lt: "pos + ?s < e" "P (pos + ?s)" using S by auto
    have dl: "e - (pos + ?s) < e - pos" using less.prems(2) S by (intro diff_less_mono2) auto
    then obtain w' where w': "sector_erase_loop B sec_size opcode w1 (of_nat (pos + ?s)) (of_nat e) = Some (0, w')"
      "content V w' = erased (content V w1) (pos + ?s) e" "busy V w' = 0"
      using less.hyps [OF dl w1(3) lt] by blast
    have "sector_erase_loop B sec_size opcode w (of_nat pos) (of_nat e) = Some (0, w')"
      using run w'(1) lt(1) by simp
    then show ?thesis
      using w1(2) w'(2,3) lt by (auto simp: erased_append)
  qed
qed

lemma sector_erase_ok:
  assumes "busy V w = 0" and "pos < e" and "e \<le> cap" and "P pos"
    and "\<And>p. P p \<Longrightarrow> p < e \<Longrightarrow> geom p = (opcode (of_nat p), unat (sec_size (of_nat p))) \<and>
      0 < unat (sec_size (of_nat p)) \<and> p mod unat (sec_size (of_nat p)) = 0 \<and>
      (p + unat (sec_size (of_nat p)) = e \<or> p + unat (sec_size (of_nat p)) < e \<and> P (p + unat (sec_size (of_nat p))))"
  shows "\<exists>w'. sector_erase B sec_size opcode w (of_nat pos) (of_nat e) = Some (0, w') \<and>
    content V w' = erased (content V w) pos e \<and> busy V w' = 0"
proof -
  let ?w = "snd (xclaim B w)"
  have C: "xclaim B w = (0, ?w)" "steady V w ?w" using claim_ok [of w] by (auto simp: prod_eq_iff)
  then have "busy V ?w = 0" using assms(1) by (simp add: steady_def)
  from sector_erase_loop_ok [OF this assms(2,3), of P opcode sec_size, OF assms(4,5)] obtain w' where
    w': "sector_erase_loop B sec_size opcode ?w (of_nat pos) (of_nat e) = Some (0, w')"
    "content V w' = erased (content V ?w) pos e" "busy V w' = 0"
    by auto
  then have "sector_erase B sec_size opcode w (of_nat pos) (of_nat e) = Some (0, xrelease B w')"
    by (subst sector_erase_def, subst C(1)) simp
  then show ?thesis
    using w'(2,3) C(2) claim_ok(3) [of w'] by (auto simp: steady_def)
qed

text \<open>A power of two sector size, and a range of whole sectors.\<close>

lemma stmicro_erase_ok:
  assumes "busy V w = 0" and "ucast (st_page_size p) * ucast (st_pages_per_sector p) = (2 ^ k :: u32)" and "k < 24"
    and "\<And>a. geom a = (0xd8, 2 ^ k)" and "unat offset mod 2 ^ k = 0" and "unat len mod 2 ^ k = 0" and "len \<noteq> 0"
    and "unat offset + unat len \<le> cap"
  shows "\<exists>w'. stmicro_erase B p w offset len = Some (0, w') \<and>
    content V w' = erased (content V w) (unat offset) (unat offset + unat len) \<and> busy V w' = 0"
proof -
  have cap: "cap \<le> 2 ^ 24" using chip by (simp add: nor_chip_def)
  have e: "unat (offset + len) = unat offset + unat len"
    using assms(8) cap by (simp add: unat_word_ariths)
  have k32: "unat (2 ^ k :: u32) = 2 ^ k"
  proof -
    have "(2 :: nat) ^ k < 2 ^ 32" using assms(3) by (intro power_strict_increasing) auto
    then show ?thesis using unat_of_nat_u32 [of "2 ^ k"] by simp
  qed
  have m: "(2 ^ k - 1 :: u32) = mask k" by (simp add: mask_eq_exp_minus_1)
  have m': "x + 2 ^ k - 1 = x + mask k" for x :: u32 by (simp add: mask_eq_exp_minus_1)
  have start: "offset AND NOT (mask k) = offset"
    by (rule align_down) (simp add: take_bit_u32_0 assms(5))
  have "unat (offset + len) mod 2 ^ k = 0" using assms(5,6) e by (simp add: mod_add_eq [symmetric])
  then have en: "(offset + len + mask k) AND NOT (mask k) = offset + len"
    by (intro align_up) (simp add: take_bit_u32_0)
  have run: "stmicro_erase B p w offset len =
      sector_erase B (\<lambda>_. 2 ^ k) (\<lambda>_. 0xd8) w (of_nat (unat offset)) (of_nat (unat offset + unat len))"
    unfolding stmicro_erase_def Let_def assms(2) m m' start en by simp
  have "0 < unat len" using assms(7) by (simp add: unat_gt_0)
  then have lt: "unat offset < unat offset + unat len" by simp
  show ?thesis unfolding run
  proof (rule sector_erase_ok [OF assms(1) lt assms(8)])
    show "unat offset mod 2 ^ k = 0" by (rule assms(5))
    fix x assume x: "x mod 2 ^ k = 0" "x < unat offset + unat len"
    have "(unat offset + unat len) mod 2 ^ k = 0" using assms(5,6) by (simp add: mod_add_eq [symmetric])
    then have "2 ^ k dvd unat offset + unat len - x" using x by (auto simp: mod_eq_0_iff_dvd intro: dvd_diff_nat)
    then have "2 ^ k \<le> unat offset + unat len - x" using x(2) by (intro dvd_imp_le) auto
    then show "geom x = (0xd8, unat (2 ^ k :: u32)) \<and> 0 < unat (2 ^ k :: u32) \<and> x mod unat (2 ^ k :: u32) = 0 \<and>
      (x + unat (2 ^ k :: u32) = unat offset + unat len \<or>
       x + unat (2 ^ k :: u32) < unat offset + unat len \<and> (x + unat (2 ^ k :: u32)) mod 2 ^ k = 0)"
      using x unfolding k32 assms(4) by auto
  qed
qed

end

section \<open>The device interface\<close>

text \<open>What \<open>spi_flash_read\<close> and \<open>spi_flash_write\<close> rely on: a driver that transfers one chunk.\<close>

locale flash_dev =
  fixes B :: "'w spi_bus" and flash :: spi_flash
    and cont :: "'w \<Rightarrow> nat \<Rightarrow> u8" and ready :: "'w \<Rightarrow> bool" and cap :: nat
  assumes cap24: "cap \<le> 2 ^ 24"
    and dev_read_ok: "ready w \<Longrightarrow> len \<noteq> 0 \<Longrightarrow> unat offset + unat len \<le> cap \<Longrightarrow>
      \<exists>w'. dev_read B flash w offset len = (0, map (cont w) [unat offset..<unat offset + unat len], w') \<and>
        cont w' = cont w \<and> ready w'"
    and dev_write_ok: "ready w \<Longrightarrow> unat offset + unat len \<le> cap \<Longrightarrow>
      \<exists>w'. dev_write B flash w offset len buf = Some (0, w') \<and>
        cont w' = prog (cont w) (unat offset) (map buf [0..<unat len]) \<and> ready w'"
begin

lemma spi_flash_read_loop_ok:
  assumes "ready w" and "len \<noteq> 0" and "unat adr + unat len \<le> cap"
  shows "\<exists>w'. spi_flash_read_loop B flash w adr len acc =
      Some (0, acc @ map (cont w) [unat adr..<unat adr + unat len], w') \<and> cont w' = cont w \<and> ready w'"
  using assms
proof (induction "unat len" arbitrary: w adr len acc rule: less_induct)
  case less
  show ?case
  proof (cases "len < 65530")
    case True
    from dev_read_ok [OF less.prems] obtain w1 where
      "dev_read B flash w adr len = (0, map (cont w) [unat adr..<unat adr + unat len], w1)" "cont w1 = cont w" "ready w1"
      by auto
    then show ?thesis using True by (subst spi_flash_read_loop.simps) (auto simp: Let_def)
  next
    case False
    then have ge: "65530 \<le> unat len" by (simp add: word_less_nat_alt)
    have s: "unat (65530 :: u32) = 65530" by simp
    have sub: "unat (len - 65530) = unat len - 65530" using ge by (simp add: unat_sub_if')
    have add: "unat (adr + 65530) = unat adr + 65530"
      using less.prems(3) cap24 ge by (simp add: unat_word_ariths)
    from dev_read_ok [OF less.prems(1), of 65530 adr] less.prems(3) ge obtain w1 where
      w1: "dev_read B flash w adr 65530 = (0, map (cont w) [unat adr..<unat adr + 65530], w1)" "cont w1 = cont w" "ready w1"
      by auto
    show ?thesis
    proof (cases "len - 65530 = 0")
      case True
      then have "unat len = 65530" using sub ge by simp
      then show ?thesis
        using w1 True False by (subst spi_flash_read_loop.simps) (simp add: Let_def)
    next
      case nz: False
      have "\<exists>w'. spi_flash_read_loop B flash w1 (adr + 65530) (len - 65530) (acc @ map (cont w) [unat adr..<unat adr + 65530]) =
          Some (0, (acc @ map (cont w) [unat adr..<unat adr + 65530]) @
            map (cont w1) [unat (adr + 65530)..<unat (adr + 65530) + unat (len - 65530)], w') \<and> cont w' = cont w1 \<and> ready w'"
        by (rule less.hyps [OF _ w1(3) nz]) (use less.prems(3) ge sub add in auto)
      moreover have "[unat adr..<unat adr + unat len] =
          [unat adr..<unat adr + 65530] @ [unat adr + 65530..<unat adr + 65530 + (unat len - 65530)]"
        using ge upt_add_eq_append [of "unat adr" "unat adr + 65530" "unat len - 65530"] by simp
      ultimately show ?thesis
        using w1 False nz unfolding sub add
        by (subst spi_flash_read_loop.simps) (auto simp: Let_def)
    qed
  qed
qed

lemma spi_flash_write_loop_ok:
  assumes "ready w" and "unat adr + unat len \<le> cap" and "unat pos + unat len < 2 ^ 32"
  shows "\<exists>w'. spi_flash_write_loop B flash buf w adr pos len = Some (0, w') \<and>
      cont w' = prog (cont w) (unat adr) (map buf [unat pos..<unat pos + unat len]) \<and> ready w'"
  using assms
proof (induction "unat len" arbitrary: w adr len pos rule: less_induct)
  case less
  have shift: "map (\<lambda>i. buf (unat pos + i)) [0..<n] = map buf [unat pos..<unat pos + n]" for n
    by (rule nth_equalityI) auto
  show ?case
  proof (cases "len < 65530")
    case True
    from dev_write_ok [OF less.prems(1,2), of "\<lambda>i. buf (unat pos + i)"] show ?thesis
      using True unfolding shift by (subst spi_flash_write_loop.simps) (auto simp: Let_def)
  next
    case False
    then have ge: "65530 \<le> unat len" by (simp add: word_less_nat_alt)
    have sub: "unat (len - 65530) = unat len - 65530" using ge by (simp add: unat_sub_if')
    have add: "unat (adr + 65530) = unat adr + 65530" "unat (pos + 65530) = unat pos + 65530"
      using less.prems(2,3) cap24 ge by (simp_all add: unat_word_ariths)
    from dev_write_ok [OF less.prems(1), of adr 65530 "\<lambda>i. buf (unat pos + i)"] less.prems(2) ge obtain w1 where
      w1: "dev_write B flash w adr 65530 (\<lambda>i. buf (unat pos + i)) = Some (0, w1)"
      "cont w1 = prog (cont w) (unat adr) (map buf [unat pos..<unat pos + 65530])" "ready w1"
      unfolding shift by auto
    show ?thesis
    proof (cases "len - 65530 = 0")
      case True
      then have "unat len = 65530" using sub ge by simp
      then show ?thesis
        using w1 True False by (subst spi_flash_write_loop.simps) (simp add: Let_def)
    next
      case nz: False
      have "\<exists>w'. spi_flash_write_loop B flash buf w1 (adr + 65530) (pos + 65530) (len - 65530) = Some (0, w') \<and>
          cont w' = prog (cont w1) (unat (adr + 65530)) (map buf [unat (pos + 65530)..<unat (pos + 65530) + unat (len - 65530)]) \<and> ready w'"
        by (rule less.hyps [OF _ w1(3)]) (use less.prems(2,3) ge sub add in auto)
      moreover have "[unat pos..<unat pos + unat len] =
          [unat pos..<unat pos + 65530] @ [unat pos + 65530..<unat pos + 65530 + (unat len - 65530)]"
        using ge upt_add_eq_append [of "unat pos" "unat pos + 65530" "unat len - 65530"] by simp
      ultimately show ?thesis
        using w1 False nz unfolding sub add
        by (subst spi_flash_write_loop.simps) (auto simp: Let_def prog_append)
    qed
  qed
qed

lemma spi_flash_read_ok:
  assumes "ready w" and "len \<noteq> 0" and "unat offset + unat len \<le> cap"
  shows "\<exists>w'. spi_flash_read B flash w offset len =
      Some (0, map (cont w) [unat offset..<unat offset + unat len], w') \<and> cont w' = cont w \<and> ready w'"
  using spi_flash_read_loop_ok [OF assms, of "[]"] by (simp add: spi_flash_read_def)

lemma spi_flash_write_ok:
  assumes "ready w" and "unat offset + unat len \<le> cap"
  shows "\<exists>w'. spi_flash_write B flash w offset len buf = Some (0, w') \<and>
      cont w' = prog (cont w) (unat offset) (map buf [0..<unat len]) \<and> ready w'"
  using spi_flash_write_loop_ok [OF assms, of 0 buf] unat_u32_less [of len] by (simp add: spi_flash_write_def)

end

text \<open>Both drivers give this interface, on a chip with 256 byte pages.\<close>

definition page_size_of :: "spi_flash \<Rightarrow> u32" where
  "page_size_of flash = (case driver flash of Spansion p \<Rightarrow> ucast (page_size p) | Stmicro p \<Rightarrow> ucast (st_page_size p))"

locale nor_device = nor_bus B V geom cap
  for B :: "'w spi_bus" and V and geom and cap +
  fixes flash :: spi_flash
  assumes page256: "page_size_of flash = 256"

sublocale nor_device \<subseteq> flash_dev B flash "content V" "\<lambda>w. busy V w = 0" cap
proof unfold_locales
  show "cap \<le> 2 ^ 24" using chip by (simp add: nor_chip_def)
next
  fix w and offset len :: u32
  assume "busy V w = 0" "len \<noteq> 0" "unat offset + unat len \<le> cap"
  moreover have "dev_read B flash w offset len = page_read B 256 w offset len"
    using page256 by (auto simp: dev_read_def page_size_of_def spansion_read_fast_def stmicro_read_fast_def
        split: flash_driver.splits)
  ultimately show "\<exists>w'. dev_read B flash w offset len =
      (0, map (content V w) [unat offset..<unat offset + unat len], w') \<and> content V w' = content V w \<and> busy V w' = 0"
    using page_read_ok [of w len offset] by (auto simp: steady_def)
next
  fix w and offset len :: u32 and buf
  assume "busy V w = 0" "unat offset + unat len \<le> cap"
  moreover have "dev_write B flash w offset len buf = page_write B 256 w offset len buf"
    using page256 by (auto simp: dev_write_def page_size_of_def spansion_write_def stmicro_write_def
        split: flash_driver.splits)
  ultimately show "\<exists>w'. dev_write B flash w offset len buf = Some (0, w') \<and>
      content V w' = prog (content V w) (unat offset) (map buf [0..<unat len]) \<and> busy V w' = 0"
    using page_write_ok [of w offset len buf] by simp
qed

context nor_device
begin

lemmas is_flash_dev = flash_dev_axioms

end

subsection \<open>A simulated chip\<close>

text \<open>A chip of 16 MiB that identifies itself as a N25Q128, with the commands for 64 KiB sectors and
  4 KiB subsectors.\<close>

record sim =
  s_mem :: "nat \<Rightarrow> u8"
  s_wel :: bool
  s_busy :: nat
  s_pend :: "u8 list"
  s_clock :: nat

definition sim_write :: "sim \<Rightarrow> u8 list \<Rightarrow> nat \<Rightarrow> sim" where
  "sim_write w bs flags =
     (if flags = 1 then w\<lparr>s_pend := bs\<rparr>
      else if flags = 2 then
        (case s_pend w of [cmd, a, b, c] \<Rightarrow>
           if cmd = 0x02 \<and> s_wel w then w\<lparr>s_mem := prog (s_mem w) (addr24 a b c) bs, s_wel := False, s_busy := 1\<rparr> else w
         | _ \<Rightarrow> w)
      else
        (case bs of [cmd] \<Rightarrow> if cmd = 0x06 then w\<lparr>s_wel := True\<rparr> else w
         | [cmd, a, b, c] \<Rightarrow>
             if (cmd = 0xd8 \<or> cmd = 0x20) \<and> s_wel w
             then w\<lparr>s_mem := erased (s_mem w) (addr24 a b c) (addr24 a b c + (if cmd = 0x20 then 4096 else 65536)),
                    s_wel := False, s_busy := 1\<rparr> else w
         | _ \<Rightarrow> w))"

definition sim_read :: "sim \<Rightarrow> nat \<Rightarrow> u8 list \<times> sim" where
  "sim_read w n =
     (case s_pend w of
        [cmd] \<Rightarrow> if cmd = 0x05 then ([if s_busy w = 0 then 0 else 1], w\<lparr>s_busy := s_busy w - 1\<rparr>)
                else ([0x20, 0xba, 0x18, 0x10, 0], w)
      | [cmd, a, b, c, d] \<Rightarrow> (map (s_mem w) [addr24 a b c..<addr24 a b c + n], w)
      | _ \<Rightarrow> ([], w))"

definition sim_bus :: "sim spi_bus" where
  "sim_bus = \<lparr>xsetup = (\<lambda>w _ _ _ _. (True, w)), xclaim = (\<lambda>w. (0, w)), xrelease = (\<lambda>w. w),
     xxfer = (\<lambda>w bitlen dout flags. case dout of
        Some bs \<Rightarrow> (0, [], sim_write w bs flags)
      | None \<Rightarrow> (let (d, w) = sim_read w (unat bitlen div 8) in (0, d, w))),
     xtimer = (\<lambda>w b. (of_nat (s_clock w) - b, w\<lparr>s_clock := s_clock w + 1\<rparr>)), xmalloc_ok = True\<rparr>"

definition sim_view :: "sim chip_view" where
  "sim_view = \<lparr>content = s_mem, wel = s_wel, busy = s_busy, clock = s_clock\<rparr>"

definition n25q128 :: spi_flash where
  "n25q128 = \<lparr>driver = Stmicro (stm 0xba18 256 256 ''N25Q128''), fl_size = 0x1000000\<rparr>"

definition blank_sim :: sim where
  "blank_sim = \<lparr>s_mem = (\<lambda>_. 0xff), s_wel = False, s_busy = 0, s_pend = [], s_clock = 0\<rparr>"

lemma sim_nor_chip: "nor_chip sim_bus sim_view (\<lambda>_. (0xd8, 2 ^ 16)) (2 ^ 24)"
  unfolding nor_chip_def
proof (intro conjI)
  show "bus_law sim_bus sim_view" "timer_law sim_bus sim_view" "wren_law sim_bus sim_view"
    "status_law sim_bus sim_view"
    by (auto simp: bus_law_def timer_law_def wren_law_def status_law_def steady_def sim_bus_def sim_view_def
        sim_write_def sim_read_def)
  show "program_law sim_bus sim_view (2 ^ 24)" "erase_law sim_bus sim_view (\<lambda>_. (0xd8, 2 ^ 16)) (2 ^ 24)"
    by (auto simp: program_law_def erase_law_def sim_bus_def sim_view_def sim_write_def)
  have "unat (n * 8) div 8 = unat n" if "x + unat n \<le> 2 ^ 24" for n :: u32 and x
    using that by (simp add: unat_word_ariths)
  then show "read_law sim_bus sim_view (2 ^ 24)"
    by (fastforce simp: read_law_def steady_def sim_bus_def sim_view_def sim_write_def sim_read_def)
qed simp

interpretation sim: nor_device sim_bus sim_view "\<lambda>_. (0xd8, 2 ^ 16)" "2 ^ 24" n25q128
  by (intro nor_device.intro nor_bus.intro nor_device_axioms.intro sim_nor_chip)
    (simp add: page_size_of_def n25q128_def stm_def)

lemma sim_probe: "spi_flash_probe sim_bus w bus cs hz md = (Some n25q128, w\<lparr>s_pend := [0x9f]\<rparr>)"
proof -
  have "spi_flash_probe_stmicro sim_bus [0x20, 0xba, 0x18, 0x10, 0] = Some n25q128" by code_simp
  then show ?thesis
    by (simp add: spi_flash_probe_def spi_flash_cmd_def sim_bus_def sim_write_def sim_read_def)
qed

section \<open>Properties\<close>

text \<open>The geometry of a chip with sectors of one size.\<close>

abbreviation (input) uniform :: "nat \<Rightarrow> nat \<Rightarrow> u8 \<times> nat" where
  "uniform k \<equiv> \<lambda>_. (0xd8, 2 ^ k)"

text \<open>C8: on a chip of the STMicro table, erasing a range of whole sectors, writing data to it and
  reading it back gives the data, through any number of pages, sectors and 65530 byte transfers;
  all three calls return 0, and no other byte of the chip changes.\<close>

theorem stmicro_erase_write_read:
  assumes "nor_chip B V (uniform k) cap" and "st_page_size p = 256"
    and "ucast (st_page_size p) * ucast (st_pages_per_sector p) = (2 ^ k :: u32)" and "k < 24"
    and "driver flash = Stmicro p" and "busy V w = 0"
    and "unat offset mod 2 ^ k = 0" and "unat len mod 2 ^ k = 0" and "len \<noteq> 0" and "unat offset + unat len \<le> cap"
  shows "\<exists>w1 w2 w3. spi_flash_erase B flash w offset len = Some (0, w1) \<and>
    spi_flash_write B flash w1 offset len buf = Some (0, w2) \<and>
    spi_flash_read B flash w2 offset len = Some (0, map buf [0..<unat len], w3) \<and>
    (\<forall>x. x < unat offset \<or> unat offset + unat len \<le> x \<longrightarrow> content V w3 x = content V w x)"
proof -
  have dev: "nor_device B V (uniform k) cap flash"
    using assms(1,2,5) by (intro nor_device.intro nor_bus.intro nor_device_axioms.intro) (simp_all add: page_size_of_def)
  note bus = nor_device.axioms(1) [OF dev]
  note fd = nor_device.is_flash_dev [OF dev]
  obtain w1 where w1: "spi_flash_erase B flash w offset len = Some (0, w1)"
    "content V w1 = erased (content V w) (unat offset) (unat offset + unat len)" "busy V w1 = 0"
    using nor_bus.stmicro_erase_ok [OF bus assms(6,3,4) _ assms(7-10)] assms(5) by (auto simp: spi_flash_erase_def)
  obtain w2 where w2: "spi_flash_write B flash w1 offset len buf = Some (0, w2)"
    "content V w2 = prog (content V w1) (unat offset) (map buf [0..<unat len])" "busy V w2 = 0"
    using flash_dev.spi_flash_write_ok [OF fd w1(3) assms(10), of buf] by auto
  obtain w3 where w3: "spi_flash_read B flash w2 offset len =
      Some (0, map (content V w2) [unat offset..<unat offset + unat len], w3)" "content V w3 = content V w2"
    using flash_dev.spi_flash_read_ok [OF fd w2(3) assms(9,10)] by auto
  have c: "content V w2 x = (if unat offset \<le> x \<and> x < unat offset + unat len then buf (x - unat offset) else content V w x)" for x
    unfolding w2(2) w1(2) by (subst prog_erased) (auto simp: erased_def)
  have "map (content V w2) [unat offset..<unat offset + unat len] = map buf [0..<unat len]"
    by (rule nth_equalityI) (simp_all add: c)
  then show ?thesis
    using w1(1) w2(1) w3 by (auto simp: c)
qed

theorem stmicro_erase_write_read_witness:
  "\<exists>w1 w2 w3. spi_flash_erase sim_bus n25q128 blank_sim 0x10000 0x20000 = Some (0, w1) \<and>
    spi_flash_write sim_bus n25q128 w1 0x10000 0x20000 (\<lambda>i. of_nat i) = Some (0, w2) \<and>
    spi_flash_read sim_bus n25q128 w2 0x10000 0x20000 = Some (0, map (\<lambda>i. of_nat i) [0..<131072], w3)"
  using stmicro_erase_write_read [OF sim_nor_chip, where p = "stm 0xba18 256 256 ''N25Q128''" and flash = n25q128
      and w = blank_sim and offset = "0x10000" and len = "0x20000" and buf = "\<lambda>i. of_nat i"]
  by (auto simp: n25q128_def stm_def sim_view_def blank_sim_def simp del: upt_conv_Cons upt_rec_numeral)

lemma take_bit_24_alias: "take_bit 24 (x + 0x1000000) = take_bit 24 (x :: u32)"
proof -
  have "(unat x + 2 ^ 24) mod 2 ^ 32 mod 2 ^ 24 = unat x mod 2 ^ 24"
    by (subst mod_mod_cancel) auto
  then show ?thesis
    by (simp add: word_unat_eq_iff unsigned_take_bit_eq take_bit_eq_mod unat_word_ariths)
qed

lemma bit_24_alias: "n < 24 \<Longrightarrow> bit (x + 0x1000000) n = bit (x :: u32) n"
  using take_bit_24_alias [of x] by (metis bit_take_bit_iff)

text \<open>The drivers send three address bytes.  An offset at or above 16 MiB therefore reads the bytes
  16 MiB below it: on the chips of 32 to 128 MiB in \<open>stmicro_spi_flash_table\<close> everything above the
  first 16 MiB is unreachable and aliases the first 16 MiB.\<close>

lemma dev_read_alias:
  assumes "page_size_of flash = 256"
  shows "dev_read B flash w (offset + 0x1000000) len = dev_read B flash w offset len"
proof -
  have d: "x div 256 = drop_bit 8 x" "x mod 256 = take_bit 8 x" for x :: u32
    by (simp_all add: drop_bit_eq_div take_bit_eq_mod)
  have "page_read B 256 w (offset + 0x1000000) len = page_read B 256 w offset len"
  proof -
    have "ucast (drop_bit 8 (drop_bit 8 (offset + 0x1000000))) = (ucast (drop_bit 8 (drop_bit 8 offset)) :: u8)"
      "ucast (drop_bit 8 (offset + 0x1000000)) = (ucast (drop_bit 8 offset) :: u8)"
      "ucast (take_bit 8 (offset + 0x1000000)) = (ucast (take_bit 8 offset) :: u8)"
      by (rule bit_word_eqI, simp add: bit_simps bit_24_alias del: drop_bit_drop_bit)+
    then show ?thesis unfolding page_read_def d by simp
  qed
  then show ?thesis
    using assms by (auto simp: dev_read_def page_size_of_def spansion_read_fast_def stmicro_read_fast_def
        split: flash_driver.splits)
qed

lemma dev_read_alias_example:
  "\<forall>w. dev_read sim_bus \<lparr>driver = Stmicro (stm 0xba19 256 512 ''N25Q256''), fl_size = 0x2000000\<rparr> w 0x1400000 16 =
   dev_read sim_bus \<lparr>driver = Stmicro (stm 0xba19 256 512 ''N25Q256''), fl_size = 0x2000000\<rparr> w 0x400000 16"
  using dev_read_alias [where flash = "\<lparr>driver = Stmicro (stm 0xba19 256 512 ''N25Q256''), fl_size = 0x2000000\<rparr>"
      and B = sim_bus and offset = "0x400000" and len = "16"]
  by (simp add: page_size_of_def stm_def)

subsection \<open>The end of a Spansion chip\<close>

definition s25fl128s :: spansion_spi_flash_params where
  "s25fl128s = (spsn 0x2018 0x4D01 [16, 256] [32, 254] ''S25FL128S_64K'')
     \<lparr>end_addr := [0x20000, 0x1000000], cmd_pe := 0x20\<rparr>"

lemma s25fl128s_probed:
  "spi_flash_probe_spansion sim_bus [0x01, 0x20, 0x18, 0x4D, 0x01] = Some \<lparr>driver = Spansion s25fl128s, fl_size = 0x1000000\<rparr>"
  by code_simp

definition s25fl128s_geom :: "nat \<Rightarrow> u8 \<times> nat" where
  "s25fl128s_geom a = (if a < 0x20000 then (0x20, 4096) else (0xd8, 65536))"

lemma s25fl128s_sec_size:
  "spansion_sec_size s25fl128s x = (if unat x < 0x20000 then 4096 else if unat x < 0x1000000 then 65536 else 0)"
  by (simp add: spansion_sec_size_def s25fl128s_def spsn_def word_less_nat_alt)

text \<open>C24: erasing a range that ends exactly at the end of the chip erases only its first sector and
  returns 0: \<open>spansion_sec_size\<close> is 0 there, so that \<open>end\<close> becomes 0 and the loop stops after one
  round.\<close>

theorem spansion_erase_to_end:
  assumes "nor_chip B V s25fl128s_geom cap" and "busy V w = 0" and "cap = 0x1000000"
    and "0x20000 \<le> unat offset" and "unat offset mod 65536 = 0" and "unat offset + unat len = 0x1000000" and "len \<noteq> 0"
  shows "\<exists>w'. spansion_erase B s25fl128s w offset len = Some (0, w') \<and>
    content V w' = erased (content V w) (unat offset) (unat offset + 65536)"
proof -
  have bus: "nor_bus B V s25fl128s_geom cap" by (rule nor_bus.intro [OF assms(1)])
  have lt: "unat offset < 0x1000000" using assms(6,7) by (metis add_cancel_right_right le_add1 le_neq_implies_less unat_eq_zero)
  have e: "offset + len = 0x1000000" using assms(6) by (simp add: word_unat_eq_iff unat_word_ariths)
  have m: "(65535 :: u32) = mask 16" by (simp add: mask_eq_exp_minus_1)
  have start: "offset AND NOT 65535 = offset"
    unfolding m by (rule align_down) (use assms(5) in \<open>simp add: take_bit_u32_0\<close>)
  let ?op = "\<lambda>pos. if spansion_sec_size s25fl128s pos = 4096 then cmd_pe s25fl128s else 0xd8"
  have run: "spansion_erase B s25fl128s w offset len = sector_erase B (spansion_sec_size s25fl128s) ?op w offset 0"
    using assms(4) lt start by (simp add: spansion_erase_def Let_def e s25fl128s_sec_size)
  let ?w = "snd (xclaim B w)"
  have C: "xclaim B w = (0, ?w)" "steady V w ?w"
    using nor_bus.claim_ok [OF bus, of w] by (auto simp: prod_eq_iff)
  have op: "?op offset = 0xd8" "s25fl128s_geom (unat offset) = (0xd8, 65536)"
    using assms(4) lt by (auto simp: s25fl128s_sec_size s25fl128s_geom_def)
  have "addr24 (ucast (drop_bit 16 (of_nat (unat offset) :: u32))) (ucast (drop_bit 8 (of_nat (unat offset) :: u32)))
      (ucast (of_nat (unat offset) :: u32)) = unat offset"
    by (rule nor_bus.addr24_pos [OF bus]) (use lt in simp)
  then have A: "addr24 (ucast (drop_bit 16 offset)) (ucast (drop_bit 8 offset)) (ucast offset) = unat offset"
    by simp
  obtain w1 where w1: "flash_op B ?w [0xd8, ucast (drop_bit 16 offset), ucast (drop_bit 8 offset), ucast offset] [] 5000 = Some (0, w1)"
    "content V w1 = erased (content V ?w) (unat offset) (unat offset + 65536)"
    using nor_bus.erase_ok [OF bus, of ?w "ucast (drop_bit 16 offset)" "ucast (drop_bit 8 offset)" "ucast offset" 5000,
        unfolded A op(2)] C(2) assms(2,3,5) lt by (auto simp: steady_def)
  have "sector_erase_loop B (spansion_sec_size s25fl128s) ?op ?w offset 0 = Some (0, w1)"
    using w1(1) op(1) by (subst sector_erase_loop.simps) (simp add: Let_def)
  then have "sector_erase B (spansion_sec_size s25fl128s) ?op w offset 0 = Some (0, xrelease B w1)"
    by (subst sector_erase_def, subst C(1)) simp
  then show ?thesis
    using run w1(2) C(2) nor_bus.claim_ok(3) [OF bus, of w1] by (auto simp: steady_def)
qed

lemma sim_nor_chip_s25fl128s: "nor_chip sim_bus sim_view s25fl128s_geom 0x1000000"
proof -
  have "erase_law sim_bus sim_view s25fl128s_geom 0x1000000"
    by (auto simp: erase_law_def sim_bus_def sim_view_def sim_write_def s25fl128s_geom_def)
  then show ?thesis using sim_nor_chip by (simp add: nor_chip_def)
qed

theorem spansion_erase_to_end_witness:
  "\<exists>w'. spansion_erase sim_bus s25fl128s (blank_sim\<lparr>s_mem := \<lambda>_. 0\<rparr>) 0x800000 0x800000 = Some (0, w') \<and>
     s_mem w' 0x800000 = 0xff \<and> s_mem w' 0x810000 = 0"
  using spansion_erase_to_end [OF sim_nor_chip_s25fl128s, where w = "blank_sim\<lparr>s_mem := \<lambda>_. 0\<rparr>"
      and offset = "0x800000" and len = "0x800000"]
  by (auto simp: sim_view_def blank_sim_def erased_def)

end
