(* ===== verification/EnvSf.thy ===== *)
theory EnvSf
  imports Env SpiFlash
begin

text \<open>
  The environment in SPI flash: \<^verbatim>\<open>common/env_sf.c\<close> and the parts of \<^verbatim>\<open>common/env_common.c\<close> and
  \<^verbatim>\<open>common/cmd_nvedit.c\<close> that call it.  The block in flash is the CRC, low byte first,
  and behind it the data; \<open>env_block\<close> reads the block in RAM as bytes and \<open>put_block\<close> replaces it.
\<close>

section \<open>Definitions\<close>

record 'w sys =
  ue :: ubenv
  hw :: 'w
  env_flash :: "spi_flash option"

definition env_block :: "ubenv \<Rightarrow> nat \<Rightarrow> u8" where
  "env_block st i = (if i < 4 then byte_of i (crc st) else of_char (env_data st (i - 4)))"

definition put_block :: "ubenv \<Rightarrow> (nat \<Rightarrow> u8) \<Rightarrow> ubenv" where
  "put_block st f = st\<lparr>crc := load32 f 0, env_data := \<lambda>i. char_of (unat (f (i + 4)))\<rparr>"

text \<open>The bytes that a read has stored at \<open>env_ptr\<close>.\<close>

definition load_block :: "ubenv \<Rightarrow> u8 list \<Rightarrow> ubenv" where
  "load_block st ds = put_block st (\<lambda>i. if i < length ds then ds ! i else env_block st i)"

definition saveenv :: "env_cfg \<Rightarrow> 'w spi_bus \<Rightarrow> 'w sys \<Rightarrow> (int \<times> 'w sys) option" where
  "saveenv cfg B s =
     (case env_flash s of None \<Rightarrow> Some (1, s)
      | Some flash \<Rightarrow>
          let sect = CONFIG_ENV_SECT_SIZE cfg; sz = CONFIG_ENV_SIZE cfg;
              saved_size = sect - sz; saved_offset = CONFIG_ENV_OFFSET cfg + sz;
              sector = (if sect < sz then sz div sect + (if sz mod sect \<noteq> 0 then 1 else 0) else 1)
          in if sz < sect \<and> \<not> xmalloc_ok B then Some (1, s)
             else do {
               (ret, saved, w) \<leftarrow> (if sz < sect then spi_flash_read B flash (hw s) (of_nat saved_offset) (of_nat saved_size)
                                 else Some (0, [], hw s));
               if ret \<noteq> 0 then Some (ret, s\<lparr>hw := w\<rparr>)
               else do {
                 (ret, w) \<leftarrow> spi_flash_erase B flash w (of_nat (CONFIG_ENV_OFFSET cfg)) (of_nat (sector * sect));
                 if ret \<noteq> 0 then Some (ret, s\<lparr>hw := w\<rparr>)
                 else do {
                   (ret, w) \<leftarrow> spi_flash_write B flash w (of_nat (CONFIG_ENV_OFFSET cfg)) (of_nat sz) (env_block (ue s));
                   if ret \<noteq> 0 then Some (ret, s\<lparr>hw := w\<rparr>)
                   else if sz < sect then do {
                     (ret, w) \<leftarrow> spi_flash_write B flash w (of_nat saved_offset) (of_nat saved_size) (\<lambda>i. saved ! i);
                     Some (ret, s\<lparr>hw := w\<rparr>) }
                   else Some (0, s\<lparr>hw := w\<rparr>) } } })"

definition do_saveenv :: "env_cfg \<Rightarrow> 'w spi_bus \<Rightarrow> 'w sys \<Rightarrow> (int \<times> 'w sys) option" where
  "do_saveenv cfg B s = map_option (\<lambda>(r, s). (if r \<noteq> 0 then 1 else 0, s)) (saveenv cfg B s)"

text \<open>The board's bus, chip select, clock and mode.\<close>

definition env_relocate_spec :: "env_cfg \<Rightarrow> 'w spi_bus \<Rightarrow> 'w sys \<Rightarrow> 'w sys option" where
  "env_relocate_spec cfg B s =
     (let (fl, w) = spi_flash_probe B (hw s) 0 0 25000000 3; s = s\<lparr>hw := w, env_flash := fl\<rparr> in
      case fl of
        None \<Rightarrow> Some (s\<lparr>ue := set_default_env cfg (ue s)\<rparr>)
      | Some flash \<Rightarrow> do {
          (ret, ds, w) \<leftarrow> spi_flash_read B flash w (of_nat (CONFIG_ENV_OFFSET cfg)) (of_nat (CONFIG_ENV_SIZE cfg));
          let s = s\<lparr>hw := w, ue := load_block (ue s) ds\<rparr>;
          if ret \<noteq> 0 then Some (s\<lparr>env_flash := None, ue := set_default_env cfg (ue s)\<rparr>)
          else if data_crc cfg (env_data (ue s)) \<noteq> crc (ue s)
          then Some (s\<lparr>ue := set_default_env cfg (ue s)\<rparr>)
          else Some (s\<lparr>ue := (ue s)\<lparr>env_valid := True\<rparr>\<rparr>) })"

definition env_init :: "ubenv \<Rightarrow> ubenv" where
  "env_init st = st\<lparr>env_addr := In_default, env_valid := True\<rparr>"

definition env_relocate :: "env_cfg \<Rightarrow> 'w spi_bus \<Rightarrow> 'w sys \<Rightarrow> 'w sys option" where
  "env_relocate cfg B s =
     map_option (\<lambda>s. s\<lparr>ue := (ue s)\<lparr>env_addr := In_env_ptr\<rparr>\<rparr>)
       (if \<not> env_valid (ue s) then Some (s\<lparr>ue := set_default_env cfg (ue s)\<rparr>)
        else env_relocate_spec cfg B s)"

section \<open>Lemmas\<close>

lemma load32_env_block: "load32 (env_block st) 0 = crc st"
  by (rule load32_bytes) (simp_all add: env_block_def numeral_2_eq_2 numeral_3_eq_3)

lemma char_env_block: "char_of (unat (env_block st (i + 4))) = env_data st i"
proof -
  have "unat (of_nat (of_char c) :: u8) = of_char c" for c
    by (simp only: unsigned_of_nat) (simp add: take_bit_eq_mod)
  then have "char_of (unat (of_char c :: u8)) = c" for c by (metis of_nat_of_char char_of_char)
  then show ?thesis by (simp add: env_block_def)
qed

lemma load_block_full:
  assumes "map f [0..<n] = ds" and "n = ENV_SIZE cfg + 4" and "\<And>i. i < n \<Longrightarrow> f i = env_block st' i"
  shows "crc (load_block st ds) = crc st'" "\<And>i. i < ENV_SIZE cfg \<Longrightarrow> env_data (load_block st ds) i = env_data st' i"
    "env_addr (load_block st ds) = env_addr st" "env_valid (load_block st ds) = env_valid st"
proof -
  define g where "g = (\<lambda>i. if i < length ds then ds ! i else env_block st i)"
  have g: "g i = env_block st' i" if "i < ENV_SIZE cfg + 4" for i
    using that assms by (auto simp: g_def)
  have "load32 g 0 = load32 (env_block st') 0"
    using g [of 0] g [of 1] g [of 2] g [of 3] by (simp add: load32_def numeral_2_eq_2 numeral_3_eq_3)
  then show "crc (load_block st ds) = crc st'"
    by (simp add: load_block_def put_block_def load32_env_block flip: g_def)
  fix i assume i: "i < ENV_SIZE cfg"
  have "char_of (unat (g (i + 4))) = char_of (unat (env_block st' (i + 4)))" using g [of "i + 4"] i by simp
  also have "\<dots> = env_data st' i"
    by (rule char_env_block)
  finally show "env_data (load_block st ds) i = env_data st' i" by (simp add: load_block_def put_block_def flip: g_def)
qed (simp_all add: load_block_def put_block_def)

lemma crc32_cong_data: "(\<And>i. i < ENV_SIZE cfg \<Longrightarrow> D i = D' i) \<Longrightarrow> data_crc cfg D = data_crc cfg D'"
  unfolding data_crc_def by (rule crc32_cong, rule bytes_at_cong) simp

section \<open>Properties\<close>

text \<open>The chip answers the probe with the same device, whatever state the bus is in.\<close>

definition identifies :: "'w spi_bus \<Rightarrow> 'w chip_view \<Rightarrow> spi_flash \<Rightarrow> bool" where
  "identifies B V flash \<longleftrightarrow> (\<forall>w. busy V w = 0 \<longrightarrow>
     (\<exists>w'. spi_flash_probe B w 0 0 25000000 3 = (Some flash, w') \<and> content V w' = content V w \<and> busy V w' = 0))"

text \<open>The geometry of the environment on a chip: whole sectors, and no other sector to save.\<close>

definition env_fits :: "env_cfg \<Rightarrow> nat \<Rightarrow> nat \<Rightarrow> bool" where
  "env_fits cfg k cap \<longleftrightarrow> CONFIG_ENV_SIZE cfg = CONFIG_ENV_SECT_SIZE cfg \<and> CONFIG_ENV_SIZE cfg mod 2 ^ k = 0 \<and>
     4 < CONFIG_ENV_SIZE cfg \<and> CONFIG_ENV_OFFSET cfg mod 2 ^ k = 0 \<and>
     CONFIG_ENV_OFFSET cfg + CONFIG_ENV_SIZE cfg \<le> cap"

text \<open>C6: \<open>saveenv\<close> on a working STMicro or Micron chip returns 0, and a boot from that chip (\<open>env_relocate\<close> from
  any RAM content \<open>boot\<close>) gives back the environment that was saved, with a valid CRC: every lookup
  answers as before.\<close>

theorem saveenv_relocate:
  assumes chip: "nor_chip B V (uniform k) cap" and p: "st_page_size p = 256"
    "ucast (st_page_size p) * ucast (st_pages_per_sector p) = (2 ^ k :: u32)" "k < 24" "driver flash = Stmicro p"
    and id: "identifies B V flash" and fits: "env_fits cfg k cap"
    and s: "env_flash s = Some flash" "busy V (hw s) = 0" "in_ram (ue s)" "crc_ok cfg (ue s)" "env_rep cfg (ue s) es"
    and boot: "env_valid boot"
  shows "\<exists>s1 s2. saveenv cfg B s = Some (0, s1) \<and>
    env_relocate cfg B \<lparr>ue = boot, hw = hw s1, env_flash = None\<rparr> = Some s2 \<and>
    in_ram (ue s2) \<and> crc_ok cfg (ue s2) \<and> env_rep cfg (ue s2) es \<and> env_flash s2 = Some flash"
proof -
  have dev: "nor_device B V (uniform k) cap flash"
    using chip p(1,4) by (intro nor_device.intro nor_bus.intro nor_device_axioms.intro) (simp_all add: page_size_of_def)
  note bus = nor_device.axioms(1) [OF dev] and fd = nor_device.is_flash_dev [OF dev]
  let ?off = "of_nat (CONFIG_ENV_OFFSET cfg) :: u32" and ?len = "of_nat (CONFIG_ENV_SIZE cfg) :: u32"
  have cap: "cap \<le> 2 ^ 24" using chip by (simp add: nor_chip_def)
  have un: "unat ?off = CONFIG_ENV_OFFSET cfg" "unat ?len = CONFIG_ENV_SIZE cfg"
    using fits cap by (auto intro!: unat_of_nat_u32 simp: env_fits_def)
  have geo: "unat ?off mod 2 ^ k = 0" "unat ?len mod 2 ^ k = 0" "?len \<noteq> 0" "unat ?off + unat ?len \<le> cap"
    using fits un by (auto simp: env_fits_def)
  obtain w1 where w1: "spi_flash_erase B flash (hw s) ?off ?len = Some (0, w1)"
    "content V w1 = erased (content V (hw s)) (unat ?off) (unat ?off + unat ?len)" "busy V w1 = 0"
    using nor_bus.stmicro_erase_ok [OF bus s(2) p(2,3) _ geo(1,2,3,4)] p(4) by (auto simp: spi_flash_erase_def)
  obtain w2 where w2: "spi_flash_write B flash w1 ?off ?len (env_block (ue s)) = Some (0, w2)"
    "content V w2 = prog (content V w1) (unat ?off) (map (env_block (ue s)) [0..<unat ?len])" "busy V w2 = 0"
    using flash_dev.spi_flash_write_ok [OF fd w1(3) geo(4), of "env_block (ue s)"] by auto
  obtain w3 where w3: "spi_flash_probe B w2 0 0 25000000 3 = (Some flash, w3)" "content V w3 = content V w2" "busy V w3 = 0"
    using id w2(3) unfolding identifies_def by blast
  obtain w4 where w4: "spi_flash_read B flash w3 ?off ?len =
      Some (0, map (content V w3) [unat ?off..<unat ?off + unat ?len], w4)"
    using flash_dev.spi_flash_read_ok [OF fd w3(3) geo(3,4)] by auto
  have c: "content V w3 (unat ?off + i) = env_block (ue s) i" if "i < unat ?len" for i
    unfolding w3(2) w2(2) w1(2) using that by (subst prog_erased) (auto simp: erased_def)
  define ds where "ds = map (content V w3) [unat ?off..<unat ?off + unat ?len]"
  have ds: "map (\<lambda>i. content V w3 (unat ?off + i)) [0..<unat ?len] = ds"
    by (rule nth_equalityI) (simp_all add: ds_def)
  have size: "unat ?len = ENV_SIZE cfg + 4" using fits un by (simp add: env_fits_def ENV_SIZE_def)
  note L = load_block_full [OF ds size c, where st = boot]
  have crc: "data_crc cfg (env_data (load_block boot ds)) = crc (load_block boot ds)"
    using L(1) crc32_cong_data [of cfg "env_data (load_block boot ds)" "env_data (ue s)", OF L(2)] s(4)
    by (simp add: crc_ok_def)
  let ?s1 = "s\<lparr>hw := w2\<rparr>"
  have save: "saveenv cfg B s = Some (0, ?s1)"
    using fits w1(1) w2(1) s(1) by (simp add: saveenv_def env_fits_def Let_def)
  let ?st = "(load_block boot ds)\<lparr>env_valid := True\<rparr>"
  have load: "env_relocate cfg B \<lparr>ue = boot, hw = hw ?s1, env_flash = None\<rparr> =
      Some \<lparr>ue = ?st\<lparr>env_addr := In_env_ptr\<rparr>, hw = w4, env_flash = Some flash\<rparr>"
    using w3(1) w4 crc boot by (simp add: env_relocate_def env_relocate_spec_def ds_def)
  have ram: "in_ram (?st\<lparr>env_addr := In_env_ptr\<rparr>)" by (simp add: in_ram_def)
  have "env_rep cfg (?st\<lparr>env_addr := In_env_ptr\<rparr>) es"
    using s(5) L(2) in_ram_get_char [OF s(3)] in_ram_get_char [OF ram]
    by (auto simp: env_rep_def layout_def text_at_iff nth_append)
  then show ?thesis
    using save load ram crc by (intro exI) (auto simp: crc_ok_def)
qed

definition big_cfg :: env_cfg where
  "big_cfg = sample_cfg\<lparr>CONFIG_ENV_SIZE := 65536, CONFIG_ENV_SECT_SIZE := 65536, CONFIG_ENV_OFFSET := 65536\<rparr>"

definition sample_sys :: "sim sys" where
  "sample_sys = \<lparr>ue = env_crc_update big_cfg (sample_env sample_defs), hw = blank_sim, env_flash = Some n25q128\<rparr>"

lemma sample_sys_rep: "env_rep big_cfg (ue sample_sys) sample_defs"
proof -
  have "ENV_SIZE sample_cfg \<le> ENV_SIZE big_cfg" by (simp add: ENV_SIZE_def sample_cfg_def big_cfg_def)
  then show ?thesis using sample_rep by (auto simp: env_rep_def sample_sys_def)
qed

theorem saveenv_relocate_witness:
  "\<exists>s1 s2. saveenv big_cfg sim_bus sample_sys = Some (0, s1) \<and>
    env_relocate big_cfg sim_bus \<lparr>ue = sample_env [], hw = hw s1, env_flash = None\<rparr> = Some s2 \<and>
    env_rep big_cfg (ue s2) sample_defs"
proof -
  have "identifies sim_bus sim_view n25q128"
    by (auto simp: identifies_def sim_probe sim_view_def)
  moreover have "env_fits big_cfg 16 (2 ^ 24)"
    by (simp add: env_fits_def big_cfg_def)
  moreover have "env_flash sample_sys = Some n25q128" "busy sim_view (hw sample_sys) = 0" "in_ram (ue sample_sys)"
    "crc_ok big_cfg (ue sample_sys)" "env_valid (sample_env [])"
    by (simp_all add: sample_sys_def sim_view_def blank_sim_def sample_in_ram) (simp add: sample_env_def)
  moreover have "driver n25q128 = Stmicro (stm 0xba18 256 256 ''N25Q128'')"
    "st_page_size (stm 0xba18 256 256 ''N25Q128'') = 256" "st_pages_per_sector (stm 0xba18 256 256 ''N25Q128'') = 256"
    by (simp_all add: n25q128_def stm_def)
  ultimately show ?thesis
    using saveenv_relocate [OF sim_nor_chip, where p = "stm 0xba18 256 256 ''N25Q128''" and flash = n25q128
        and cfg = big_cfg and s = sample_sys and es = sample_defs and boot = "sample_env []"] sample_sys_rep
    by fastforce
qed

text \<open>C22: when the chip does not answer, when it cannot be read, or when the CRC of what was read does
  not match, \<open>env_relocate\<close> leaves the built-in default environment in RAM, with a valid CRC (if the
  default fits, that is if it was not left out of the build).\<close>

theorem env_relocate_default:
  assumes "env_relocate cfg B s = Some s'" and "env_valid (ue s)"
    and "length (default_environment cfg) + 1 \<le> ENV_SIZE cfg"
    and bad: "case spi_flash_probe B (hw s) 0 0 25000000 3 of
       (None, _) \<Rightarrow> True
     | (Some flash, w) \<Rightarrow> (case spi_flash_read B flash w (of_nat (CONFIG_ENV_OFFSET cfg)) (of_nat (CONFIG_ENV_SIZE cfg)) of
           Some (ret, ds, _) \<Rightarrow> ret \<noteq> 0 \<or> \<not> crc_ok cfg (load_block (ue s) ds)
         | None \<Rightarrow> True)"
  shows "in_ram (ue s') \<and> crc_ok cfg (ue s') \<and>
    (\<forall>i<ENV_SIZE cfg. env_data (ue s') i =
       (if i < length (default_environment cfg) + 1 then env_default (ue s) i else NUL))"
proof -
  have def: "env_default (load_block st ds) = env_default st" for st ds
    by (simp add: load_block_def put_block_def)
  obtain t where t: "env_relocate_spec cfg B s = Some t" "s' = t\<lparr>ue := (ue t)\<lparr>env_addr := In_env_ptr\<rparr>\<rparr>"
    using assms(1,2) by (auto simp: env_relocate_def)
  have "\<exists>st. ue t = set_default_env cfg st \<and> env_default st = env_default (ue s)"
    using t(1) bad
    by (fastforce simp: env_relocate_spec_def Let_def def crc_ok_def bind_eq_Some_conv
        split: prod.splits option.splits if_splits)
  then show ?thesis
    using t(2) assms(3) by (auto simp: set_default_env_def in_ram_def crc_ok_def env_crc_update_def)
qed

theorem env_relocate_default_witness:
  "case env_relocate sample_cfg (sim_bus\<lparr>xsetup := \<lambda>w _ _ _ _. (False, w)\<rparr>)
      \<lparr>ue = sample_env sample_defs, hw = blank_sim, env_flash = None\<rparr> of
     Some s' \<Rightarrow> env_data (ue s') 0 = CHR ''a'' | None \<Rightarrow> False"
proof -
  let ?B = "sim_bus\<lparr>xsetup := \<lambda>w _ _ _ _. (False, w)\<rparr>" and
    ?s = "\<lparr>ue = sample_env sample_defs, hw = blank_sim, env_flash = None\<rparr>"
  have P: "spi_flash_probe ?B blank_sim 0 0 25000000 3 = (None, blank_sim)"
    by (simp add: spi_flash_probe_def)
  have S: "env_valid (sample_env sample_defs)" by (simp add: sample_env_def)
  then obtain s' where s': "env_relocate sample_cfg ?B ?s = Some s'"
    using P by (auto simp: env_relocate_def env_relocate_spec_def)
  have "\<forall>i<ENV_SIZE sample_cfg. env_data (ue s') i =
      (if i < length (default_environment sample_cfg) + 1 then env_default (sample_env sample_defs) i else NUL)"
    using env_relocate_default [OF s'] P S by (simp add: sample_cfg_def ENV_SIZE_def)
  then have "env_data (ue s') 0 = CHR ''a''"
    by (simp add: sample_cfg_def ENV_SIZE_def sample_env_def bytes_of_def)
  then show ?thesis by (simp add: s')
qed

end
