(* ===== verification/Volkh.thy ===== *)
theory Volkh
  imports EnvSf
begin

text \<open>
  The board: the constants of \<^verbatim>\<open>include/configs/m2s-volkh.h\<close> the components depend on, and the
  default environment that \<^verbatim>\<open>common/env_common.c\<close> builds from them.
\<close>

section \<open>Definitions\<close>

abbreviation (input) dq :: char where "dq \<equiv> CHR 0x22"

text \<open>\<open>default_environment\<close> as a list of definitions, in the order of the initialiser.\<close>

definition volkh_defs :: "(string \<times> string) list" where
  "volkh_defs = [
     (''bootcmd'', ''run normalboot; run backupboot''),
     (''bootdelay'', ''3''),
     (''baudrate'', ''115200''),
     (''ethaddr'', ''C0:B1:3C:83:83:83''),
     (''ipaddr'', ''192.168.0.10''),
     (''serverip'', ''192.168.0.50''),
     (''gatewayip'', ''192.168.0.50''),
     (''netmask'', ''255.255.255.0''),
     (''hostname'', ''m2s-volkh''),
     (''loadaddr'', ''0xA0007FC0''),
     (''addip'', ''setenv bootargs ${bootargs} ip=${ipaddr}:${serverip}:'' @
        ''${gatewayip}:${netmask}:${hostname}:eth0:off''),
     (''altbootcmd'', ''run backupboot''),
     (''backupboot'', ''setenv spioffset ${backupoffset}; setenv spisize ${backupsize}; run flashboot; echo '' @
        [dq] @ ''Failed backup boot! Resetting...'' @ [dq] @ ''; reset''),
     (''backupoffset'', ''0x0020000''),
     (''backupsize'', ''0x07E0000''),
     (''backupimage'', ''horus_safe.uImage''),
     (''bootcountaddr'', ''0x300003F8''),
     (''bootlimit'', ''3''),
     (''bootmcmd'', ''run getfpgainfo setargs addip; bootm''),
     (''flashboot'', ''echo '' @ [dq] @ ''Booting from SPI flash @ ${spioffset}'' @ [dq] @
        ''; run spiprobe; sf read ${loadaddr} ${spioffset} ${spisize}; run bootmcmd''),
     (''fpgaupdate'', ''if itest *${fpgaupdateaddr} == ${fpgaupdatevalu}; then mw.l ${fpgaupdateaddr} 0; '' @
        ''if mss iapauth; then run rstbootcnt; mss iapprog; else boot; fi; fi''),
     (''fpgaupdateaddr'', ''0x2000FFF4''),
     (''fpgaupdatevalu'', ''0xcda7fd9a''),
     (''getbootcnt'', ''md.l ${bootcountaddr} 1''),
     (''getfpgainfo'', ''mss getusr fpgausrcode; mss getver fpgaversion''),
     (''iapaddr'', ''0x1400000''),
     (''imagename'', ''horus.uImage''),
     (''imageupdate'', ''run netload; if test ${spisize} -le ${partsize}; then run spiupdate; else echo '' @
        [dq] @ ''File too large!'' @ [dq] @ ''; fi''),
     (''netboot'', ''run netload; run bootmcmd''),
     (''netload'', ''tftp ${loadaddr} ${imagename}; setenv spisize 0x${filesize}''),
     (''netupdate'', ''run updatenormal''),
     (''normalboot'', ''run fpgaupdate; setenv spioffset ${normaloffset}; setenv spisize ${normalsize}; '' @
        ''run flashboot; echo '' @ [dq] @ ''Failed normal boot!'' @ [dq]),
     (''normaloffset'', ''0x0800000''),
     (''normalsize'', ''0x0800000''),
     (''normalimage'', ''horus.uImage''),
     (''platform'', ''m2s-volkh''),
     (''rstbootcnt'', ''mw.l ${bootcountaddr} 0''),
     (''setargs'', ''setenv bootargs m2s_platform=${platform}:${sysref} m2s_fpgainfo=${fpgausrcode}:${fpgaversion} '' @
        ''console=ttyS0,${baudrate} panic=10''),
     (''spiprobe'', ''sf probe 0''),
     (''spiupdate'', ''run spiprobe; sf erase ${spioffset} ${spisize}; sf write ${loadaddr} ${spioffset} ${spisize}''),
     (''sysref'', ''100000000''),
     (''updatebackup'', ''setenv spioffset ${backupoffset}; setenv partsize ${backupsize}; '' @
        ''setenv imagename ${backupimage}; run imageupdate''),
     (''updatenormal'', ''setenv spioffset ${normaloffset}; setenv partsize ${normalsize}; '' @
        ''setenv imagename ${normalimage}; run imageupdate'')]"

definition volkh_cfg :: env_cfg where
  "volkh_cfg = \<lparr>CONFIG_ENV_SIZE = 0x10000, CONFIG_ENV_SECT_SIZE = 0x10000, CONFIG_ENV_OFFSET = 0x10000,
     baudrate_table = [9600, 19200, 38400, 57600, 115200],
     default_environment = flat volkh_defs @ [NUL]\<rparr>"

section \<open>Lemmas\<close>

lemma volkh_wf: "wf_defs volkh_defs"
  by code_simp

lemma volkh_size: "length (flat volkh_defs) + 2 \<le> 4096"
  by code_simp

text \<open>The state after \<open>set_default_env\<close>, once \<open>gd->env_addr\<close> points to the block in RAM.\<close>

lemma set_default_env_volkh:
  assumes "env_default st = bytes_of (default_environment volkh_cfg)"
  defines "st' \<equiv> (set_default_env volkh_cfg st)\<lparr>env_addr := In_env_ptr\<rparr>"
  shows "env_rep volkh_cfg st' volkh_defs" "in_ram st'" "crc_ok volkh_cfg st'"
proof -
  have size: "ENV_SIZE volkh_cfg = 65532" by (simp add: ENV_SIZE_def volkh_cfg_def)
  have denv: "default_environment volkh_cfg = flat volkh_defs @ [NUL]" by (simp add: volkh_cfg_def)
  have big: "\<not> 65532 < length (default_environment volkh_cfg) + 1" using volkh_size by (simp add: denv)
  show ram: "in_ram st'" and "crc_ok volkh_cfg st'"
    using big by (simp_all add: st'_def set_default_env_def size in_ram_def crc_ok_def env_crc_update_def)
  have "env_data st' i = (flat volkh_defs @ [NUL]) ! i" if "i < length (flat volkh_defs) + 1" for i
    using that big assms(1) by (simp add: st'_def set_default_env_def size env_crc_update_def bytes_of_def denv)
  moreover have "volkh_defs \<noteq> []" by (simp add: volkh_defs_def)
  ultimately show "env_rep volkh_cfg st' volkh_defs"
    using volkh_wf volkh_size in_ram_get_char [OF ram]
    by (auto simp: env_rep_def size layout_def text_at_iff nth_append simp del: text_at_append)
qed

section \<open>Properties\<close>

text \<open>The default environment of the board fits into the block; after \<open>set_default_env\<close> every
  variable of the board's configuration has its value, the CRC is valid, and no other variable
  is defined: in particular there is an \<open>iapaddr\<close> and no \<open>iap_addr\<close>.\<close>

lemma volkh_default_env:
  assumes "env_default st = bytes_of (default_environment volkh_cfg)" and "name_ok name"
  defines "st' \<equiv> (set_default_env volkh_cfg st)\<lparr>env_addr := In_env_ptr\<rparr>"
  shows "getenv_str volkh_cfg st' name = Some (map_of volkh_defs name) \<and> crc_ok volkh_cfg st' \<and>
    map_of volkh_defs ''iapaddr'' = Some ''0x1400000'' \<and> map_of volkh_defs ''iap_addr'' = None"
  using getenv_str_map_of [OF set_default_env_volkh(1) [OF assms(1)] assms(2)] set_default_env_volkh(3) [OF assms(1)]
  by (simp add: st'_def volkh_defs_def)

lemma volkh_default_env_example:
  "getenv_str volkh_cfg ((set_default_env volkh_cfg
      ((sample_env [])\<lparr>env_default := bytes_of (default_environment volkh_cfg)\<rparr>))\<lparr>env_addr := In_env_ptr\<rparr>) ''bootlimit''
    = Some (Some ''3'')"
  using volkh_default_env [of "(sample_env [])\<lparr>env_default := bytes_of (default_environment volkh_cfg)\<rparr>" "''bootlimit''"]
  by (simp add: name_ok_def volkh_defs_def)

end
