(* ===== verification/Mss.thy ===== *)
theory Mss
  imports Volkh
begin

text \<open>
  The \<^verbatim>\<open>mss\<close> command of the board (\<^verbatim>\<open>cpu/arm_cortexm3/m2s/cmd_mss.c\<close>): it reads the serial
  number, user code and design version of the FPGA through the system services of the chip
  and stores them in variables, and it starts the in-application programming of an image in
  SPI flash.  The system services and the interrupt flag are parameters, as is the SPI bus;
  the command's messages are collected in \<open>m_out\<close>.
\<close>

section \<open>Definitions\<close>

text \<open>The services (\<^verbatim>\<open>mss_sys_services.c\<close>, the driver of the chip's vendor): a status and, for the queries, the
  bytes they store.  Each sends a request to the system controller and waits in a loop without a timeout
  until an interrupt has brought the answer; None means that it never comes, as after a program request,
  which ends with a reset of the processor.\<close>

record 'w mss_services =
  MSS_SYS_init :: "'w \<Rightarrow> 'w"
  MSS_SYS_get_serial_number :: "'w \<Rightarrow> (int \<times> u8 list \<times> 'w) option"
  MSS_SYS_get_user_code :: "'w \<Rightarrow> (int \<times> u8 list \<times> 'w) option"
  MSS_SYS_get_design_version :: "'w \<Rightarrow> (int \<times> u8 list \<times> 'w) option"
  MSS_SYS_initiate_iap :: "'w \<Rightarrow> nat \<Rightarrow> u32 \<Rightarrow> (int \<times> 'w) option"
  enable_irq :: "'w \<Rightarrow> 'w"
  disable_irq :: "'w \<Rightarrow> 'w"

record 'w mss =
  m_env :: ubenv
  m_hw :: 'w
  g_mss_sys_init_called :: bool
  m_out :: string

datatype mss_op_enum = MSS_OP_NONE | MSS_OP_INVALID | MSS_OP_GETSER | MSS_OP_GETUSR | MSS_OP_GETVER
  | MSS_OP_IAPAUTH | MSS_OP_IAPPROG | MSS_OP_IAPVERI

abbreviation (input) MSS_SUCCESS :: int where "MSS_SUCCESS \<equiv> 0"
abbreviation (input) MSS_FAILURE :: int where "MSS_FAILURE \<equiv> 1"
abbreviation (input) MSS_SYS_SUCCESS :: int where "MSS_SYS_SUCCESS \<equiv> 0"
abbreviation (input) MSS_SYS_PROG_AUTHENTICATE :: nat where "MSS_SYS_PROG_AUTHENTICATE \<equiv> 0"
abbreviation (input) MSS_SYS_PROG_PROGRAM :: nat where "MSS_SYS_PROG_PROGRAM \<equiv> 1"
abbreviation (input) MSS_SYS_PROG_VERIFY :: nat where "MSS_SYS_PROG_VERIFY \<equiv> 2"
abbreviation (input) CONFIG_ENV_FPGA_UPDATE_OFFSET :: u32 where "CONFIG_ENV_FPGA_UPDATE_OFFSET \<equiv> 0x1400000"
abbreviation (input) nl :: string where "nl \<equiv> [CHR 0x0A]"

definition iap_cmd_str :: "string list" where
  "iap_cmd_str = [''authentication'', ''programming'', ''verification'']"

text \<open>The message tables; the gaps of the initialisers are NULL.\<close>

definition iap_auth_err_str :: "string option list" where
  "iap_auth_err_str = [None, Some ''CHAINING_MISMATCH'', Some ''UNEXPECTED_DATA_RECEIVED'',
     Some ''INVALID_ENCRYPTION_KEY'', Some ''INVALID_COMPONENT_HEADER'', Some ''BACK_LEVEL_NOT_SATISFIED'',
     None, Some ''DSN_BINDING_MISMATCH'', Some ''ILLEGAL_COMPONENT_SEQUENCE'',
     Some ''INSUFFICIENT_DEV_CAPABILITIES'', Some ''INCORRECT_DEVICE_ID'',
     Some ''UNSUPPORTED_BITSTREAM_PROT_VER'', Some ''VERIFY_NOT_PERMITTED_ON_BITSTR'',
     Some ''INVALID_DEVICE_CERTIFICATE'']"

definition iap_prog_err_str :: "string option list" where
  "iap_prog_err_str = [None, Some ''NVM_VERIFY_FAILED'', Some ''DEVICE_SECURITY_PROTECTED'',
     Some ''PROGRAMMING_MODE_NOT_ENABLED'', Some ''ENVM_PROGRAMMING_OPERATION_FAIL'',
     Some ''ENVM_VERIFY_OPERATION_FAIL'', Some ''ACCESS_ERROR'', Some ''PUF_ACCESS_ERROR'',
     Some ''BAD_COMPONENT'']"

definition mss_printf :: "string \<Rightarrow> va list \<Rightarrow> 'w mss \<Rightarrow> 'w mss option" where
  "mss_printf fmt args st = map_option (\<lambda>s. st\<lparr>m_out := m_out st @ s\<rparr>) (sprintf fmt args)"

definition argv_printf :: "string list \<Rightarrow> string \<Rightarrow> va list \<Rightarrow> 'w mss \<Rightarrow> 'w mss option" where
  "argv_printf argv fmt args st =
     mss_printf (''%s %s: '' @ fmt) (VStr (Some (argv ! 0)) # VStr (Some (argv ! 1)) # args) st"

definition mss_init_once :: "'w mss_services \<Rightarrow> 'w mss \<Rightarrow> 'w mss" where
  "mss_init_once S st =
     (if g_mss_sys_init_called st then st
      else st\<lparr>g_mss_sys_init_called := True, m_hw := MSS_SYS_init S (m_hw st)\<rparr>)"

text \<open>The value of a query, in a variable or on the console.\<close>

definition mss_store :: "env_cfg \<Rightarrow> string \<Rightarrow> string \<Rightarrow> 'w mss \<Rightarrow> 'w mss option" where
  "mss_store cfg varname val st =
     map_option (\<lambda>(_, e). st\<lparr>m_env := e\<rparr>) (setenv cfg (m_env st) varname (Some val))"

definition mss_get_serial :: "env_cfg \<Rightarrow> 'w mss_services \<Rightarrow> 'w mss \<Rightarrow> string list \<Rightarrow> (int \<times> 'w mss) option" where
  "mss_get_serial cfg S st argv =
     (let st = mss_init_once S st in do {
        (status, serial, w) \<leftarrow> MSS_SYS_get_serial_number S (enable_irq S (m_hw st));
        let st = st\<lparr>m_hw := disable_irq S w\<rparr>;
        let word = (\<lambda>k. VInt (load32 (\<lambda>i. serial ! i) (4 * k)));
        if status = MSS_SYS_SUCCESS then do {
           serial_str \<leftarrow> sprintf ''0x%08x%08x%08x%08x'' [word 3, word 2, word 1, word 0];
           st \<leftarrow> (if 2 < length argv then mss_store cfg (argv ! 2) serial_str st
                 else mss_printf (''serial-num=%s'' @ nl) [VStr (Some serial_str)] st);
           Some (status, st) }
         else do {
           st \<leftarrow> argv_printf argv (''Error getting serial number! status=%d'' @ nl) [VInt (of_int status)] st;
           Some (status, st) } })"

definition mss_get_usercode :: "env_cfg \<Rightarrow> 'w mss_services \<Rightarrow> 'w mss \<Rightarrow> string list \<Rightarrow> (int \<times> 'w mss) option" where
  "mss_get_usercode cfg S st argv =
     (let st = mss_init_once S st in do {
        (status, ucode, w) \<leftarrow> MSS_SYS_get_user_code S (enable_irq S (m_hw st));
        let st = st\<lparr>m_hw := disable_irq S w\<rparr>;
        if status = MSS_SYS_SUCCESS then do {
           ucode_str \<leftarrow> sprintf ''0x%08x'' [VInt (load32 (\<lambda>i. ucode ! i) 0)];
           st \<leftarrow> (if 2 < length argv then mss_store cfg (argv ! 2) ucode_str st
                 else mss_printf (''user-code=%s('' @ [dq] @ ''%c%c%c%c'' @ [dq] @ '')'' @ nl)
                        [VStr (Some ucode_str), VInt (ucast (ucode ! 3)), VInt (ucast (ucode ! 2)),
                         VInt (ucast (ucode ! 1)), VInt (ucast (ucode ! 0))] st);
           Some (status, st) }
         else do {
           st \<leftarrow> argv_printf argv (''Error getting user code! status=%d'' @ nl) [VInt (of_int status)] st;
           Some (status, st) } })"

definition mss_get_version :: "env_cfg \<Rightarrow> 'w mss_services \<Rightarrow> 'w mss \<Rightarrow> string list \<Rightarrow> (int \<times> 'w mss) option" where
  "mss_get_version cfg S st argv =
     (let st = mss_init_once S st in do {
        (status, version, w) \<leftarrow> MSS_SYS_get_design_version S (enable_irq S (m_hw st));
        let st = st\<lparr>m_hw := disable_irq S w\<rparr>;
        if status = MSS_SYS_SUCCESS then do {
           ver_str \<leftarrow> sprintf ''%u'' [VInt (ucast (be16 (version ! 1) (version ! 0)))];
           st \<leftarrow> (if 2 < length argv then mss_store cfg (argv ! 2) ver_str st
                 else mss_printf (''fpga-version=%s'' @ nl) [VStr (Some ver_str)] st);
           Some (status, st) }
         else do {
           st \<leftarrow> argv_printf argv (''Error getting design version! status=%d'' @ nl) [VInt (of_int status)] st;
           Some (status, st) } })"

text \<open>The address in SPI flash that \<open>mss_iap_cmd\<close> hands to the service.\<close>

definition mss_iap_addr :: "env_cfg \<Rightarrow> ubenv \<Rightarrow> string list \<Rightarrow> u32 option" where
  "mss_iap_addr cfg e argv =
     do { addrstr \<leftarrow> getenv_str cfg e ''iap_addr'';
          Some (if 2 < length argv then fst (simple_strtoul (argv ! 2) 0)
                else (case addrstr of Some s \<Rightarrow> fst (simple_strtoul s 16) | None \<Rightarrow> CONFIG_ENV_FPGA_UPDATE_OFFSET)) }"

text \<open>The message for the status of the service, and the status returned.\<close>

definition mss_iap_report :: "string list \<Rightarrow> nat \<Rightarrow> int \<Rightarrow> 'w mss \<Rightarrow> (int \<times> 'w mss) option" where
  "mss_iap_report argv iap_cmd status st =
     (if 128 < status then
        (if 136 < status
         then map_option (Pair status) (argv_printf argv (''Unknown programming error! status=%d'' @ nl) [VInt (of_int status)] st)
         else map_option (Pair status) (argv_printf argv (''Programming error: MSS_SYS_%s'' @ nl)
                [VStr (iap_prog_err_str ! nat (status - 128))] st))
      else if 0 < status then
        (if 13 < status
         then map_option (Pair status) (argv_printf argv (''Unknown authentication error! status=%d'' @ nl) [VInt (of_int status)] st)
         else map_option (Pair status) (argv_printf argv (''Authentication error: MSS_SYS_%s'' @ nl)
                [VStr (iap_auth_err_str ! nat status)] st))
      else if status = 0 then
        (if iap_cmd = MSS_SYS_PROG_AUTHENTICATE
         then map_option (Pair status) (argv_printf argv (''Authentication success!'' @ nl) [] st)
         else if iap_cmd = MSS_SYS_PROG_PROGRAM
         then map_option (Pair MSS_FAILURE) (argv_printf argv (''Programming success, but should not be here!!!'' @ nl) [] st)
         else if iap_cmd = MSS_SYS_PROG_VERIFY
         then map_option (Pair status) (argv_printf argv (''Verification success!'' @ nl) [] st)
         else map_option (Pair status) (argv_printf argv (''Unsupported IAP command (%d)!'' @ nl) [VInt (of_nat iap_cmd)] st))
      else map_option (Pair status) (argv_printf argv (''Unknown problem! Negative status=%d'' @ nl) [VInt (of_int status)] st))"

text \<open>Freeing the slave structure changes nothing the model shows.\<close>

definition mss_iap_cmd ::
    "env_cfg \<Rightarrow> 'w spi_bus \<Rightarrow> 'w mss_services \<Rightarrow> 'w mss \<Rightarrow> string list \<Rightarrow> nat \<Rightarrow> (int \<times> 'w mss) option" where
  "mss_iap_cmd cfg B S st argv iap_cmd =
     do { iap_addr \<leftarrow> mss_iap_addr cfg (m_env st) argv;
          st \<leftarrow> argv_printf argv (''Starting IAP %s at offset 0x%x...'' @ nl)
                 [VStr (Some (iap_cmd_str ! iap_cmd)), VInt iap_addr] st;
          (let (ok, w) = xsetup B (m_hw st) 0 0 25000000 3; st = st\<lparr>m_hw := w\<rparr> in
          if \<not> ok then map_option (Pair MSS_FAILURE) (argv_printf argv (''Failed to setup spi_slave'' @ nl) [] st)
          else (let (status, w) = xclaim B (m_hw st); st = st\<lparr>m_hw := w\<rparr> in
            if status \<noteq> 0
            then map_option (Pair status) (argv_printf argv (''Failed to claim SPI bus: %d'' @ nl) [VInt (of_int status)] st)
            else (let (status, idcode, w) = xxfer B (m_hw st) 48 (Some [0x9f, 0, 0, 0, 0, 0]) 3; st = st\<lparr>m_hw := w\<rparr> in
              map_option (\<lambda>(status, st). (status, st\<lparr>m_hw := xrelease B (m_hw st)\<rparr>))
                (if status \<noteq> 0
                 then map_option (Pair status) (argv_printf argv (''Failed to read flash ID: %d'' @ nl) [VInt (of_int status)] st)
                 else let st = mss_init_once S st in do {
                   (status, w) \<leftarrow> MSS_SYS_initiate_iap S (enable_irq S (m_hw st)) iap_cmd iap_addr;
                   let st = st\<lparr>m_hw := disable_irq S w\<rparr>;
                   mss_iap_report argv iap_cmd status st })))) }"

definition mss_decode_op :: "string \<Rightarrow> mss_op_enum" where
  "mss_decode_op opstr =
     (if opstr = ''getser'' then MSS_OP_GETSER
      else if opstr = ''getusr'' then MSS_OP_GETUSR
      else if opstr = ''getver'' then MSS_OP_GETVER
      else if opstr = ''iapauth'' then MSS_OP_IAPAUTH
      else if opstr = ''iapprog'' then MSS_OP_IAPPROG
      else if opstr = ''iapveri'' then MSS_OP_IAPVERI
      else MSS_OP_INVALID)"

text \<open>\<open>usage\<close> is the text of \<open>cmd_usage\<close>.\<close>

definition do_mss ::
    "env_cfg \<Rightarrow> 'w spi_bus \<Rightarrow> 'w mss_services \<Rightarrow> string \<Rightarrow> 'w mss \<Rightarrow> string list \<Rightarrow> (int \<times> 'w mss) option" where
  "do_mss cfg B S usage st argv =
     (case (if 1 < length argv then mss_decode_op (argv ! 1) else MSS_OP_NONE) of
        MSS_OP_NONE \<Rightarrow>
          do { st \<leftarrow> mss_printf (''%s: too few args (%d)'' @ nl) [VStr (Some (argv ! 0)), VInt (of_nat (length argv))] st;
               Some (MSS_FAILURE, st\<lparr>m_out := m_out st @ usage\<rparr>) }
      | MSS_OP_GETSER \<Rightarrow> mss_get_serial cfg S st argv
      | MSS_OP_GETUSR \<Rightarrow> mss_get_usercode cfg S st argv
      | MSS_OP_GETVER \<Rightarrow> mss_get_version cfg S st argv
      | MSS_OP_IAPAUTH \<Rightarrow> mss_iap_cmd cfg B S st argv MSS_SYS_PROG_AUTHENTICATE
      | MSS_OP_IAPPROG \<Rightarrow> mss_iap_cmd cfg B S st argv MSS_SYS_PROG_PROGRAM
      | MSS_OP_IAPVERI \<Rightarrow> mss_iap_cmd cfg B S st argv MSS_SYS_PROG_VERIFY
      | MSS_OP_INVALID \<Rightarrow>
          do { st \<leftarrow> argv_printf argv (''Invalid operation!'' @ nl) [] st;
               Some (MSS_FAILURE, st\<lparr>m_out := m_out st @ usage\<rparr>) })"

section \<open>Lemmas\<close>

lemma sprintf_serial:
  "sprintf ''0x%08x%08x%08x%08x'' [VInt a, VInt b, VInt c, VInt d] = Some (''0x'' @ hex8 a @ hex8 b @ hex8 c @ hex8 d)"
  by (simp add: sprintf_simps del: vsprintf_loop.simps(2))

lemma vsprintf_prefix: "CHR ''%'' \<notin> set m \<Longrightarrow>
    vsprintf_loop str counts (m @ fmt) args = vsprintf_loop (str @ m) counts fmt args"
  by (induction m arbitrary: str) auto

text \<open>The messages can always be printed, and change nothing but the output.\<close>

definition printed :: "'w mss \<Rightarrow> 'w mss option \<Rightarrow> bool" where
  "printed st r \<longleftrightarrow> (\<exists>t. r = Some (st\<lparr>m_out := m_out st @ t\<rparr>))"

lemma printed_argv:
  assumes "CHR ''%'' \<notin> set m"
  shows "printed st (argv_printf argv (m @ nl) [] st)" "printed st (argv_printf argv (m @ ''%d'' @ nl) [VInt v] st)"
    "printed st (argv_printf argv (m @ ''%s'' @ nl) [VStr w] st)"
  using assms
  by (simp_all add: argv_printf_def mss_printf_def printed_def sprintf_simps vsprintf_prefix del: vsprintf_loop.simps(2))
    blast+

lemma printed_start: "printed st (argv_printf argv (''Starting IAP %s at offset 0x%x...'' @ nl) [VStr w, VInt v] st)"
  by (simp add: argv_printf_def mss_printf_def printed_def sprintf_simps del: vsprintf_loop.simps(2)) blast

lemma mss_iap_report_ok:
  "\<exists>t. mss_iap_report argv cmd s st = Some (if s = 0 \<and> cmd = MSS_SYS_PROG_PROGRAM then MSS_FAILURE else s, st\<lparr>m_out := m_out st @ t\<rparr>)"
proof -
  note d = printed_argv(2) [of _ st argv "of_int s", unfolded printed_def]
  note dc = printed_argv(2) [of _ st argv "of_nat cmd", unfolded printed_def]
  note n = printed_argv(1) [of _ st argv, unfolded printed_def]
  note sa = printed_argv(3) [of "''Authentication error: MSS_SYS_''" st argv "iap_auth_err_str ! nat s", unfolded printed_def]
  note sp = printed_argv(3) [of "''Programming error: MSS_SYS_''" st argv "iap_prog_err_str ! nat (s - 128)", unfolded printed_def]
  consider "136 < s" | "128 < s" "s \<le> 136" | "13 < s" "s \<le> 128" | "0 < s" "s \<le> 13" | "s < 0"
    | "s = 0" "cmd = 0" | "s = 0" "cmd = 1" | "s = 0" "cmd = 2" | "s = 0" "2 < cmd"
    by linarith
  then show ?thesis
  proof cases
    case 1 then show ?thesis using d [of "''Unknown programming error! status=''"] by (auto simp: mss_iap_report_def)
  next
    case 2 then show ?thesis using sp by (auto simp: mss_iap_report_def)
  next
    case 3 then show ?thesis using d [of "''Unknown authentication error! status=''"] by (auto simp: mss_iap_report_def)
  next
    case 4 then show ?thesis using sa by (auto simp: mss_iap_report_def)
  next
    case 5 then show ?thesis using d [of "''Unknown problem! Negative status=''"] by (auto simp: mss_iap_report_def)
  next
    case 6 then show ?thesis using n [of "''Authentication success!''"] by (auto simp: mss_iap_report_def)
  next
    case 7 then show ?thesis using n [of "''Programming success, but should not be here!!!''"] by (auto simp: mss_iap_report_def)
  next
    case 8 then show ?thesis using n [of "''Verification success!''"] by (auto simp: mss_iap_report_def)
  next
    case 9
    have "printed st (argv_printf argv (''Unsupported IAP command (%d)!'' @ nl) [VInt (of_nat cmd)] st)"
      by (simp add: argv_printf_def mss_printf_def printed_def sprintf_simps del: vsprintf_loop.simps(2)) blast
    with 9 show ?thesis by (auto simp: mss_iap_report_def printed_def)
  qed
qed

lemma hex8_nul: "NUL \<notin> set (hex8 w)"
proof -
  have "hex_char k \<noteq> NUL" if "k < 16" for k
    using hex_char_simps(2) [OF that] by (auto simp: isxdigit_iff)
  then have "list_all (\<lambda>c. c \<noteq> NUL) (rev_radix 16 hex_char n)" for n
    using list_all_rev_radix [of 16 "\<lambda>c. c \<noteq> NUL" hex_char n] by simp
  then show ?thesis by (auto simp: hex8_def Let_def list.pred_set)
qed

text \<open>Services that answer every request, for the witnesses.\<close>

definition sample_services :: "int \<Rightarrow> u8 list \<Rightarrow> unit mss_services" where
  "sample_services status bytes = \<lparr>MSS_SYS_init = id, MSS_SYS_get_serial_number = (\<lambda>w. Some (status, bytes, w)),
     MSS_SYS_get_user_code = (\<lambda>w. Some (status, bytes, w)), MSS_SYS_get_design_version = (\<lambda>w. Some (status, bytes, w)),
     MSS_SYS_initiate_iap = (\<lambda>w _ _. Some (status, w)), enable_irq = id, disable_irq = id\<rparr>"

definition sample_bus :: "unit spi_bus" where
  "sample_bus = \<lparr>xsetup = (\<lambda>w _ _ _ _. (True, w)), xclaim = (\<lambda>w. (0, w)), xrelease = id,
     xxfer = (\<lambda>w _ _ _. (0, [], w)), xtimer = (\<lambda>w _. (0, w)), xmalloc_ok = True\<rparr>"

definition volkh_env :: ubenv where
  "volkh_env = (set_default_env volkh_cfg
      ((sample_env [])\<lparr>env_default := bytes_of (default_environment volkh_cfg)\<rparr>))\<lparr>env_addr := In_env_ptr\<rparr>"

definition sample_mss :: "unit mss" where
  "sample_mss = \<lparr>m_env = volkh_env, m_hw = (), g_mss_sys_init_called = False, m_out = []\<rparr>"

lemma volkh_env: "env_rep volkh_cfg volkh_env volkh_defs" "in_ram volkh_env" "crc_ok volkh_cfg volkh_env"
  unfolding volkh_env_def by (rule set_default_env_volkh; simp)+

lemma volkh_names: "''ser'' \<notin> fst ` set volkh_defs" "''iap_addr'' \<notin> fst ` set volkh_defs"
  by (simp_all add: volkh_defs_def)

section \<open>Properties\<close>

text \<open>\<open>mss iapauth\<close>, \<open>iapprog\<close> and \<open>iapveri\<close>.  When the SPI slave cannot be set up, the bus not be claimed or the
  chip not be read, the command fails with that status and the service is never called.  Otherwise the
  service is called exactly once, with the address of \<open>mss_iap_addr\<close>; if it returns, the bus is
  released, and the result is the status of the service, except that a program service that returns with
  success is a failure; if it does not, the command does not either.  The environment is never changed.\<close>

lemma mss_iap_status:
  assumes "mss_iap_addr cfg (m_env st) argv = Some addr"
  shows "case (let (ok, w) = xsetup B (m_hw st) 0 0 25000000 3 in
     if \<not> ok then Some (MSS_FAILURE, w)
     else (let (c, w) = xclaim B w in
       if c \<noteq> 0 then Some (c, w)
       else (let (x, _, w) = xxfer B w 48 (Some [0x9f, 0, 0, 0, 0, 0]) 3 in
         if x \<noteq> 0 then Some (x, xrelease B w)
         else map_option (\<lambda>(s, w). (if s = 0 \<and> cmd = MSS_SYS_PROG_PROGRAM then MSS_FAILURE else s, xrelease B (disable_irq S w)))
           (MSS_SYS_initiate_iap S (enable_irq S (if g_mss_sys_init_called st then w else MSS_SYS_init S w)) cmd addr))))
    of None \<Rightarrow> mss_iap_cmd cfg B S st argv cmd = None
    | Some (r, w) \<Rightarrow> \<exists>st'. mss_iap_cmd cfg B S st argv cmd = Some (r, st') \<and> m_env st' = m_env st \<and> m_hw st' = w"
proof -
  obtain t0 where t0: "argv_printf argv (''Starting IAP %s at offset 0x%x...'' @ nl)
      [VStr (Some (iap_cmd_str ! cmd)), VInt addr] st = Some (st\<lparr>m_out := t0\<rparr>)"
    using printed_start [of st argv "Some (iap_cmd_str ! cmd)" addr] by (auto simp: printed_def)
  obtain ok w1 where 1: "xsetup B (m_hw st) 0 0 25000000 3 = (ok, w1)" by fastforce
  obtain c w2 where 2: "xclaim B w1 = (c, w2)" by fastforce
  obtain x d w3 where 3: "xxfer B w2 48 (Some [0x9f, 0, 0, 0, 0, 0]) 3 = (x, d, w3)" by (metis prod_cases3)
  let ?w = "if g_mss_sys_init_called st then w3 else MSS_SYS_init S w3"
  obtain s w4 where 4: "MSS_SYS_initiate_iap S (enable_irq S ?w) cmd addr = None
      \<or> MSS_SYS_initiate_iap S (enable_irq S ?w) cmd addr = Some (s, w4)" by (metis option.exhaust surj_pair)
  define st1 where "st1 = st\<lparr>m_out := t0, m_hw := w1\<rparr>"
  define st2 where "st2 = st\<lparr>m_out := t0, m_hw := w2\<rparr>"
  define st3 where "st3 = st\<lparr>m_out := t0, m_hw := w3\<rparr>"
  define st4 where "st4 = (mss_init_once S st3)\<lparr>m_hw := disable_irq S w4\<rparr>"
  have e: "m_env st1 = m_env st" "m_env st2 = m_env st" "m_env st3 = m_env st" "m_env st4 = m_env st"
    "m_hw st1 = w1" "m_hw st2 = w2" "m_hw st3 = w3" "m_hw st4 = disable_irq S w4"
    "m_hw (mss_init_once S st3) = ?w"
    by (simp_all add: st1_def st2_def st3_def st4_def mss_init_once_def)
  obtain p1 where p1: "argv_printf argv (''Failed to setup spi_slave'' @ nl) [] st1 = Some (st1\<lparr>m_out := p1\<rparr>)"
    using printed_argv(1) [of "''Failed to setup spi_slave''" st1 argv] by (auto simp: printed_def)
  obtain p2 where p2: "argv_printf argv (''Failed to claim SPI bus: %d'' @ nl) [VInt (of_int c)] st2 = Some (st2\<lparr>m_out := p2\<rparr>)"
    using printed_argv(2) [of "''Failed to claim SPI bus: ''" st2 argv "of_int c"] by (auto simp: printed_def)
  obtain p3 where p3: "argv_printf argv (''Failed to read flash ID: %d'' @ nl) [VInt (of_int x)] st3 = Some (st3\<lparr>m_out := p3\<rparr>)"
    using printed_argv(2) [of "''Failed to read flash ID: ''" st3 argv "of_int x"] by (auto simp: printed_def)
  obtain p4 where p4: "mss_iap_report argv cmd s st4 =
      Some (if s = 0 \<and> cmd = MSS_SYS_PROG_PROGRAM then MSS_FAILURE else s, st4\<lparr>m_out := p4\<rparr>)"
    using mss_iap_report_ok [of argv cmd s st4] by blast
  note defs = mss_iap_cmd_def assms t0 [simplified] 1 2 3 Let_def
  show ?thesis
  proof (cases "\<not> ok \<or> c \<noteq> 0 \<or> x \<noteq> 0")
    case True
    then show ?thesis
      using p1 [simplified] p2 [simplified] p3 [simplified] unfolding st1_def st2_def st3_def
      by (auto simp: defs)
  next
    case False
    show ?thesis
    proof (cases "MSS_SYS_initiate_iap S (enable_irq S ?w) cmd addr")
      case None
      then show ?thesis using False e(9) unfolding st3_def by (simp add: defs)
    next
      case (Some y)
      with 4 have y: "MSS_SYS_initiate_iap S (enable_irq S ?w) cmd addr = Some (s, w4)" by simp
      then have "mss_iap_cmd cfg B S st argv cmd =
          map_option (\<lambda>(status, st). (status, st\<lparr>m_hw := xrelease B (m_hw st)\<rparr>)) (mss_iap_report argv cmd s st4)"
        using False e(9) unfolding st4_def st3_def by (simp add: defs)
      then show ?thesis using False e by (simp add: p4 1 2 3 y)
    qed
  qed
qed

lemma mss_iap_status_example:
  "\<exists>st'. mss_iap_cmd volkh_cfg sample_bus (sample_services 5 []) sample_mss [''mss'', ''iapauth''] 0 = Some (5, st')"
proof -
  have "mss_iap_addr volkh_cfg (m_env sample_mss) [''mss'', ''iapauth''] = Some CONFIG_ENV_FPGA_UPDATE_OFFSET"
    using getenv_str_map_of [OF volkh_env(1), of "''iap_addr''"] volkh_names(2)
    by (simp add: mss_iap_addr_def sample_mss_def name_ok_def map_of_eq_None_iff [THEN iffD2])
  from mss_iap_status [OF this, of sample_bus "sample_services 5 []" 0] show ?thesis
    by (auto simp: sample_bus_def sample_services_def)
qed

text \<open>\<open>mss getser NAME\<close>, once the service has given the sixteen bytes, prints nothing and
  returns 0 whether or not the environment had room for the variable; when it had, the variable
  holds the four words most significant first, as 34 characters, and all other variables are as before.\<close>

lemma mss_getser_stores:
  assumes "env_rep cfg (m_env st) es" and "plain name" and "in_ram (m_env st)"
    and "2 < length argv" and "argv ! 2 = name"
    and "MSS_SYS_get_serial_number S (enable_irq S (m_hw (mss_init_once S st))) = Some (0, serial, w)"
  defines "word \<equiv> \<lambda>k. hex8 (load32 (\<lambda>i. serial ! i) (4 * k))"
  defines "v \<equiv> ''0x'' @ word 3 @ word 2 @ word 1 @ word 0"
  shows "length v = 34 \<and> (\<exists>st'. mss_get_serial cfg S st argv = Some (0, st') \<and> m_out st' = m_out st \<and>
    m_hw st' = disable_irq S w \<and>
    (\<forall>m. name_ok m \<longrightarrow> getenv_str cfg (m_env st') m =
       Some (if m = name
             then (if length (flat (del_def name es)) + length name + 37 \<le> ENV_SIZE cfg then Some v else None)
             else map_of es m)))"
proof -
  have len: "length v = 34" by (simp add: v_def word_def length_hex8)
  have "NUL \<notin> set v" using hex8_nul by (simp add: v_def word_def)
  from setenv_lookup [OF assms(1,2) this assms(3)] obtain r e' where
    e': "setenv cfg (m_env st) name (Some v) = Some (r, e')"
    "if v = [] \<or> length (flat (del_def name es)) + length name + length v + 3 \<le> ENV_SIZE cfg
     then r = 0 \<and> crc_ok cfg e' else r = 1"
    "\<forall>m. name_ok m \<longrightarrow> getenv_str cfg e' m =
       Some (if m = name then (if r = 0 \<and> v \<noteq> [] then Some v else None) else map_of es m)"
    by blast
  have env: "m_env (mss_init_once S st) = m_env st" "m_out (mss_init_once S st) = m_out st"
    by (simp_all add: mss_init_once_def)
  have "mss_get_serial cfg S st argv = Some (0, (mss_init_once S st)\<lparr>m_hw := disable_irq S w, m_env := e'\<rparr>)"
    using assms(4-6) e'(1) env
    by (simp add: mss_get_serial_def mss_store_def sprintf_serial Let_def v_def word_def)
  then show ?thesis
    using len e'(2,3) env by (auto split: if_splits)
qed

lemma mss_getser_stores_example:
  "\<exists>st'. mss_get_serial volkh_cfg (sample_services 0 [1, 2, 3, 4, 5, 6, 7, 8, 9, 10, 11, 12, 13, 14, 15, 16]) sample_mss
       [''mss'', ''getser'', ''ser''] = Some (0, st') \<and>
     getenv_str volkh_cfg (m_env st') ''ser'' =
       Some (Some (''0x'' @ hex8 0x100f0e0d @ hex8 0x0c0b0a09 @ hex8 0x08070605 @ hex8 0x04030201))"
proof -
  let ?b = "[1, 2, 3, 4, 5, 6, 7, 8, 9, 10, 11, 12, 13, 14, 15, 16] :: u8 list"
  have n: "plain ''ser''" "name_ok ''ser''" by (code_simp)+
  have fits: "length (flat (del_def ''ser'' volkh_defs)) + length ''ser'' + 37 \<le> ENV_SIZE volkh_cfg"
    using volkh_size by (simp add: del_def_absent [OF volkh_names(1)] ENV_SIZE_def volkh_cfg_def)
  have words: "load32 (\<lambda>i. ?b ! i) (4 * 0) = 0x04030201" "load32 (\<lambda>i. ?b ! i) (4 * 1) = 0x08070605"
    "load32 (\<lambda>i. ?b ! i) (4 * 2) = 0x0c0b0a09" "load32 (\<lambda>i. ?b ! i) (4 * 3) = 0x100f0e0d"
    by code_simp+
  have "env_rep volkh_cfg (m_env sample_mss) volkh_defs" "in_ram (m_env sample_mss)"
    using volkh_env by (simp_all add: sample_mss_def)
  from mss_getser_stores [OF this(1) n(1) this(2), of "[''mss'', ''getser'', ''ser'']" "sample_services 0 ?b" ?b "()"]
  show ?thesis
    unfolding words using fits n(2) by (auto simp: sample_services_def)
qed

text \<open>With an environment that has no variable \<open>iap_addr\<close>, such as the board's, \<open>mss iapauth\<close>,
  \<open>iapprog\<close> and \<open>iapveri\<close> without an address use the compiled-in offset, whatever is assigned to
  \<open>iapaddr\<close>, the variable that the help text and the default environment name.\<close>

lemma mss_iap_addr_default:
  assumes "env_rep cfg e es" and "''iap_addr'' \<notin> fst ` set es" and "length argv \<le> 2"
    and "in_ram e" and "NUL \<notin> set v" and "setenv cfg e ''iapaddr'' (Some v) = Some (r, e')"
  shows "mss_iap_addr cfg e' argv = Some CONFIG_ENV_FPGA_UPDATE_OFFSET \<and> mss_iap_addr cfg e argv = Some CONFIG_ENV_FPGA_UPDATE_OFFSET"
proof -
  have n: "plain ''iapaddr''" "name_ok ''iap_addr''" by (code_simp)+
  have "map_of es ''iap_addr'' = None" using assms(2) by (simp add: map_of_eq_None_iff)
  moreover from this have "getenv_str cfg e' ''iap_addr'' = Some None"
    using setenv_lookup [OF assms(1) n(1) assms(5,4)] assms(6) n(2) by auto
  ultimately show ?thesis
    using assms(3) getenv_str_map_of [OF assms(1) n(2)] by (simp add: mss_iap_addr_def)
qed

lemma mss_iap_addr_default_example:
  "\<exists>e'. setenv volkh_cfg volkh_env ''iapaddr'' (Some ''0x1000000'') = Some (0, e') \<and>
     mss_iap_addr volkh_cfg e' [''mss'', ''iapprog''] = Some CONFIG_ENV_FPGA_UPDATE_OFFSET"
proof -
  have n: "plain ''iapaddr''" "NUL \<notin> set ''0x1000000''" by (code_simp)+
  have "length (flat (del_def ''iapaddr'' volkh_defs)) + length ''iapaddr'' + length ''0x1000000'' + 3 \<le> ENV_SIZE volkh_cfg"
    using volkh_size length_flat_del_def [of "''iapaddr''" volkh_defs] by (simp add: ENV_SIZE_def volkh_cfg_def)
  with setenv_lookup [OF volkh_env(1) n volkh_env(2)] obtain e' where
    "setenv volkh_cfg volkh_env ''iapaddr'' (Some ''0x1000000'') = Some (0, e')"
    by auto
  with mss_iap_addr_default [OF volkh_env(1) volkh_names(2) _ volkh_env(2) n(2) this] show ?thesis
    by auto
qed

end
