(* ===== verification/Readline.thy ===== *)
theory Readline
  imports Vsprintf
begin

text \<open>
  Line input (\<^verbatim>\<open>common/main.c\<close>, \<open>readline_into_buffer\<close> and \<open>delete_char\<close> as they are built without
  line editing): the keys that edit the line, the echo, and the column count that keeps the
  screen in step with the buffer.  The input is the list of characters still to come; a line that
  is not finished yet is \<open>Waiting\<close>.
\<close>

section \<open>Definitions\<close>

abbreviation (input) CONFIG_SYS_CBSIZE :: nat where "CONFIG_SYS_CBSIZE \<equiv> 256"
abbreviation (input) TAB :: char where "TAB \<equiv> CHR 0x09"
abbreviation (input) BS :: char where "BS \<equiv> CHR 0x08"
abbreviation (input) BEL :: char where "BEL \<equiv> CHR 0x07"

definition erase_seq :: string where "erase_seq = [BS, CHR '' '', BS]"
definition tab_seq :: string where "tab_seq = ''        ''"

text \<open>The variables of the loop, the buffer and what was printed.  \<open>rl_p\<close> is \<open>p - p_buf\<close>.\<close>

record rl =
  rl_buf :: "nat \<Rightarrow> char"
  rl_p :: nat
  rl_n :: nat
  rl_col :: int
  rl_out :: string

text \<open>\<open>while (col > plen) { puts (erase_seq); --col; }\<close>\<close>

function erase_line :: "int \<Rightarrow> rl \<Rightarrow> rl" where
  "erase_line plen st =
     (if rl_col st > plen
      then erase_line plen (st\<lparr>rl_out := rl_out st @ erase_seq, rl_col := rl_col st - 1\<rparr>) else st)"
  by pat_completeness auto
termination
  by (relation "measure (\<lambda>(plen, st). nat (rl_col st - plen))") auto

declare erase_line.simps [simp del]

text \<open>\<open>for (s=buffer; s<p; ++s)\<close> of \<open>delete_char\<close>, from \<open>s = i\<close>.\<close>

function retype :: "nat \<Rightarrow> rl \<Rightarrow> rl" where
  "retype i st =
     (if i < rl_p st then
        (if rl_buf st i = TAB
         then retype (i + 1) (st\<lparr>rl_out := rl_out st @ drop (nat (rl_col st mod 8)) tab_seq,
                                 rl_col := rl_col st + (8 - rl_col st mod 8)\<rparr>)
         else retype (i + 1) (st\<lparr>rl_col := rl_col st + 1, rl_out := rl_out st @ [rl_buf st i]\<rparr>))
      else st)"
  by pat_completeness auto
termination
  by (relation "measure (\<lambda>(i, st). rl_p st - i)") auto

declare retype.simps [simp del]

definition delete_char :: "int \<Rightarrow> rl \<Rightarrow> rl" where
  "delete_char plen st =
     (if rl_n st = 0 then st
      else (let st = st\<lparr>rl_p := rl_p st - 1\<rparr>;
                st = (if rl_buf st (rl_p st) = TAB then retype 0 (erase_line plen st)
                      else st\<lparr>rl_out := rl_out st @ erase_seq, rl_col := rl_col st - 1\<rparr>)
            in st\<lparr>rl_n := rl_n st - 1\<rparr>))"

lemma erase_line_frame [simp]:
  "rl_buf (erase_line plen st) = rl_buf st" "rl_p (erase_line plen st) = rl_p st" "rl_n (erase_line plen st) = rl_n st"
  by (induction plen st rule: erase_line.induct; subst erase_line.simps; simp)+

lemma retype_frame [simp]:
  "rl_buf (retype i st) = rl_buf st" "rl_p (retype i st) = rl_p st" "rl_n (retype i st) = rl_n st"
  by (induction i st rule: retype.induct; subst retype.simps; simp)+

lemma delete_char_frame [simp]:
  "rl_buf (delete_char plen st) = rl_buf st" "rl_n (delete_char plen st) = rl_n st - 1"
  "rl_p (delete_char plen st) = (if rl_n st = 0 then rl_p st else rl_p st - 1)"
  by (simp_all add: delete_char_def Let_def)

text \<open>\<open>while ((n > 0) && (*p != ' ')) p=delete_char(...)\<close>\<close>

function erase_word :: "int \<Rightarrow> rl \<Rightarrow> rl" where
  "erase_word plen st =
     (if 0 < rl_n st \<and> rl_buf st (rl_p st) \<noteq> CHR '' '' then erase_word plen (delete_char plen st) else st)"
  by pat_completeness auto
termination
  by (relation "measure (\<lambda>(plen, st). rl_n st)") auto

declare erase_word.simps [simp del]

datatype rl_next = More rl | Return int rl

text \<open>One turn of the loop, on the character \<open>c\<close> that \<open>getc\<close> returned.\<close>

definition readline_step :: "int \<Rightarrow> char \<Rightarrow> rl \<Rightarrow> rl_next" where
  "readline_step plen c st =
     (if c = CHR 0x0D \<or> c = CHR 0x0A then
        Return (int (rl_p st)) (st\<lparr>rl_buf := (rl_buf st)(rl_p st := NUL), rl_out := rl_out st @ [CHR 0x0D, CHR 0x0A]\<rparr>)
      else if c = NUL then More st
      else if c = CHR 0x03 then Return (-1) (st\<lparr>rl_buf := (rl_buf st)(0 := NUL)\<rparr>)
      else if c = CHR 0x15 then More ((erase_line plen st)\<lparr>rl_p := 0, rl_n := 0\<rparr>)
      else if c = CHR 0x17 then More (erase_word plen (delete_char plen st))
      else if c = BS \<or> c = CHR 0x7F then More (delete_char plen st)
      else if rl_n st < CONFIG_SYS_CBSIZE - 2 then
        (let st = (if c = TAB
                   then st\<lparr>rl_out := rl_out st @ drop (nat (rl_col st mod 8)) tab_seq,
                           rl_col := rl_col st + (8 - rl_col st mod 8)\<rparr>
                   else st\<lparr>rl_col := rl_col st + 1, rl_out := rl_out st @ [c]\<rparr>)
         in More (st\<lparr>rl_buf := (rl_buf st)(rl_p st := c), rl_p := rl_p st + 1, rl_n := rl_n st + 1\<rparr>))
      else More (st\<lparr>rl_out := rl_out st @ [BEL]\<rparr>))"

datatype rl_result = Waiting rl | Returned int rl string

fun readline_loop :: "int \<Rightarrow> string \<Rightarrow> rl \<Rightarrow> rl_result" where
  "readline_loop plen [] st = Waiting st"
| "readline_loop plen (c # cs) st =
     (case readline_step plen c st of More st \<Rightarrow> readline_loop plen cs st | Return r st \<Rightarrow> Returned r st cs)"

definition readline_into_buffer :: "string option \<Rightarrow> (nat \<Rightarrow> char) \<Rightarrow> string \<Rightarrow> string \<Rightarrow> rl_result" where
  "readline_into_buffer prompt buffer out input =
     (let plen = (case prompt of Some s \<Rightarrow> int (length s) | None \<Rightarrow> 0);
          out = (case prompt of Some s \<Rightarrow> out @ s | None \<Rightarrow> out)
      in readline_loop plen input \<lparr>rl_buf = buffer, rl_p = 0, rl_n = 0, rl_col = plen, rl_out = out\<rparr>)"

definition readline :: "string \<Rightarrow> (nat \<Rightarrow> char) \<Rightarrow> string \<Rightarrow> string \<Rightarrow> rl_result" where
  "readline prompt console_buffer out input =
     readline_into_buffer (Some prompt) (console_buffer(0 := NUL)) out input"

section \<open>What the user means and sees\<close>

text \<open>The line as the keys edit it.\<close>

fun drop_word :: "string \<Rightarrow> string" where
  "drop_word [] = []"
| "drop_word (c # s) = (if c = CHR '' '' then s else drop_word s)"

definition edit :: "char \<Rightarrow> string \<Rightarrow> string" where
  "edit c line =
     (if c = NUL then line
      else if c = CHR 0x15 then []
      else if c = CHR 0x17 then rev (drop_word (rev line))
      else if c = BS \<or> c = CHR 0x7F then butlast line
      else if length line < 254 then line @ [c] else line)"

text \<open>A terminal line: its cells and the cursor.\<close>

definition term_putc :: "(nat \<Rightarrow> char) \<times> nat \<Rightarrow> char \<Rightarrow> (nat \<Rightarrow> char) \<times> nat" where
  "term_putc t c =
     (if c = BS then (fst t, snd t - 1) else if c = BEL then t else ((fst t)(snd t := c), snd t + 1))"

definition term_puts :: "string \<Rightarrow> (nat \<Rightarrow> char) \<times> nat \<Rightarrow> (nat \<Rightarrow> char) \<times> nat" where
  "term_puts s t = foldl term_putc t s"

text \<open>A line that shows \<open>s\<close>, blanks behind it, and the cursor at its end.\<close>

definition display :: "string \<Rightarrow> (nat \<Rightarrow> char) \<times> nat" where
  "display s = (\<lambda>i. if i < length s then s ! i else CHR '' '', length s)"

text \<open>What a line looks like from a column on.\<close>

fun expand :: "nat \<Rightarrow> string \<Rightarrow> string" where
  "expand col [] = []"
| "expand col (c # s) =
     (let t = (if c = TAB then replicate (8 - col mod 8) (CHR '' '') else [c]) in t @ expand (col + length t) s)"

definition printable :: "char \<Rightarrow> bool" where
  "printable c \<longleftrightarrow> 0x20 \<le> (of_char c :: nat) \<and> of_char c \<noteq> (0x7F :: nat)"

section \<open>Lemmas\<close>

lemma term_puts_append [simp]: "term_puts (s @ t) d = term_puts t (term_puts s d)"
  by (simp add: term_puts_def)

lemma term_puts_display: "list_all (\<lambda>c. c \<noteq> BS \<and> c \<noteq> BEL) t \<Longrightarrow> term_puts t (display s) = display (s @ t)"
proof (induction t arbitrary: s)
  case Nil
  then show ?case by (simp add: term_puts_def)
next
  case (Cons c t)
  have "term_putc (display s) c = display (s @ [c])"
    using Cons.prems by (auto simp: term_putc_def display_def nth_append fun_eq_iff less_Suc_eq)
  then show ?case using Cons by (simp add: term_puts_def)
qed

lemma term_puts_erase: "s \<noteq> [] \<Longrightarrow> term_puts erase_seq (display s) = display (butlast s)"
  by (auto simp: term_puts_def erase_seq_def term_putc_def display_def fun_eq_iff nth_butlast)

lemma expand_append: "expand col (a @ b) = expand col a @ expand (col + length (expand col a)) b"
  by (induction col a rule: expand.induct) (simp_all add: Let_def ac_simps)

lemma drop_tab_seq: "k < 8 \<Longrightarrow> drop k tab_seq = replicate (8 - k) (CHR '' '')"
  by (simp add: tab_seq_def) (auto simp: less_Suc_eq numeral_eq_Suc)

abbreviation echoed :: "char \<Rightarrow> bool" where "echoed c \<equiv> printable c \<or> c = TAB"

lemma printable_simps [simp]: "\<not> printable BS" "\<not> printable BEL" "\<not> printable NUL" "\<not> printable TAB" "\<not> printable (CHR 0x03)"
  "\<not> printable (CHR 0x0A)" "\<not> printable (CHR 0x0D)" "\<not> printable (CHR 0x15)" "\<not> printable (CHR 0x17)" "\<not> printable (CHR 0x7F)"
  by (simp_all add: printable_def)

text \<open>The screen shows the prompt and the line \<open>l\<close>, and the column is the cursor's.\<close>

definition shown :: "string \<Rightarrow> string \<Rightarrow> rl \<Rightarrow> bool" where
  "shown prompt l st \<longleftrightarrow> list_all echoed l \<and>
     rl_col st = int (length prompt + length (expand (length prompt) l)) \<and>
     term_puts (rl_out st) (display []) = display (prompt @ expand (length prompt) l)"

lemma shown_frame [simp]:
  "shown prompt l (st\<lparr>rl_buf := b\<rparr>) = shown prompt l st" "shown prompt l (st\<lparr>rl_p := p\<rparr>) = shown prompt l st"
  "shown prompt l (st\<lparr>rl_n := n\<rparr>) = shown prompt l st"
  by (simp_all add: shown_def)

lemma shown_bell: "shown prompt l st \<Longrightarrow> shown prompt l (st\<lparr>rl_out := rl_out st @ [BEL]\<rparr>)"
  by (simp add: shown_def) (simp add: term_puts_def term_putc_def)

lemma shown_tab:
  assumes "shown prompt l st"
  shows "shown prompt (l @ [TAB]) (st\<lparr>rl_out := rl_out st @ drop (nat (rl_col st mod 8)) tab_seq,
      rl_col := rl_col st + (8 - rl_col st mod 8)\<rparr>)"
proof -
  let ?k = "length prompt + length (expand (length prompt) l)"
  have col: "rl_col st = int ?k" using assms by (simp add: shown_def)
  then have k: "nat (rl_col st mod 8) = ?k mod 8" by (metis nat_int of_nat_mod of_nat_numeral)
  moreover have "drop (?k mod 8) tab_seq = replicate (8 - ?k mod 8) (CHR '' '')"
    by (rule drop_tab_seq) simp
  ultimately show ?thesis
    using assms col
    by (simp add: shown_def expand_append term_puts_display list.pred_set)
qed

lemma shown_char:
  assumes "shown prompt l st" and "printable c"
  shows "shown prompt (l @ [c]) (st\<lparr>rl_col := rl_col st + 1, rl_out := rl_out st @ [c]\<rparr>)"
proof -
  from assms(2) have "c \<noteq> BS" "c \<noteq> BEL" "c \<noteq> TAB" by auto
  with assms show ?thesis by (simp add: shown_def expand_append term_puts_display)
qed

lemma erase_line_shown:
  assumes "shown prompt l st"
  shows "shown prompt [] (erase_line (int (length prompt)) st)"
proof -
  have "term_puts (rl_out (erase_line plen st)) (display []) = display prompt \<and> rl_col (erase_line plen st) = plen"
    if "plen = int (length prompt)" "rl_col st = plen + int (length e)" "term_puts (rl_out st) (display []) = display (prompt @ e)"
    for plen e
    using that
  proof (induction plen st arbitrary: e rule: erase_line.induct)
    case (1 plen st)
    show ?case
    proof (cases "e = []")
      case True
      then show ?thesis using 1 by (subst erase_line.simps) (subst (2) erase_line.simps, simp)
    next
      case False
      then have len: "rl_col st - 1 = plen + int (length (butlast e))" "plen < rl_col st"
        using 1(3) by (cases e rule: rev_cases; simp)+
      then show ?thesis
        using 1(1) [OF len(2) 1(2), of "butlast e"] 1(2,4) len False
        by (subst (1 2) erase_line.simps) (simp add: term_puts_erase butlast_append)
    qed
  qed
  from this [of "int (length prompt)" "expand (length prompt) l"] show ?thesis
    using assms by (simp add: shown_def)
qed

lemma retype_shown:
  "shown prompt (map (rl_buf st) [0..<i]) st \<Longrightarrow> i \<le> rl_p st \<Longrightarrow> list_all echoed (map (rl_buf st) [0..<rl_p st]) \<Longrightarrow>
   shown prompt (map (rl_buf st) [0..<rl_p st]) (retype i st)"
proof (induction i st rule: retype.induct)
  case (1 i st)
  show ?case
  proof (cases "i < rl_p st")
    case True
    then have c: "echoed (rl_buf st i)" using 1(5) by (auto simp: list_all_iff)
    show ?thesis
    proof (cases "rl_buf st i = TAB")
      case tab: True
      show ?thesis
        using 1(1) [OF True tab] shown_tab [OF 1(3)] 1(4,5) True tab by (subst retype.simps) simp
    next
      case False
      then have "printable (rl_buf st i)" using c by simp
      then show ?thesis
        using 1(2) [OF True False] shown_char [OF 1(3), of "rl_buf st i"] 1(4,5) True False
        by (subst retype.simps) simp
    qed
  next
    case False
    then show ?thesis using 1(3,4) by (subst retype.simps) simp
  qed
qed

text \<open>The line in the buffer, and the invariant of the loop.\<close>

definition rl_text :: "rl \<Rightarrow> string" where
  "rl_text st = map (rl_buf st) [0..<rl_n st]"

definition rl_inv :: "string \<Rightarrow> rl \<Rightarrow> bool" where
  "rl_inv prompt st \<longleftrightarrow> rl_p st = rl_n st \<and> rl_n st \<le> 254 \<and> shown prompt (rl_text st) st"

lemma delete_char_inv:
  assumes "rl_inv prompt st"
  shows "rl_inv prompt (delete_char (int (length prompt)) st)"
    "rl_text (delete_char (int (length prompt)) st) = butlast (rl_text st)"
proof -
  show "rl_text (delete_char (int (length prompt)) st) = butlast (rl_text st)"
    by (cases "rl_n st") (simp_all add: rl_text_def)
  show "rl_inv prompt (delete_char (int (length prompt)) st)"
  proof (cases "rl_n st")
    case 0
    then show ?thesis using assms by (simp add: delete_char_def)
  next
    case (Suc k)
    let ?c = "rl_buf st k" and ?l = "map (rl_buf st) [0..<k]"
    have p: "rl_p st = Suc k" and sh: "shown prompt (?l @ [?c]) st" and k: "k < 254"
      using assms Suc by (simp_all add: rl_inv_def rl_text_def)
    have l: "rl_text (delete_char (int (length prompt)) st) = ?l"
      by (simp add: rl_text_def Suc)
    have echo: "list_all echoed ?l" "echoed ?c" using sh by (auto simp: shown_def)
    have "shown prompt ?l (delete_char (int (length prompt)) st)"
    proof (cases "?c = TAB")
      case True
      have "shown prompt [] (erase_line (int (length prompt)) (st\<lparr>rl_p := k\<rparr>))"
        by (rule erase_line_shown [of _ "?l @ [?c]"]) (use sh in simp)
      from retype_shown [of prompt "erase_line (int (length prompt)) (st\<lparr>rl_p := k\<rparr>)" 0] this echo(1)
      show ?thesis using True by (simp add: delete_char_def Suc p Let_def)
    next
      case False
      then have "expand (length prompt) (?l @ [?c]) = expand (length prompt) ?l @ [?c]"
        by (simp add: expand_append)
      then have "shown prompt ?l (st\<lparr>rl_out := rl_out st @ erase_seq, rl_col := rl_col st - 1\<rparr>)"
        using sh by (simp add: shown_def term_puts_erase butlast_append)
      then show ?thesis using False by (simp add: delete_char_def Suc p Let_def shown_def)
    qed
    then show ?thesis using p k Suc l by (simp add: rl_inv_def)
  qed
qed

lemma erase_word_inv:
  "rl_inv prompt st \<Longrightarrow> plen = int (length prompt) \<Longrightarrow> rl_inv prompt (erase_word plen st) \<and>
    rl_text (erase_word plen st) =
      (if rl_buf st (rl_p st) = CHR '' '' then rl_text st else rev (drop_word (rev (rl_text st))))"
proof (induction plen st rule: erase_word.induct)
  case (1 plen st)
  show ?case
  proof (cases "0 < rl_n st \<and> rl_buf st (rl_p st) \<noteq> CHR '' ''")
    case True
    then obtain k where k: "rl_n st = Suc k" "rl_p st = Suc k" using 1(2) by (cases "rl_n st") (auto simp: rl_inv_def)
    then have "rl_text st = map (rl_buf st) [0..<k] @ [rl_buf st k]" by (simp add: rl_text_def)
    then show ?thesis
      using 1(1) [OF True] delete_char_inv [OF 1(2)] 1(3) True k by (subst (1 2) erase_word.simps) simp
  next
    case False
    then show ?thesis
      using 1(2) by (subst (1 2) erase_word.simps) (auto simp: rl_text_def)
  qed
qed

text \<open>The keys: what is echoed, and the editing keys.\<close>

definition is_key :: "char \<Rightarrow> bool" where
  "is_key c \<longleftrightarrow> printable c \<or> c \<in> {TAB, NUL, CHR 0x15, CHR 0x17, BS, CHR 0x7F}"

lemma rl_text_snoc:
  "rl_p st = rl_n st \<Longrightarrow> rl_text (st\<lparr>rl_buf := (rl_buf st)(rl_p st := c), rl_p := p, rl_n := rl_n st + 1\<rparr>) = rl_text st @ [c]"
  by (simp add: rl_text_def)

lemma rl_text_frame [simp]:
  "rl_text (st\<lparr>rl_col := col\<rparr>) = rl_text st" "rl_text (st\<lparr>rl_out := out\<rparr>) = rl_text st"
  "rl_text (st\<lparr>rl_p := p\<rparr>) = rl_text st"
  by (simp_all add: rl_text_def)

lemma length_rl_text: "length (rl_text st) = rl_n st"
  by (simp add: rl_text_def)

lemma readline_step_put:
  assumes inv: "rl_inv prompt st" and c: "echoed c"
  shows "\<exists>st'. readline_step (int (length prompt)) c st = More st' \<and> rl_inv prompt st' \<and>
    rl_text st' = (if length (rl_text st) < 254 then rl_text st @ [c] else rl_text st)"
proof -
  have sp: "c \<noteq> CHR 0x0D" "c \<noteq> CHR 0x0A" "c \<noteq> NUL" "c \<noteq> CHR 0x03" "c \<noteq> CHR 0x15" "c \<noteq> CHR 0x17" "c \<noteq> BS" "c \<noteq> CHR 0x7F"
    using c by auto
  have p: "rl_p st = rl_n st" "rl_n st \<le> 254" and sh: "shown prompt (rl_text st) st"
    using inv by (simp_all add: rl_inv_def)
  show ?thesis
  proof (cases "rl_n st < 254")
    case True
    let ?e = "if c = TAB then st\<lparr>rl_out := rl_out st @ drop (nat (rl_col st mod 8)) tab_seq,
        rl_col := rl_col st + (8 - rl_col st mod 8)\<rparr> else st\<lparr>rl_col := rl_col st + 1, rl_out := rl_out st @ [c]\<rparr>"
    have "shown prompt (rl_text st @ [c]) ?e"
      using shown_tab [OF sh] shown_char [OF sh, of c] c by auto
    moreover have "rl_text ?e = rl_text st" "rl_p ?e = rl_n ?e" "rl_n ?e = rl_n st" "rl_p ?e = rl_n st" using p by auto
    moreover have "readline_step (int (length prompt)) c st =
        More (?e\<lparr>rl_buf := (rl_buf ?e)(rl_p ?e := c), rl_p := rl_p ?e + 1, rl_n := rl_n ?e + 1\<rparr>)"
      using sp True by (simp add: readline_step_def Let_def)
    ultimately show ?thesis
      using rl_text_snoc [where st = ?e and c = c] True p by (simp add: rl_inv_def length_rl_text)
  next
    case False
    then show ?thesis
      using sp p shown_bell [OF sh] by (simp add: readline_step_def rl_inv_def length_rl_text)
  qed
qed

lemma readline_step_inv:
  assumes inv: "rl_inv prompt st" and key: "is_key c"
  shows "\<exists>st'. readline_step (int (length prompt)) c st = More st' \<and> rl_inv prompt st' \<and> rl_text st' = edit c (rl_text st)"
proof -
  let ?plen = "int (length prompt)"
  note del = delete_char_inv [OF inv]
  have p: "rl_p st = rl_n st" and sh: "shown prompt (rl_text st) st"
    using inv by (simp_all add: rl_inv_def)
  consider "echoed c" | "c = NUL" | "c = CHR 0x15" | "c = CHR 0x17" | "c = BS \<or> c = CHR 0x7F"
    using key by (auto simp: is_key_def)
  then show ?thesis
  proof cases
    case 1
    then have "edit c (rl_text st) = (if length (rl_text st) < 254 then rl_text st @ [c] else rl_text st)"
      by (auto simp: edit_def)
    then show ?thesis using readline_step_put [OF inv 1] by simp
  next
    case 2
    then show ?thesis using inv by (simp add: readline_step_def edit_def)
  next
    case 3
    then show ?thesis
      using erase_line_shown [OF sh] by (simp add: readline_step_def edit_def rl_inv_def rl_text_def)
  next
    case 4
    have "rl_text (erase_word ?plen (delete_char ?plen st)) = rev (drop_word (rev (rl_text st)))"
    proof (cases "rl_n st")
      case 0
      then show ?thesis by (subst erase_word.simps) (simp add: rl_text_def delete_char_def)
    next
      case (Suc k)
      then have "rl_text st = map (rl_buf st) [0..<k] @ [rl_buf st k]" "rl_p (delete_char ?plen st) = k"
        using p by (simp_all add: rl_text_def)
      then show ?thesis
        using erase_word_inv [OF del(1) refl] del(2) by auto
    qed
    then show ?thesis
      using 4 erase_word_inv [OF del(1) refl] by (simp add: readline_step_def edit_def)
  next
    case 5
    then show ?thesis using del by (auto simp: readline_step_def edit_def)
  qed
qed

lemma readline_loop_inv:
  "rl_inv prompt st \<Longrightarrow> list_all is_key keys \<Longrightarrow> \<exists>st'. rl_inv prompt st' \<and> rl_text st' = fold edit keys (rl_text st) \<and>
     (\<forall>rest. readline_loop (int (length prompt)) (keys @ rest) st = readline_loop (int (length prompt)) rest st')"
proof (induction keys arbitrary: st)
  case Nil
  then show ?case by auto
next
  case (Cons c keys)
  then obtain st1 where "readline_step (int (length prompt)) c st = More st1" "rl_inv prompt st1" "rl_text st1 = edit c (rl_text st)"
    using readline_step_inv [of prompt st c] by auto
  then show ?case using Cons.IH [of st1] Cons.prems(2) by auto
qed

lemma readline_keys:
  assumes "list_all is_key keys" and "list_all printable prompt"
  obtains st where "rl_inv prompt st" "rl_text st = fold edit keys []"
    "\<And>rest. readline prompt buffer [] (keys @ rest) = readline_loop (int (length prompt)) rest st"
proof -
  let ?st = "\<lparr>rl_buf = buffer(0 := NUL), rl_p = 0, rl_n = 0, rl_col = int (length prompt), rl_out = prompt\<rparr>"
  have "list_all (\<lambda>c. c \<noteq> BS \<and> c \<noteq> BEL) prompt"
    by (rule list.pred_mono_strong [OF assms(2)]) auto
  then have "term_puts prompt (display []) = display prompt"
    using term_puts_display [of prompt "[]"] by simp
  then have "rl_inv prompt ?st" by (simp add: rl_inv_def rl_text_def shown_def)
  from readline_loop_inv [OF this assms(1)] show thesis
    by (auto simp: readline_def readline_into_buffer_def rl_text_def intro: that)
qed

text \<open>Whatever is typed, the loop stays inside the buffer.\<close>

lemma erase_word_frame:
  "rl_buf (erase_word plen st) = rl_buf st \<and> rl_n (erase_word plen st) \<le> rl_n st \<and>
   (rl_p st = rl_n st \<longrightarrow> rl_p (erase_word plen st) = rl_n (erase_word plen st))"
proof (induction plen st rule: erase_word.induct)
  case (1 plen st)
  then show ?case
    by (cases "0 < rl_n st \<and> rl_buf st (rl_p st) \<noteq> CHR '' ''") (subst (1 2 3 4) erase_word.simps; auto)+
qed

definition rl_bounded :: "(nat \<Rightarrow> char) \<Rightarrow> rl \<Rightarrow> bool" where
  "rl_bounded buffer st \<longleftrightarrow> rl_p st = rl_n st \<and> rl_n st \<le> 254 \<and> (\<forall>i\<ge>255. rl_buf st i = buffer i)"

lemma readline_step_bounded:
  assumes "rl_bounded buffer st"
  shows "case readline_step plen c st of More st' \<Rightarrow> rl_bounded buffer st'
    | Return r st' \<Rightarrow> rl_bounded buffer st' \<and> r \<le> 254 \<and> rl_buf st' (nat r) = NUL"
proof -
  have d: "rl_bounded buffer (delete_char plen st)" using assms by (auto simp: rl_bounded_def)
  have w: "rl_bounded buffer (erase_word plen (delete_char plen st))"
    using d erase_word_frame [of plen "delete_char plen st"] unfolding rl_bounded_def by (metis order_trans)
  have e: "rl_bounded buffer ((erase_line plen st)\<lparr>rl_p := 0, rl_n := 0\<rparr>)"
    using assms by (simp add: rl_bounded_def)
  have out: "rl_bounded buffer (s\<lparr>rl_out := out\<rparr>) = rl_bounded buffer s" "rl_bounded buffer (s\<lparr>rl_col := col\<rparr>) = rl_bounded buffer s"
    for s out col
    by (simp_all add: rl_bounded_def)
  have put: "rl_bounded buffer (s\<lparr>rl_buf := (rl_buf s)(rl_p s := c), rl_p := rl_p s + 1, rl_n := rl_n s + 1\<rparr>)"
    if "rl_bounded buffer s" "rl_n s < 254" for s
    using that by (simp add: rl_bounded_def)
  have ret: "rl_bounded buffer (st\<lparr>rl_buf := (rl_buf st)(k := NUL)\<rparr>)" if "k \<le> 254" for k
    using that assms by (simp add: rl_bounded_def)
  have p: "rl_p st \<le> 254" using assms by (simp add: rl_bounded_def)
  consider "c = CHR 0x0D \<or> c = CHR 0x0A" | "c = CHR 0x03" | "c \<notin> {CHR 0x0D, CHR 0x0A, CHR 0x03}" by blast
  then show ?thesis
  proof cases
    case 1
    then show ?thesis using ret [OF p] p by (simp add: readline_step_def out)
  next
    case 2
    then show ?thesis using ret [of 0] by (simp add: readline_step_def)
  next
    case 3
    let ?tab = "st\<lparr>rl_out := rl_out st @ drop (nat (rl_col st mod 8)) tab_seq, rl_col := rl_col st + (8 - rl_col st mod 8)\<rparr>"
    let ?chr = "st\<lparr>rl_col := rl_col st + 1, rl_out := rl_out st @ [c]\<rparr>"
    have "rl_bounded buffer ?tab" "rl_bounded buffer ?chr" using assms by (simp_all add: out)
    then show ?thesis
      using 3 d w e assms put [of ?tab] put [of ?chr] out(1)
      by (cases "c = TAB"; simp add: readline_step_def Let_def)
  qed
qed

lemma readline_loop_bounded:
  "rl_bounded buffer st \<Longrightarrow> case readline_loop plen input st of Waiting st' \<Rightarrow> rl_bounded buffer st'
    | Returned r st' rest \<Rightarrow> rl_bounded buffer st' \<and> r \<le> 254 \<and> rl_buf st' (nat r) = NUL"
proof (induction input arbitrary: st)
  case (Cons c input)
  then show ?case
    using readline_step_bounded [OF Cons.prems, of plen c] by (auto split: rl_next.splits)
qed simp

section \<open>Properties\<close>

text \<open>C27: while a line is typed with printable characters, tabs and the editing keys, at every moment
  the screen shows exactly the prompt and the line as the keys edit it (with tabs at the tab
  stops, and nothing behind it, even after tabs were deleted), the cursor is at its end and the
  column count is the cursor's column.\<close>

theorem readline_screen:
  assumes "list_all is_key keys" and "list_all printable prompt"
  shows "\<exists>st. readline prompt buffer [] keys = Waiting st \<and> rl_text st = fold edit keys [] \<and>
    term_puts (rl_out st) (display []) = display (prompt @ expand (length prompt) (fold edit keys [])) \<and>
    rl_col st = int (snd (term_puts (rl_out st) (display [])))"
proof -
  obtain st where st: "rl_inv prompt st" "rl_text st = fold edit keys []"
    "\<And>rest. readline prompt buffer [] (keys @ rest) = readline_loop (int (length prompt)) rest st"
    using readline_keys [OF assms] by blast
  then show ?thesis
    using st(3) [of "[]"] by (auto simp: rl_inv_def shown_def) (simp add: display_def)
qed

theorem readline_screen_witness:
  "\<exists>st. readline ''> '' (\<lambda>_. NUL) [] ([CHR ''a'', TAB, CHR ''b'', BS, CHR 0x7F, CHR ''c'']) = Waiting st \<and>
     term_puts (rl_out st) (display []) = display ''> ac''"
proof -
  have "list_all is_key [CHR ''a'', TAB, CHR ''b'', BS, CHR 0x7F, CHR ''c'']" "list_all printable ''> ''"
    by (simp_all add: is_key_def printable_def)
  from readline_screen [OF this, of "\<lambda>_. NUL"] show ?thesis
    by (auto simp: edit_def Let_def)
qed

text \<open>C28: when ENTER is pressed the line is returned with its length and a NUL behind it, and the input behind
  it is left; a ^C discards it and returns -1.\<close>

theorem readline_line:
  assumes "list_all is_key keys" and "list_all printable prompt" and "e = CHR 0x0D \<or> e = CHR 0x0A"
  defines "line \<equiv> fold edit keys []"
  shows "(\<exists>st. readline prompt buffer [] (keys @ e # rest) = Returned (int (length line)) st rest \<and>
      map (rl_buf st) [0..<length line + 1] = line @ [NUL] \<and> length line \<le> 254) \<and>
    (\<exists>st. readline prompt buffer [] (keys @ CHR 0x03 # rest) = Returned (-1) st rest \<and> rl_buf st 0 = NUL)"
proof (rule conjI)
  obtain st where st: "rl_inv prompt st" "rl_text st = line"
    "\<And>rest. readline prompt buffer [] (keys @ rest) = readline_loop (int (length prompt)) rest st"
    using readline_keys [OF assms(1,2)] unfolding line_def by blast
  have n: "rl_n st = length line" "rl_p st = length line" "length line \<le> 254"
    using st(1,2) length_rl_text [of st] by (simp_all add: rl_inv_def)
  have "map ((rl_buf st)(length line := NUL)) [0..<length line] = line"
    using st(2) n(1) by (auto simp: rl_text_def)
  with n show "\<exists>st. readline prompt buffer [] (keys @ e # rest) = Returned (int (length line)) st rest \<and>
      map (rl_buf st) [0..<length line + 1] = line @ [NUL] \<and> length line \<le> 254"
    using assms(3) st(3) by (auto simp: readline_step_def)
  show "\<exists>st. readline prompt buffer [] (keys @ CHR 0x03 # rest) = Returned (-1) st rest \<and> rl_buf st 0 = NUL"
    using st(3) by (auto simp: readline_step_def)
qed

theorem readline_line_witness:
  "\<exists>st. readline ''> '' (\<lambda>_. NUL) [] ([CHR ''r'', CHR '' '', CHR ''x'', CHR 0x17, BS, CHR ''s'', CHR 0x0D]) = Returned 1 st [] \<and>
     map (rl_buf st) [0..<2] = [CHR ''s'', NUL]"
proof -
  let ?keys = "[CHR ''r'', CHR '' '', CHR ''x'', CHR 0x17, BS, CHR ''s'']"
  have keys: "list_all is_key ?keys" "list_all printable ''> ''"
    by (simp_all add: is_key_def printable_def)
  have line: "fold edit ?keys [] = ''s''" by code_simp
  from readline_line [OF keys, of "CHR 0x0D" "\<lambda>_. NUL" "[]", unfolded line] show ?thesis
    by (simp add: numeral_2_eq_2)
qed

text \<open>C29: whatever bytes arrive, nothing behind the first 255 bytes of the buffer is written, at most
  254 characters are kept, and a line that is returned ends with a NUL.\<close>

theorem readline_bounded:
  "case readline prompt buffer out input of
     Waiting st \<Rightarrow> rl_n st \<le> 254 \<and> rl_p st = rl_n st \<and> (\<forall>i\<ge>255. rl_buf st i = buffer i)
   | Returned r st rest \<Rightarrow> r \<le> 254 \<and> rl_buf st (nat r) = NUL \<and> (\<forall>i\<ge>255. rl_buf st i = buffer i)"
proof -
  let ?st = "\<lparr>rl_buf = buffer(0 := NUL), rl_p = 0, rl_n = 0, rl_col = int (length prompt), rl_out = out @ prompt\<rparr>"
  have "rl_bounded buffer ?st" by (simp add: rl_bounded_def)
  from readline_loop_bounded [OF this, of "int (length prompt)" input] show ?thesis
    by (auto simp: readline_def readline_into_buffer_def rl_bounded_def split: rl_result.splits)
qed

theorem readline_bounded_witness:
  "\<exists>st. readline ''> '' (\<lambda>_. CHR ''x'') [] ''a'' = Waiting st \<and> rl_n st \<le> 254 \<and> rl_buf st 300 = CHR ''x''"
proof -
  obtain st where st: "readline ''> '' (\<lambda>_. CHR ''x'') [] ''a'' = Waiting st"
    by (simp add: readline_def readline_into_buffer_def readline_step_def Let_def)
  show ?thesis
    using readline_bounded [where prompt = "''> ''" and buffer = "\<lambda>_. CHR ''x''" and out = "[]" and input = "''a''"]
    by (auto simp: st)
qed

end
