(* ===== verification/Command.thy ===== *)
theory Command
  imports CString Mss "HOL-Library.Multiset" "HOL-Library.List_Lexorder"
begin

text \<open>
  The command table (\<^verbatim>\<open>common/command.c\<close>): looking up a command by its name or an abbreviation
  of it, the usage message, and the \<open>help\<close> command with its sorted list.  \<open>'c\<close> stands for the
  pointers to the handlers.
\<close>

section \<open>Definitions\<close>

record 'c cmd_tbl =
  cmd_name :: string
  maxargs :: nat
  repeatable :: int
  cmd :: 'c
  usage :: "string option"
  cmd_help :: "string option"

text \<open>The string functions of \<^verbatim>\<open>string.c\<close> as the table uses them, on strings instead of addresses.\<close>

definition byte :: "char \<Rightarrow> u8" where
  "byte c = of_char c"

fun strcmp_s :: "string \<Rightarrow> string \<Rightarrow> int" where
  "strcmp_s [] [] = 0"
| "strcmp_s [] (d # t) = (if sint (0 - byte d) \<noteq> 0 then sint (0 - byte d) else 0)"
| "strcmp_s (c # s) [] = (if sint (byte c) \<noteq> 0 then sint (byte c) else 0)"
| "strcmp_s (c # s) (d # t) =
     (if sint (byte c - byte d) \<noteq> 0 \<or> byte c = 0 then sint (byte c - byte d) else strcmp_s s t)"

definition strncmp_eq :: "string \<Rightarrow> string \<Rightarrow> nat \<Rightarrow> bool" where
  "strncmp_eq s t n \<longleftrightarrow> take n s = take n t"

text \<open>\<open>len\<close> is the length of the part before the first dot.\<close>

definition base_len :: "string \<Rightarrow> nat" where
  "base_len s = length (takeWhile (\<lambda>c. c \<noteq> CHR ''.'') s)"

fun find_cmd_loop :: "string \<Rightarrow> nat \<Rightarrow> 'c cmd_tbl list \<Rightarrow> 'c cmd_tbl option \<Rightarrow> nat \<Rightarrow> 'c cmd_tbl option" where
  "find_cmd_loop s len [] cmdtp_temp n_found = (if n_found = 1 then cmdtp_temp else None)"
| "find_cmd_loop s len (cmdtp # table) cmdtp_temp n_found =
     (if strncmp_eq s (cmd_name cmdtp) len
      then (if len = length (cmd_name cmdtp) then Some cmdtp
            else find_cmd_loop s len table (Some cmdtp) (n_found + 1))
      else find_cmd_loop s len table cmdtp_temp n_found)"

definition find_cmd_tbl :: "string \<Rightarrow> 'c cmd_tbl list \<Rightarrow> 'c cmd_tbl option" where
  "find_cmd_tbl s table = find_cmd_loop s (base_len s) table None 0"

text \<open>The return value and the text, with \<open>CONFIG_SYS_LONGHELP\<close>.\<close>

definition cmd_usage :: "'c cmd_tbl \<Rightarrow> (int \<times> string) option" where
  "cmd_usage cmdtp =
     do { s \<leftarrow> sprintf (''%s - %s'' @ nl @ nl) [VStr (Some (cmd_name cmdtp)), VStr (usage cmdtp)];
          t \<leftarrow> sprintf (''Usage:'' @ nl @ ''%s '') [VStr (Some (cmd_name cmdtp))];
          Some (case cmd_help cmdtp of
                  None \<Rightarrow> (1, s @ t @ ''- No additional help available.'' @ nl)
                | Some h \<Rightarrow> (0, s @ t @ h @ nl)) }"

text \<open>The bubble sort of \<open>_do_help\<close>: one pass over the first \<open>i + 1\<close> entries, with the number of
  swaps, and the passes.\<close>

fun bubble :: "nat \<Rightarrow> 'c cmd_tbl list \<Rightarrow> nat \<Rightarrow> 'c cmd_tbl list \<times> nat" where
  "bubble (Suc i) (a # b # l) swaps =
     (if strcmp_s (cmd_name a) (cmd_name b) > 0
      then (let (l', n) = bubble i (a # l) (swaps + 1) in (b # l', n))
      else (let (l', n) = bubble i (b # l) swaps in (a # l', n)))"
| "bubble i l swaps = (l, swaps)"

fun sort_cmds :: "nat \<Rightarrow> 'c cmd_tbl list \<Rightarrow> 'c cmd_tbl list" where
  "sort_cmds 0 l = l"
| "sort_cmds (Suc i) l = (let (l', swaps) = bubble (Suc i) l 0 in if swaps = 0 then l' else sort_cmds i l')"

text \<open>The list of commands; \<open>brk\<close> gives the answers of \<open>ctrlc\<close>.\<close>

fun help_list :: "'c cmd_tbl list \<Rightarrow> (nat \<Rightarrow> bool) \<Rightarrow> nat \<Rightarrow> string \<Rightarrow> (int \<times> string) option" where
  "help_list [] brk k out = Some (0, out)"
| "help_list (c # l) brk k out =
     (if brk k then Some (1, out)
      else (case usage c of
              None \<Rightarrow> help_list l brk (k + 1) out
            | Some u \<Rightarrow> Option.bind (sprintf (''%-*s- %s'' @ nl) [VInt 8, VStr (Some (cmd_name c)), VStr (Some u)])
                (\<lambda>s. help_list l brk (k + 1) (out @ s))))"

fun help_args :: "'c cmd_tbl list \<Rightarrow> string list \<Rightarrow> int \<Rightarrow> string \<Rightarrow> (int \<times> string) option" where
  "help_args table [] rcode out = Some (rcode, out)"
| "help_args table (a # argv) rcode out =
     (case find_cmd_tbl a table of
        Some cmdtp \<Rightarrow> Option.bind (cmd_usage cmdtp) (\<lambda>(r, s). help_args table argv (or rcode r) (out @ s))
      | None \<Rightarrow> Option.bind
          (sprintf (''Unknown command '' @ [CHR 0x27] @ ''%s'' @ [CHR 0x27] @ '' - try '' @ [CHR 0x27] @ ''help'' @ [CHR 0x27] @
             '' without arguments for list of all known commands'' @ nl @ nl) [VStr (Some a)])
          (\<lambda>s. help_args table argv 1 (out @ s)))"

definition do_help :: "'c cmd_tbl list \<Rightarrow> (nat \<Rightarrow> bool) \<Rightarrow> string list \<Rightarrow> (int \<times> string) option" where
  "do_help table brk argv =
     (if length argv = 1 then help_list (sort_cmds (length table - 1) table) brk 0 []
      else help_args table (tl argv) 0 [])"

section \<open>Lemmas\<close>

text \<open>The string functions agree with those over the byte store.\<close>

lemma byte_inj [simp]: "byte c = byte d \<longleftrightarrow> c = d"
proof -
  have "unat (of_nat (of_char c) :: u8) = of_char c" for c
    by (simp only: unsigned_of_nat) (simp add: take_bit_eq_mod)
  then have "char_of (unat (byte c)) = c" for c by (metis byte_def of_nat_of_char char_of_char)
  then show ?thesis by metis
qed

lemma strcmp_strings:
  "cstr m a (map byte s) \<Longrightarrow> cstr m b (map byte t) \<Longrightarrow> strcmp m a b = Some (strcmp_s s t)"
proof (induction s t arbitrary: a b rule: strcmp_s.induct)
  case (4 c s d t)
  then show ?case by (cases "c = d"; subst strcmp.simps) (simp_all add: sint_diff_0)
qed (subst strcmp.simps, simp add: sint_diff_0 signed_eq_0_iff)+

lemma strncmp_strings:
  "cstr m a (map byte s) \<Longrightarrow> cstr m b (map byte t) \<Longrightarrow> strncmp_loop m a b n 0 = 0 \<longleftrightarrow> strncmp_eq s t n"
proof (induction n arbitrary: a b s t)
  case (Suc n)
  show ?case
  proof (cases s; cases t)
    fix c s' d t' assume "s = c # s'" "t = d # t'"
    then show ?case
      using Suc.prems Suc.IH [of "Suc a" s' "Suc b" t'] by (simp add: strncmp_eq_def sint_diff_0 Let_def)
  qed (use Suc.prems in \<open>auto simp: strncmp_eq_def sint_diff_0 signed_eq_0_iff Let_def\<close>)
qed (simp add: strncmp_eq_def)

text \<open>The table by names, and names of 7-bit characters.\<close>

definition name_key :: "'c cmd_tbl \<Rightarrow> u8 list" where
  "name_key c = map byte (cmd_name c)"

definition ascii :: "string \<Rightarrow> bool" where
  "ascii s \<longleftrightarrow> list_all (\<lambda>c. byte c \<noteq> 0 \<and> byte c < 128) s"

lemma strcmp_s_pos: "ascii s \<Longrightarrow> ascii t \<Longrightarrow> 0 < strcmp_s s t \<longleftrightarrow> map byte t < map byte s"
proof (induction s t rule: strcmp_s.induct)
  case (2 d t)
  then show ?case using sint_diff_small [of 0 "byte d"] by (auto simp: ascii_def)
next
  case (3 c s)
  then show ?case using sint_diff_small [of "byte c" 0] by (auto simp: ascii_def word_neq_0_conv word_less_def)
next
  case (4 c s d t)
  then show ?case using sint_diff_small [of "byte c" "byte d"]
    by (cases "byte c = byte d") (auto simp: ascii_def word_less_def sint_diff_0)
qed simp

text \<open>One pass of the sort.\<close>

lemma take_1: "take (Suc 0) l = (if l = [] then [] else [l ! 0])"
  by (cases l) auto

lemma bubble_mset: "mset (fst (bubble i l s)) = mset l"
  by (induction i l s rule: bubble.induct) (auto split: prod.splits simp: Let_def)

lemma bubble_swaps: "s \<le> snd (bubble i l s)"
  by (induction i l s rule: bubble.induct) (auto split: prod.splits simp: Let_def)

lemma bubble_drop: "drop (Suc i) (fst (bubble i l s)) = drop (Suc i) l"
  by (induction i l s rule: bubble.induct) (auto split: prod.splits simp: Let_def)

lemma bubble_stable:
  "list_all (\<lambda>c. ascii (cmd_name c)) l \<Longrightarrow>
   filter (\<lambda>x. k = name_key x) (fst (bubble i l s)) = filter (\<lambda>x. k = name_key x) l"
proof (induction i l s rule: bubble.induct)
  case (1 i a b l swaps)
  then show ?case
    by (cases "0 < strcmp_s (cmd_name a) (cmd_name b)")
      (auto split: prod.splits simp: Let_def strcmp_s_pos name_key_def)
qed auto

lemma bubble_no_swap:
  "list_all (\<lambda>c. ascii (cmd_name c)) l \<Longrightarrow> snd (bubble i l s) = s \<Longrightarrow>
   fst (bubble i l s) = l \<and> sorted (map name_key (take (Suc i) l))"
proof (induction i l s rule: bubble.induct)
  case (1 i a b l swaps)
  show ?case
  proof (cases "0 < strcmp_s (cmd_name a) (cmd_name b)")
    case True
    then show ?thesis
      using 1(4) bubble_swaps [of "swaps + 1" i "a # l"] by (auto split: prod.splits simp: Let_def)
  next
    case False
    then have "name_key a \<le> name_key b" using 1(3) by (simp add: strcmp_s_pos name_key_def)
    then show ?thesis
      using 1(2) [OF False] 1(3,4) False by (auto split: prod.splits simp: Let_def)
  qed
qed (auto simp: take_1)

lemma bubble_take_mset: "mset (take (Suc i) (fst (bubble i l s))) = mset (take (Suc i) l)"
proof -
  have "mset (take (Suc i) (fst (bubble i l s))) + mset (drop (Suc i) (fst (bubble i l s))) =
      mset (take (Suc i) l) + mset (drop (Suc i) l)"
    using bubble_mset [of i l s] by (simp flip: mset_append)
  then show ?thesis by (simp add: bubble_drop)
qed

lemma bubble_max:
  "list_all (\<lambda>c. ascii (cmd_name c)) l \<Longrightarrow> i < length l \<Longrightarrow> x \<in> set (take (Suc i) (fst (bubble i l s))) \<Longrightarrow>
   name_key x \<le> name_key (fst (bubble i l s) ! i)"
proof (induction i l s arbitrary: x rule: bubble.induct)
  case (1 i a b l swaps)
  have step: "name_key x \<le> name_key (fst (bubble i (d # l) s) ! i)"
    if "name_key c \<le> name_key d" "x \<in> set (take (Suc (Suc i)) (c # fst (bubble i (d # l) s)))"
      and IH: "\<And>x. x \<in> set (take (Suc i) (fst (bubble i (d # l) s))) \<Longrightarrow> name_key x \<le> name_key (fst (bubble i (d # l) s) ! i)"
    for c d s
  proof -
    have "d \<in> set (take (Suc i) (fst (bubble i (d # l) s)))"
      using arg_cong [OF bubble_take_mset [of i "d # l" s], of set_mset] by simp
    with IH that(1,2) show ?thesis by (auto intro: order_trans)
  qed
  have asc: "ascii (cmd_name a)" "ascii (cmd_name b)" "list_all (\<lambda>c. ascii (cmd_name c)) (a # l)"
    "list_all (\<lambda>c. ascii (cmd_name c)) (b # l)" and len: "i < length (a # l)" "i < length (b # l)"
    using 1(3,4) by auto
  show ?case
  proof (cases "0 < strcmp_s (cmd_name a) (cmd_name b)")
    case True
    then have le: "name_key b \<le> name_key a" using asc(1,2) by (simp add: strcmp_s_pos name_key_def)
    have b: "fst (bubble (Suc i) (a # b # l) swaps) = b # fst (bubble i (a # l) (swaps + 1))"
      using True by (simp split: prod.split)
    have "x \<in> set (take (Suc (Suc i)) (b # fst (bubble i (a # l) (swaps + 1))))" using 1(5) by (simp only: b)
    then show ?thesis
      unfolding b nth_Cons_Suc by (rule step [OF le _ 1(1) [OF True asc(3) len(1)]])
  next
    case False
    then have le: "name_key a \<le> name_key b" using asc(1,2) by (simp add: strcmp_s_pos name_key_def)
    have b: "fst (bubble (Suc i) (a # b # l) swaps) = a # fst (bubble i (b # l) swaps)"
      using False by (simp split: prod.split)
    have "x \<in> set (take (Suc (Suc i)) (a # fst (bubble i (b # l) swaps)))" using 1(5) by (simp only: b)
    then show ?thesis
      unfolding b nth_Cons_Suc by (rule step [OF le _ 1(2) [OF False asc(4) len(2)]])
  qed
qed (auto simp: take_1)

text \<open>The passes.\<close>

lemma sort_cmds_frame:
  "mset (sort_cmds i l) = mset l" "drop (Suc i) (sort_cmds i l) = drop (Suc i) l"
proof -
  have "mset (sort_cmds i l) = mset l \<and> drop (Suc i) (sort_cmds i l) = drop (Suc i) l"
  proof (induction i l rule: sort_cmds.induct)
    case (2 i l)
    obtain l' n where b: "bubble (Suc i) l 0 = (l', n)" by fastforce
    have l': "mset l' = mset l" "drop (Suc (Suc i)) l' = drop (Suc (Suc i)) l"
      using bubble_mset [of "Suc i" l 0] bubble_drop [of "Suc i" l 0] by (simp_all add: b)
    have d: "drop (Suc (Suc i)) r = drop 1 (drop (Suc i) r)" for r :: "'a cmd_tbl list"
      by simp
    have "drop (Suc (Suc i)) (sort_cmds i l') = drop (Suc (Suc i)) l'" if "n \<noteq> 0"
      using 2 [OF b [symmetric] refl that] unfolding d by metis
    then show ?case using l' 2 [OF b [symmetric] refl] by (simp add: b)
  qed simp
  then show "mset (sort_cmds i l) = mset l" "drop (Suc i) (sort_cmds i l) = drop (Suc i) l" by blast+
qed

lemma sort_cmds_sorted:
  assumes "list_all (\<lambda>c. ascii (cmd_name c)) l" and "i < length l"
  shows "sorted (map name_key (take (Suc i) (sort_cmds i l))) \<and>
    filter (\<lambda>x. k = name_key x) (sort_cmds i l) = filter (\<lambda>x. k = name_key x) l"
  using assms
proof (induction i l rule: sort_cmds.induct)
  case (1 l)
  then show ?case by (cases l) auto
next
  case (2 i l)
  obtain l' n where b: "bubble (Suc i) l 0 = (l', n)" by fastforce
  have stable: "filter (\<lambda>x. k = name_key x) l' = filter (\<lambda>x. k = name_key x) l"
    using bubble_stable [OF 2(2), where i = "Suc i" and s = 0] by (simp add: b)
  show ?case
  proof (cases "n = 0")
    case True
    then show ?thesis using bubble_no_swap [OF 2(2), where i = "Suc i" and s = 0] stable by (simp add: b)
  next
    case False
    have m: "mset l' = mset l" using bubble_mset [of "Suc i" l 0] by (simp add: b)
    then have l': "list_all (\<lambda>c. ascii (cmd_name c)) l'" "Suc i < length l'"
      using 2(2,3) by (auto simp: list.pred_set dest: mset_eq_setD mset_eq_length)
    let ?r = "sort_cmds i l'"
    have len: "length ?r = length l'" using sort_cmds_frame(1) by (rule mset_eq_length)
    from sort_cmds_frame(2) [of i l'] have nth: "?r ! Suc i = l' ! Suc i"
      using l'(2) len by (metis Cons_nth_drop_Suc list.inject)
    have "mset (take (Suc i) ?r) + mset (drop (Suc i) ?r) = mset (take (Suc i) l') + mset (drop (Suc i) l')"
      using sort_cmds_frame(1) [of i l'] by (simp flip: mset_append)
    then have "set (take (Suc i) ?r) = set (take (Suc i) l')"
      using sort_cmds_frame(2) [of i l'] by (auto dest: mset_eq_setD)
    then have "\<forall>x\<in>set (take (Suc i) ?r). name_key x \<le> name_key (l' ! Suc i)"
      using bubble_max [OF 2(2,3), of _ 0] set_take_subset_set_take [of "Suc i" "Suc (Suc i)" l'] by (auto simp: b)
    moreover have "sorted (map name_key (take (Suc i) ?r))" "filter (\<lambda>x. k = name_key x) ?r = filter (\<lambda>x. k = name_key x) l'"
      using 2(1) [OF b [symmetric] refl False l'(1)] l'(2) by simp_all
    ultimately have "sorted (map name_key (take (Suc (Suc i)) ?r))"
      using l'(2) len by (simp add: take_Suc_conv_app_nth [of "Suc i"] nth sorted_append)
    then show ?thesis using False stable \<open>filter _ ?r = _\<close> by (simp add: b)
  qed
qed

lemma sort_cmds_sort_key:
  assumes "list_all (\<lambda>c. ascii (cmd_name c)) l"
  shows "sort_cmds (length l - 1) l = sort_key name_key l"
proof (cases l)
  case Cons
  then have i: "length l - 1 < length l" by simp
  have "length (sort_cmds (length l - 1) l) = length l" using sort_cmds_frame(1) by (rule mset_eq_length)
  then have "take (Suc (length l - 1)) (sort_cmds (length l - 1) l) = sort_cmds (length l - 1) l" using i by simp
  then show ?thesis
    using sort_cmds_sorted [OF assms i] sort_cmds_frame(1)
    by (intro properties_for_sort_key [symmetric]) auto
qed simp

text \<open>The search.\<close>

lemma find_cmd_loop_full:
  "list_all (\<lambda>c. \<not> (strncmp_eq s (cmd_name c) len \<and> len = length (cmd_name c))) t1 \<Longrightarrow>
   strncmp_eq s (cmd_name c) len \<Longrightarrow> len = length (cmd_name c) \<Longrightarrow> find_cmd_loop s len (t1 @ c # t2) tmp n = Some c"
  by (induction t1 arbitrary: tmp n) auto

lemma find_cmd_loop_abbrev:
  "list_all (\<lambda>c. \<not> (strncmp_eq s (cmd_name c) len \<and> len = length (cmd_name c))) table \<Longrightarrow>
   find_cmd_loop s len table tmp n =
     (case filter (\<lambda>c. strncmp_eq s (cmd_name c) len) table of
        [] \<Rightarrow> (if n = 1 then tmp else None)
      | [c] \<Rightarrow> (if n = 0 then Some c else None)
      | _ \<Rightarrow> None)"
  by (induction table arbitrary: tmp n) (auto split: list.splits)

section \<open>Properties\<close>

text \<open>C34: a command is found under its name, also with a modifier behind a dot; under an abbreviation when
  exactly one name of the table begins with it; and not otherwise.  In a table with distinct names an exact
  match always wins over abbreviations.\<close>

theorem find_cmd_correct:
  "find_cmd_tbl s table =
    (let base = takeWhile (\<lambda>c. c \<noteq> CHR ''.'') s in
     case filter (\<lambda>c. cmd_name c = base) table of
       c # _ \<Rightarrow> Some c
     | [] \<Rightarrow> (case filter (\<lambda>c. take (length base) (cmd_name c) = base) table of [c] \<Rightarrow> Some c | _ \<Rightarrow> None))"
proof -
  define base where "base = takeWhile (\<lambda>c. c \<noteq> CHR ''.'') s"
  have base: "take (base_len s) s = base" "length base = base_len s"
    by (simp_all add: base_def base_len_def takeWhile_eq_take [symmetric])
  have eq: "strncmp_eq s t (base_len s) \<longleftrightarrow> take (length base) t = base" for t
    using base by (auto simp: strncmp_eq_def)
  have full: "strncmp_eq s t (base_len s) \<and> base_len s = length t \<longleftrightarrow> t = base" for t
    using base(2) by (auto simp: eq)
  have "find_cmd_tbl s table = (case filter (\<lambda>c. cmd_name c = base) table of
       c # _ \<Rightarrow> Some c
     | [] \<Rightarrow> (case filter (\<lambda>c. take (length base) (cmd_name c) = base) table of [c] \<Rightarrow> Some c | _ \<Rightarrow> None))"
  proof (cases "filter (\<lambda>c. cmd_name c = base) table")
    case Nil
    then have "list_all (\<lambda>c. \<not> (strncmp_eq s (cmd_name c) (base_len s) \<and> base_len s = length (cmd_name c))) table"
      by (auto simp: full filter_empty_conv list.pred_set)
    from find_cmd_loop_abbrev [OF this, of None 0] Nil show ?thesis
      by (simp add: find_cmd_tbl_def eq split: list.splits)
  next
    case (Cons c cs)
    then obtain t1 t2 where t: "table = t1 @ c # t2" "\<forall>d\<in>set t1. cmd_name d \<noteq> base" "cmd_name c = base"
      by (auto simp: filter_eq_Cons_iff)
    then have "list_all (\<lambda>c. \<not> (strncmp_eq s (cmd_name c) (base_len s) \<and> base_len s = length (cmd_name c))) t1"
      by (auto simp: full list.pred_set)
    moreover have "strncmp_eq s (cmd_name c) (base_len s)" "base_len s = length (cmd_name c)"
      using full [THEN iffD2, OF t(3)] by blast+
    ultimately have "find_cmd_loop s (base_len s) (t1 @ c # t2) None 0 = Some c"
      by (rule find_cmd_loop_full)
    with t(2,3) show ?thesis
      by (auto simp: find_cmd_tbl_def t(1) split: list.splits)
  qed
  then show ?thesis unfolding base_def Let_def .
qed

text \<open>\<open>help\<close> lists the table in alphabetical order: for names of 7-bit characters the bubble
  sort with its early exit is the stable sort by name.\<close>

lemma help_sorted:
  assumes "list_all (\<lambda>c. ascii (cmd_name c)) table"
  shows "do_help table brk [a] = help_list (sort_key name_key table) brk 0 []"
  using sort_cmds_sort_key [OF assms] by (simp add: do_help_def)

definition sample_cmds :: "nat cmd_tbl list" where
  "sample_cmds = map (\<lambda>(n, k). \<lparr>cmd_name = n, maxargs = 4, repeatable = 1, cmd = k, usage = Some n, cmd_help = None\<rparr>)
     [(''run'', 0), (''bootm'', 1), (''sf'', 2), (''bootp'', 3)]"

lemma help_sorted_example:
  "do_help sample_cmds (\<lambda>_. False) [''help''] = help_list (sort_key name_key sample_cmds) (\<lambda>_. False) 0 [] \<and>
     map cmd_name (sort_cmds 3 sample_cmds) = [''bootm'', ''bootp'', ''run'', ''sf'']"
proof
  have "list_all (\<lambda>c. ascii (cmd_name c)) sample_cmds" by code_simp
  then show "do_help sample_cmds (\<lambda>_. False) [''help''] = help_list (sort_key name_key sample_cmds) (\<lambda>_. False) 0 []"
    by (rule help_sorted)
  show "map cmd_name (sort_cmds 3 sample_cmds) = [''bootm'', ''bootp'', ''run'', ''sf'']" by code_simp
qed

end
