(* ===== verification/Cmdline.thy ===== *)
theory Cmdline
  imports Readline Command
begin

text \<open>
  The simple command line parser of \<^verbatim>\<open>common/main.c\<close>: splitting into words (\<open>parse_line\<close>), the
  substitution of variables (\<open>process_macros\<close>), and \<open>run_command\<close> with its separators, look-up and
  checks.  The handlers of the commands, the console and the Ctrl-C flag are parameters.
\<close>

section \<open>Definitions\<close>

abbreviation (input) CONFIG_SYS_MAXARGS :: nat where "CONFIG_SYS_MAXARGS \<equiv> 32"
abbreviation (input) CMD_FLAG_BOOTD :: int where "CMD_FLAG_BOOTD \<equiv> 2"
abbreviation (input) sq :: char where "sq \<equiv> CHR 0x27"
abbreviation (input) bsl :: char where "bsl \<equiv> CHR 0x5C"

definition is_blank :: "char \<Rightarrow> bool" where
  "is_blank c \<longleftrightarrow> c = CHR '' '' \<or> c = TAB"

text \<open>The turns of the loop that are left (\<open>CONFIG_SYS_MAXARGS - nargs\<close>); the result is \<open>argv\<close> and
  whether the "too many args" message was printed.\<close>

fun parse_args :: "nat \<Rightarrow> string \<Rightarrow> string list \<times> bool" where
  "parse_args 0 line = ([], True)"
| "parse_args (Suc k) line =
     (let line = dropWhile is_blank line in
      if line = [] then ([], False)
      else (let arg = takeWhile (\<lambda>c. \<not> is_blank c) line; line = dropWhile (\<lambda>c. \<not> is_blank c) line in
        if line = [] then ([arg], False)
        else (let (argv, many) = parse_args k (tl line) in (arg # argv, many))))"

definition parse_line :: "string \<Rightarrow> string list \<times> bool" where
  "parse_line line = parse_args CONFIG_SYS_MAXARGS line"

text \<open>The loop of \<open>process_macros\<close>: the input that is left, the previous character, the state, the
  input from \<open>varname_start\<close> on, \<open>outputcnt\<close> and the output so far.\<close>

fun copy_val :: "string \<Rightarrow> nat \<Rightarrow> string \<Rightarrow> nat \<times> string" where
  "copy_val (c # v) (Suc outputcnt) out = copy_val v outputcnt (out @ [c])"
| "copy_val v outputcnt out = (outputcnt, out)"

definition macro_char ::
    "(string \<Rightarrow> string option) \<Rightarrow> char \<Rightarrow> char \<Rightarrow> string \<Rightarrow> nat \<Rightarrow> string \<Rightarrow> nat \<Rightarrow> string \<Rightarrow> nat \<times> string \<times> nat \<times> string" where
  "macro_char gv prev c consumed state var outputcnt out =
     (if state = 0 then
        (if c = sq \<and> prev \<noteq> bsl then (3, var, outputcnt, out)
         else if c = CHR ''$'' \<and> prev \<noteq> bsl then (1, var, outputcnt, out)
         else (0, var, outputcnt - 1, out @ [c]))
      else if state = 1 then
        (if c = CHR ''('' \<or> c = CHR ''{'' then (2, [], outputcnt, out)
         else (let outputcnt = outputcnt - 1; out = out @ ''$'' in
               if outputcnt \<noteq> 0 then (0, var, outputcnt - 1, out @ [c]) else (0, var, outputcnt, out)))
      else if state = 2 then
        (if c = CHR '')'' \<or> c = CHR ''}'' then
           (let envname = butlast (var @ consumed) in
            case gv envname of
              Some envval \<Rightarrow> (let (outputcnt, out) = copy_val envval outputcnt out in (0, var, outputcnt, out))
            | None \<Rightarrow> (0, var, outputcnt, out))
         else (2, var @ consumed, outputcnt, out))
      else
        (if c = sq \<and> prev \<noteq> bsl then (0, var, outputcnt, out) else (3, var, outputcnt - 1, out @ [c])))"

fun macro_loop ::
    "(string \<Rightarrow> string option) \<Rightarrow> string \<Rightarrow> char \<Rightarrow> nat \<Rightarrow> string \<Rightarrow> nat \<Rightarrow> string \<Rightarrow> nat \<times> string" where
  "macro_loop gv [] prev state var outputcnt out = (outputcnt, out)"
| "macro_loop gv (c # input) prev state var outputcnt out =
     (if outputcnt = 0 then (outputcnt, out)
      else if state \<noteq> 3 \<and> c = bsl \<and> prev \<noteq> bsl then
        (case input of
           [] \<Rightarrow> (outputcnt, out)
         | c' # input' \<Rightarrow>
             (let (state, var, outputcnt, out) = macro_char gv c c' [c, c'] state var outputcnt out
              in macro_loop gv input' c' state var outputcnt out))
      else
        (let (state, var, outputcnt, out) = macro_char gv prev c [c] state var outputcnt out
         in macro_loop gv input c state var outputcnt out))"

definition process_macros :: "(string \<Rightarrow> string option) \<Rightarrow> string \<Rightarrow> string" where
  "process_macros gv input =
     (let (outputcnt, out) = macro_loop gv input NUL 0 [] CONFIG_SYS_CBSIZE []
      in if outputcnt \<noteq> 0 then out else butlast out)"

text \<open>The scan for a separator: the token and what follows the separator.  \<open>prev\<close> is \<open>*(sep-1)\<close>.\<close>

fun find_sep :: "char \<Rightarrow> bool \<Rightarrow> bool \<Rightarrow> string \<Rightarrow> string \<times> string" where
  "find_sep prev inquotes at_start [] = ([], [])"
| "find_sep prev inquotes at_start (c # s) =
     (let inquotes = (if c = sq \<and> prev \<noteq> bsl then \<not> inquotes else inquotes) in
      if \<not> inquotes \<and> c = CHR '';'' \<and> \<not> at_start \<and> prev \<noteq> bsl then ([], s)
      else (let (token, rest) = find_sep c inquotes False s in (c # token, rest)))"

lemma find_sep_length: "length (snd (find_sep prev q st s)) \<le> length s"
  by (induction prev q st s rule: find_sep.induct) (auto simp: Let_def split: prod.splits)

lemma find_sep_less: "s \<noteq> [] \<Longrightarrow> length (snd (find_sep prev q True s)) < length s"
  using find_sep_length by (cases s) (auto simp: Let_def less_Suc_eq_le split: prod.splits, (metis snd_conv)+)

record ('c, 'w) shell =
  sh_getenv :: "'w \<Rightarrow> string \<Rightarrow> string option"
  sh_table :: "'c cmd_tbl list"
  sh_call :: "'c \<Rightarrow> int \<Rightarrow> string list \<Rightarrow> 'w \<Rightarrow> int \<times> 'w"
  sh_bootd :: 'c
  clear_ctrlc :: "'w \<Rightarrow> 'w"
  had_ctrlc :: "'w \<Rightarrow> bool"
  sh_puts :: "string \<Rightarrow> 'w \<Rightarrow> 'w"

definition usage_text :: "'c cmd_tbl \<Rightarrow> string" where
  "usage_text c = (case cmd_usage c of Some (_, s) \<Rightarrow> s | None \<Rightarrow> [])"

text \<open>The loop of \<open>run_command\<close>; \<open>before\<close> is the byte in front of \<open>str\<close>, which the scan reads: for the
  first token that is the byte in front of the buffer, later the NUL put over the separator.\<close>

function run_tokens ::
    "('c, 'w) shell \<Rightarrow> char \<Rightarrow> string \<Rightarrow> int \<Rightarrow> int \<Rightarrow> int \<Rightarrow> 'w \<Rightarrow> int \<times> 'w" where
  "run_tokens S before str flag rc rpt w =
     (if str = [] then (if rc \<noteq> 0 then rc else rpt, w)
      else (let (token, str) = find_sep before False True str;
                finaltoken = process_macros (sh_getenv S w) token;
                (argv, many) = parse_line finaltoken;
                w = (if many then sh_puts S (''** Too many args (max. 32) **'' @ nl) w else w)
       in if argv = [] then run_tokens S NUL str flag (-1) rpt w
          else case find_cmd_tbl (argv ! 0) (sh_table S) of
            None \<Rightarrow> run_tokens S NUL str flag (-1) rpt
                (sh_puts S (''Unknown command '' @ [sq] @ argv ! 0 @ [sq] @ '' - try '' @ [sq] @ ''help'' @ [sq] @ nl) w)
          | Some cmdtp \<Rightarrow>
              if maxargs cmdtp < length argv then run_tokens S NUL str flag (-1) rpt (sh_puts S (usage_text cmdtp) w)
              else if cmd cmdtp = sh_bootd S \<and> and flag CMD_FLAG_BOOTD \<noteq> 0
              then run_tokens S NUL str flag (-1) rpt (sh_puts S ([sq] @ ''bootd'' @ [sq] @ '' recursion detected'' @ nl) w)
              else (let flag = (if cmd cmdtp = sh_bootd S then or flag CMD_FLAG_BOOTD else flag);
                        (r, w) = sh_call S (cmd cmdtp) flag argv w;
                        rc = (if r \<noteq> 0 then -1 else rc);
                        rpt = and rpt (repeatable cmdtp)
                    in if had_ctrlc S w then (-1, w) else run_tokens S NUL str flag rc rpt w)))"
  by pat_completeness auto
termination
  by (relation "measure (\<lambda>(S, b, str, flag, rc, rpt, w). length str)")
    (use find_sep_less in \<open>fastforce simp: prod_eq_iff\<close>)+

declare run_tokens.simps [simp del]

definition run_command :: "('c, 'w) shell \<Rightarrow> char \<Rightarrow> string option \<Rightarrow> int \<Rightarrow> 'w \<Rightarrow> int \<times> 'w" where
  "run_command S before cmdstr flag w =
     (let w = clear_ctrlc S w in
      case cmdstr of
        None \<Rightarrow> (-1, w)
      | Some s \<Rightarrow>
          if s = [] then (-1, w)
          else if CONFIG_SYS_CBSIZE \<le> length s then (-1, sh_puts S (''## Command too long!'' @ nl) w)
          else run_tokens S before s flag 0 1 w)"

section \<open>Words\<close>

function words :: "string \<Rightarrow> string list" where
  "words s =
     (let s = dropWhile is_blank s in
      if s = [] then [] else takeWhile (\<lambda>c. \<not> is_blank c) s # words (dropWhile (\<lambda>c. \<not> is_blank c) s))"
  by pat_completeness auto
termination
proof (relation "measure length")
  fix s t :: string
  assume t: "t = dropWhile is_blank s" "t \<noteq> []"
  then have "\<not> is_blank (hd t)" using hd_dropWhile by metis
  then have "length (dropWhile (\<lambda>c. \<not> is_blank c) t) < length t"
    using t(2) by (cases t) (auto simp: less_Suc_eq_le length_dropWhile_le)
  also have "length t \<le> length s" by (simp add: t(1) length_dropWhile_le)
  finally show "(dropWhile (\<lambda>c. \<not> is_blank c) t, s) \<in> measure length" by simp
qed simp

declare words.simps [simp del]

lemma words_Nil [simp]: "words [] = []"
  by (subst words.simps) simp

lemma words_blank: "is_blank b \<Longrightarrow> words (b # s) = words s"
  by (subst (1 2) words.simps) simp

lemma words_blanks: "(\<forall>c\<in>set s. is_blank c) \<longleftrightarrow> words s = []"
  by (subst words.simps) (simp add: Let_def dropWhile_eq_Nil_conv)

lemma parse_args_words:
  "parse_args k line =
    (take k (words line), k < length (words line) \<or> length (words line) = k \<and> (k = 0 \<or> is_blank (last line)))"
proof (induction k line rule: parse_args.induct)
  case (2 k line)
  let ?t = "dropWhile is_blank line"
  let ?a = "takeWhile (\<lambda>c. \<not> is_blank c) ?t" and ?r = "dropWhile (\<lambda>c. \<not> is_blank c) ?t"
  show ?case
  proof (cases "?t = []")
    case True
    then show ?thesis by (subst (1 2 3) words.simps) simp
  next
    case False
    then have w: "words line = ?a # words ?r" by (subst words.simps) (simp add: Let_def)
    have line: "line = takeWhile is_blank line @ ?a @ ?r" by simp
    show ?thesis
    proof (cases "?r = []")
      case True
      then have "\<forall>c\<in>set ?t. \<not> is_blank c" by (simp only: dropWhile_eq_Nil_conv)
      moreover have "last line = last ?t"
        using False by (metis last_appendR takeWhile_dropWhile_id)
      ultimately have "\<not> is_blank (last line)" using False last_in_set by metis
      moreover have "words line = [?a]" by (simp only: w True words_Nil)
      ultimately show ?thesis
        using True False by (simp add: Let_def)
    next
      case rest: False
      then obtain b r where r: "?r = b # r" by (cases ?r) auto
      then have b: "is_blank b" using hd_dropWhile [of "\<lambda>c. \<not> is_blank c" ?t] by simp
      have "is_blank (last line)" if "words r = []"
      proof -
        have "\<forall>c\<in>set (b # r). is_blank c" using that b words_blanks [of r] by auto
        then show ?thesis by (subst line) (simp add: r)
      qed
      moreover have "last line = last r" if "words r \<noteq> []"
      proof -
        have "r \<noteq> []" using that by auto
        then show ?thesis by (subst line) (simp add: r)
      qed
      ultimately show ?thesis
        using 2 [OF refl False refl refl rest] False r w words_blank [OF b, of r]
        by (cases "words r = []") (auto simp: Let_def split: prod.splits)
    qed
  qed
qed simp

definition is_word :: "string \<Rightarrow> bool" where
  "is_word w \<longleftrightarrow> w \<noteq> [] \<and> (\<forall>c\<in>set w. \<not> is_blank c)"

lemma words_is_word: "w \<in> set (words s) \<Longrightarrow> is_word w \<and> length w \<le> length s"
proof (induction s rule: words.induct)
  case (1 s)
  let ?t = "dropWhile is_blank s"
  have le: "length (takeWhile (\<lambda>c. \<not> is_blank c) ?t) \<le> length s"
    using length_takeWhile_le length_dropWhile_le order_trans by blast
  show ?case
  proof (cases "?t = []")
    case True
    then show ?thesis using 1(2) by (simp add: words.simps [of s])
  next
    case False
    then have "\<not> is_blank (hd ?t)" using hd_dropWhile by blast
    then have "is_word (takeWhile (\<lambda>c. \<not> is_blank c) ?t)"
      using False by (cases ?t) (auto simp: is_word_def dest: set_takeWhileD)
    moreover have "length (dropWhile (\<lambda>c. \<not> is_blank c) ?t) \<le> length s"
      using length_dropWhile_le order_trans by blast
    moreover have "words s = takeWhile (\<lambda>c. \<not> is_blank c) ?t # words (dropWhile (\<lambda>c. \<not> is_blank c) ?t)"
      using False by (subst words.simps) (simp add: Let_def)
    ultimately show ?thesis
      using 1(1) [OF refl False] 1(2) le by auto
  qed
qed

fun join :: "string list \<Rightarrow> string" where
  "join [] = []"
| "join [w] = w"
| "join (w # ws) = w @ CHR '' '' # join ws"

lemma words_word: "is_word w \<Longrightarrow> s = [] \<or> is_blank (hd s) \<Longrightarrow> words (w @ s) = w # words s"
proof -
  assume w: "is_word w" and s: "s = [] \<or> is_blank (hd s)"
  have d: "dropWhile is_blank (w @ s) = w @ s" using w by (cases w) (auto simp: is_word_def)
  have "takeWhile (\<lambda>c. \<not> is_blank c) (w @ s) = w" "dropWhile (\<lambda>c. \<not> is_blank c) (w @ s) = s"
    using w s by (cases s; simp add: is_word_def takeWhile_append2 dropWhile_append2)+
  then show ?thesis using w by (subst words.simps) (simp add: Let_def d is_word_def)
qed

lemma words_join: "list_all is_word ws \<Longrightarrow> words (join ws) = ws"
proof (induction ws rule: join.induct)
  case 1
  then show ?case by simp
next
  case (2 w)
  then show ?case using words_word [of w "[]"] by simp
next
  case (3 w v ws)
  then show ?case
    using words_word [of w "CHR '' '' # join (v # ws)"] words_blank [of "CHR '' ''" "join (v # ws)"]
    by (simp add: is_blank_def)
qed

section \<open>Variables\<close>

datatype seg = Lit string | Var string | Quoted string

fun render :: "seg \<Rightarrow> string" where
  "render (Lit s) = s"
| "render (Var n) = ''${'' @ n @ ''}''"
| "render (Quoted s) = sq # s @ [sq]"

fun seg_value :: "(string \<Rightarrow> string option) \<Rightarrow> seg \<Rightarrow> string" where
  "seg_value gv (Lit s) = s"
| "seg_value gv (Var n) = (case gv n of None \<Rightarrow> [] | Some v \<Rightarrow> v)"
| "seg_value gv (Quoted s) = s"

fun seg_ok :: "seg \<Rightarrow> bool" where
  "seg_ok (Lit s) = list_all (\<lambda>c. c \<notin> {sq, bsl, CHR ''$''}) s"
| "seg_ok (Var n) = list_all (\<lambda>c. c \<notin> {bsl, CHR '')'', CHR ''}''}) n"
| "seg_ok (Quoted s) = list_all (\<lambda>c. c \<notin> {sq, bsl}) s"

lemma macro_lit:
  "list_all (\<lambda>c. c \<notin> {sq, bsl, CHR ''$''}) s \<Longrightarrow> prev \<noteq> bsl \<Longrightarrow> length s < oc \<Longrightarrow>
   \<exists>p. p \<noteq> bsl \<and> macro_loop gv (s @ rest) prev 0 var oc out = macro_loop gv rest p 0 var (oc - length s) (out @ s)"
proof (induction s arbitrary: prev oc out)
  case (Cons c s)
  then show ?case
    using Cons.IH [of c "oc - 1" "out @ [c]"] by (auto simp: macro_char_def)
qed auto

lemma macro_quoted:
  "list_all (\<lambda>c. c \<notin> {sq, bsl}) s \<Longrightarrow> prev \<noteq> bsl \<Longrightarrow> length s < oc \<Longrightarrow>
   macro_loop gv (s @ sq # rest) prev 3 var oc out = macro_loop gv rest sq 0 var (oc - length s) (out @ s)"
proof (induction s arbitrary: prev oc out)
  case (Cons c s)
  then show ?case
    using Cons.IH [of c "oc - 1" "out @ [c]"] by (auto simp: macro_char_def)
qed (simp add: macro_char_def)

lemma copy_val_fits: "length v \<le> oc \<Longrightarrow> copy_val v oc out = (oc - length v, out @ v)"
  by (induction v oc out rule: copy_val.induct) auto

lemma macro_var:
  "list_all (\<lambda>c. c \<notin> {bsl, CHR '')'', CHR ''}''}) n \<Longrightarrow> prev \<noteq> bsl \<Longrightarrow> 0 < oc \<Longrightarrow>
   macro_loop gv (n @ CHR ''}'' # rest) prev 2 var oc out =
   (let (oc, out) = (case gv (var @ n) of None \<Rightarrow> (oc, out) | Some v \<Rightarrow> copy_val v oc out)
    in macro_loop gv rest (CHR ''}'') 0 (var @ n) oc out)"
proof (induction n arbitrary: prev var)
  case (Cons c n)
  then show ?case
    using Cons.IH [of c "var @ [c]"] by (simp add: macro_char_def)
qed (simp add: macro_char_def split: option.split)

lemma macro_seg:
  assumes "seg_ok g" and "prev \<noteq> bsl" and "length (seg_value gv g) < oc"
  shows "\<exists>p var'. p \<noteq> bsl \<and> macro_loop gv (render g @ rest) prev 0 var oc out =
    macro_loop gv rest p 0 var' (oc - length (seg_value gv g)) (out @ seg_value gv g)"
proof (cases g)
  case (Lit s)
  then show ?thesis using assms macro_lit [of s prev oc gv rest var out] by auto
next
  case (Var n)
  have oc: "oc \<noteq> 0" using assms(3) by auto
  have "macro_loop gv (render g @ rest) prev 0 var oc out = macro_loop gv (n @ CHR ''}'' # rest) (CHR ''{'') 2 [] oc out"
    using Var assms(2) oc by (simp add: macro_char_def)
  then show ?thesis
    using Var assms oc copy_val_fits macro_var [of n "CHR ''{''" oc gv rest "[]" out]
    by (auto split: option.splits)
next
  case (Quoted s)
  have "oc \<noteq> 0" using assms(3) by auto
  then have "macro_loop gv (render g @ rest) prev 0 var oc out = macro_loop gv (s @ sq # rest) sq 3 var oc out"
    using Quoted assms(2) by (simp add: macro_char_def)
  then show ?thesis
    using Quoted assms macro_quoted [of s sq oc gv rest var out] by auto
qed

lemma macro_segs:
  "list_all seg_ok gs \<Longrightarrow> prev \<noteq> bsl \<Longrightarrow> length (concat (map (seg_value gv) gs)) < oc \<Longrightarrow>
   macro_loop gv (concat (map render gs)) prev 0 var oc out =
     (oc - length (concat (map (seg_value gv) gs)), out @ concat (map (seg_value gv) gs))"
proof (induction gs arbitrary: prev var oc out)
  case (Cons g gs)
  have g: "seg_ok g" "length (seg_value gv g) < oc" using Cons.prems by auto
  obtain p var' where p: "p \<noteq> bsl" "macro_loop gv (render g @ concat (map render gs)) prev 0 var oc out =
      macro_loop gv (concat (map render gs)) p 0 var' (oc - length (seg_value gv g)) (out @ seg_value gv g)"
    using macro_seg [OF g(1) Cons.prems(2) g(2), where rest = "concat (map render gs)" and var = var and out = out]
    by (elim exE conjE)
  have "length (concat (map (seg_value gv) gs)) < oc - length (seg_value gv g)" using Cons.prems(3) by simp
  from Cons.IH [OF _ p(1) this, of var' "out @ seg_value gv g"] p(2) Cons.prems(1) show ?case by simp
qed simp

text \<open>The output never leaves its buffer.\<close>

lemma copy_val_length: "copy_val v oc out = (oc', out') \<Longrightarrow> oc' + length out' = oc + length out"
  by (induction v oc out rule: copy_val.induct) auto

lemma macro_char_length:
  "macro_char gv prev c consumed state var oc out = (s', var', oc', out') \<Longrightarrow> oc \<noteq> 0 \<Longrightarrow>
   oc' + length out' = oc + length out"
proof -
  assume m: "macro_char gv prev c consumed state var oc out = (s', var', oc', out')" and oc: "oc \<noteq> 0"
  consider "state = 0" | "state = 1" | "state = 2" | "2 < state" by linarith
  then show ?thesis
  proof cases
    case 3
    then show ?thesis
      using m copy_val_length [of "the (gv (butlast (var @ consumed)))" oc out oc' out']
      by (auto simp: macro_char_def Let_def split: if_splits option.splits prod.splits)
  qed (use m oc in \<open>auto simp: macro_char_def Let_def split: if_splits\<close>)
qed

lemma macro_loop_length:
  "macro_loop gv input prev state var oc out = (oc', out') \<Longrightarrow> oc' + length out' = oc + length out"
proof (induction gv input prev state var oc out rule: macro_loop.induct)
  case (2 gv c input prev state var oc out)
  show ?case
  proof (cases "oc = 0")
    case False
    note IH = 2(1) [OF False] 2(2) [OF False]
    show ?thesis
    proof (cases "state \<noteq> 3 \<and> c = bsl \<and> prev \<noteq> bsl")
      case esc: True
      show ?thesis
      proof (cases input)
        case (Cons c' input')
        obtain s1 v1 o1 t1 where m: "macro_char gv c c' [c, c'] state var oc out = (s1, v1, o1, t1)"
          using prod_cases4 by blast
        show ?thesis
          using IH(1) [OF esc Cons m [symmetric] refl refl refl] macro_char_length [OF m False] 2(3) False esc Cons m by simp
      qed (use 2(3) False esc in simp)
    next
      case esc: False
      obtain s1 v1 o1 t1 where m: "macro_char gv prev c [c] state var oc out = (s1, v1, o1, t1)"
        using prod_cases4 by blast
      show ?thesis
        using IH(2) [OF esc m [symmetric] refl refl refl] macro_char_length [OF m False] 2(3) False esc m by (simp split: if_splits)
    qed
  qed (use 2(3) in simp)
qed simp

section \<open>Running commands\<close>

lemma find_cmd_in: "find_cmd_tbl s table = Some c \<Longrightarrow> c \<in> set table"
proof -
  have "find_cmd_loop s len table tmp n = Some c \<Longrightarrow> c \<in> set table \<or> tmp = Some c" for len tmp n
    by (induction table arbitrary: tmp n) (auto split: if_splits)
  then show "find_cmd_tbl s table = Some c \<Longrightarrow> c \<in> set table" by (auto simp: find_cmd_tbl_def)
qed

text \<open>What a line of plain commands means: the commands in order, each looked up by its first
  word; \<open>bootd\<close> only once.  The result is -1 if anything failed.\<close>

definition run_one :: "('c, 'w) shell \<Rightarrow> string list \<Rightarrow> int \<times> int \<times> int \<times> 'w \<Rightarrow> int \<times> int \<times> int \<times> 'w" where
  "run_one S argv = (\<lambda>(flag, rc, rpt, w).
     if argv = [] then (flag, -1, rpt, w)
     else case find_cmd_tbl (argv ! 0) (sh_table S) of
       None \<Rightarrow> (flag, -1, rpt,
         sh_puts S (''Unknown command '' @ [sq] @ argv ! 0 @ [sq] @ '' - try '' @ [sq] @ ''help'' @ [sq] @ nl) w)
     | Some cmdtp \<Rightarrow>
         if maxargs cmdtp < length argv then (flag, -1, rpt, sh_puts S (usage_text cmdtp) w)
         else if cmd cmdtp = sh_bootd S \<and> and flag CMD_FLAG_BOOTD \<noteq> 0
         then (flag, -1, rpt, sh_puts S ([sq] @ ''bootd'' @ [sq] @ '' recursion detected'' @ nl) w)
         else (let flag = (if cmd cmdtp = sh_bootd S then or flag CMD_FLAG_BOOTD else flag);
                   (r, w) = sh_call S (cmd cmdtp) flag argv w
               in (flag, if r \<noteq> 0 then -1 else rc, and rpt (repeatable cmdtp), w)))"

fun separate :: "string list \<Rightarrow> string" where
  "separate [] = []"
| "separate [c] = c"
| "separate (c # cs) = c @ CHR '';'' # separate cs"

definition plain_cmd :: "string \<Rightarrow> bool" where
  "plain_cmd s \<longleftrightarrow> s \<noteq> [] \<and> length s < 256 \<and> list_all (\<lambda>c. c \<notin> {sq, bsl, CHR ''$'', CHR '';''}) s"

lemma find_sep_plain:
  "list_all (\<lambda>c. c \<notin> {sq, bsl, CHR '';''}) s \<Longrightarrow> prev \<noteq> bsl \<Longrightarrow> (s = [] \<longrightarrow> \<not> st) \<Longrightarrow>
   find_sep prev False st (s @ CHR '';'' # rest) = (s, rest) \<and> find_sep prev False st s = (s, [])"
  by (induction s arbitrary: prev st) auto

lemma find_sep_token:
  assumes "list_all (\<lambda>c. c \<notin> {sq, bsl, CHR '';''}) s" and "s \<noteq> []"
  shows "find_sep before False True (s @ CHR '';'' # rest) = (s, rest)" "find_sep before False True s = (s, [])"
proof -
  obtain c t where s: "s = c # t" using assms(2) by (cases s) auto
  then show "find_sep before False True (s @ CHR '';'' # rest) = (s, rest)" "find_sep before False True s = (s, [])"
    using find_sep_plain [of t c False rest] assms(1) by auto
qed

lemma process_macros_segs:
  assumes "list_all seg_ok gs" and "length (concat (map (seg_value gv) gs)) < 256"
  shows "process_macros gv (concat (map render gs)) = concat (map (seg_value gv) gs)"
  using macro_segs [OF assms(1), of NUL gv 256 "[]" "[]"] assms(2) by (simp add: process_macros_def)

lemma plain_cmd_simps:
  assumes "plain_cmd s" and "length (words s) < 32"
  shows "process_macros gv s = s" "parse_line s = (words s, False)"
    "list_all (\<lambda>c. c \<notin> {sq, bsl, CHR '';''}) s" "s \<noteq> []"
proof -
  have "seg_ok (Lit s)" "length s < 256"
    using assms(1) by (auto simp: plain_cmd_def list.pred_set)
  then show "process_macros gv s = s" using process_macros_segs [of "[Lit s]" gv] by simp
  show "parse_line s = (words s, False)" using assms(2) by (simp add: parse_line_def parse_args_words)
qed (use assms(1) in \<open>auto simp: plain_cmd_def list.pred_set\<close>)

text \<open>One turn of the loop on a plain command.\<close>

lemma run_tokens_plain:
  assumes "plain_cmd s" and "length (words s) < 32" and "\<And>w. \<not> had_ctrlc S w"
    and "str = s @ CHR '';'' # rest \<or> str = s \<and> rest = []" and "run_one S (words s) (flag, rc, rpt, w) = (flag', rc', rpt', w')"
  shows "run_tokens S before str flag rc rpt w = run_tokens S NUL rest flag' rc' rpt' w'"
proof -
  note p = plain_cmd_simps [OF assms(1,2)]
  have sep: "find_sep before False True str = (s, rest)" and ne: "str \<noteq> []"
    using assms(4) find_sep_token [OF p(3,4)] p(4) by auto
  note run = run_tokens.simps [of S before str] and one = assms(5) [unfolded run_one_def]
  show ?thesis
  proof (cases "words s = []")
    case True
    then show ?thesis using one ne by (simp add: run sep p(1,2))
  next
    case False
    show ?thesis
    proof (cases "find_cmd_tbl (words s ! 0) (sh_table S)")
      case None
      then show ?thesis using one ne False by (simp add: run sep p(1,2))
    next
      case (Some c)
      obtain r w1 where call: "sh_call S (cmd c) (if cmd c = sh_bootd S then or flag CMD_FLAG_BOOTD else flag) (words s) w = (r, w1)"
        by fastforce
      show ?thesis
        using one ne False Some call
        by (cases "maxargs c < length (words s)"; cases "cmd c = sh_bootd S \<and> and flag CMD_FLAG_BOOTD \<noteq> 0")
          (auto simp: run sep p(1,2) assms(3) Let_def)
    qed
  qed
qed

lemma run_tokens_seq:
  assumes "list_all plain_cmd cmds" and "list_all (\<lambda>c. length (words c) < 32) cmds" and "\<And>w. \<not> had_ctrlc S w"
  shows "run_tokens S before (separate cmds) flag rc rpt w =
    (case fold (run_one S) (map words cmds) (flag, rc, rpt, w) of (f, rc, rpt, w) \<Rightarrow> (if rc \<noteq> 0 then rc else rpt, w))"
  using assms(1,2)
proof (induction cmds arbitrary: before flag rc rpt w rule: separate.induct)
  case 1
  then show ?case by (subst run_tokens.simps) simp
next
  case (2 c)
  obtain f' rc' rpt' w' where r: "run_one S (words c) (flag, rc, rpt, w) = (f', rc', rpt', w')"
    using prod_cases4 by blast
  have c: "plain_cmd c" "length (words c) < 32" using 2 by auto
  show ?case
    using run_tokens_plain [OF c assms(3) _ r, of c "[]" before] r by (simp add: run_tokens.simps [of S NUL "[]"])
next
  case (3 c d cs)
  obtain f' rc' rpt' w' where r: "run_one S (words c) (flag, rc, rpt, w) = (f', rc', rpt', w')"
    using prod_cases4 by blast
  have c: "plain_cmd c" "length (words c) < 32" "list_all plain_cmd (d # cs)" "list_all (\<lambda>c. length (words c) < 32) (d # cs)"
    using 3(2,3) by auto
  have "run_tokens S before (separate (c # d # cs)) flag rc rpt w = run_tokens S NUL (separate (d # cs)) f' rc' rpt' w'"
    by (rule run_tokens_plain [OF c(1,2) assms(3) _ r]) simp
  then show ?case using 3(1) [OF c(3,4)] r by simp
qed

text \<open>What may be called, on any input.\<close>

definition may_call :: "('c, 'w) shell \<Rightarrow> int \<Rightarrow> 'c cmd_tbl \<Rightarrow> int \<Rightarrow> string list \<Rightarrow> bool" where
  "may_call S flag0 c flag argv \<longleftrightarrow> argv \<noteq> [] \<and> find_cmd_tbl (argv ! 0) (sh_table S) = Some c \<and>
     length argv \<le> maxargs c \<and> length argv \<le> 32 \<and> list_all (\<lambda>a. is_word a \<and> length a \<le> 255) argv \<and>
     (cmd c = sh_bootd S \<longrightarrow> and flag0 CMD_FLAG_BOOTD = 0 \<and> and flag CMD_FLAG_BOOTD \<noteq> 0)"

lemma process_macros_length: "length (process_macros gv s) \<le> 255"
proof -
  obtain oc out where m: "macro_loop gv s NUL 0 [] 256 [] = (oc, out)" by fastforce
  have "oc + length out = 256" using macro_loop_length [OF m] by simp
  then show ?thesis by (auto simp: process_macros_def m)
qed

lemma parse_line_args:
  "parse_line s = (argv, many) \<Longrightarrow> length argv \<le> 32 \<and> list_all (\<lambda>a. is_word a \<and> length a \<le> length s) argv"
  using words_is_word set_take_subset by (fastforce simp: parse_line_def parse_args_words list.pred_set)

lemma or_bootd: "and (or (flag :: int) CMD_FLAG_BOOTD) CMD_FLAG_BOOTD \<noteq> 0"
  by (simp add: bit.conj_disj_distrib2 or_eq_0_iff)

lemma run_tokens_inv:
  assumes puts: "\<And>s w. I w \<Longrightarrow> I (sh_puts S s w)"
    and call: "\<And>c flag argv w. I w \<Longrightarrow> may_call S flag0 c flag argv \<Longrightarrow> I (snd (sh_call S (cmd c) flag argv w))"
    and "I w" and "and flag0 CMD_FLAG_BOOTD \<noteq> 0 \<longrightarrow> and flag CMD_FLAG_BOOTD \<noteq> 0"
  shows "I (snd (run_tokens S before str flag rc rpt w))"
  using assms(3,4)
proof (induction "length str" arbitrary: before str flag rc rpt w rule: less_induct)
  case less
  note run = run_tokens.simps [of S before str]
  show ?case
  proof (cases "str = []")
    case True
    then show ?thesis using less.prems(1) by (simp add: run_tokens.simps [of S before "[]"])
  next
    case False
    obtain token rest where sep: "find_sep before False True str = (token, rest)" by fastforce
    have shorter: "length rest < length str" using find_sep_less [OF False, of before False] by (simp add: sep)
    note IH = less.hyps [OF shorter]
    obtain argv many where pl: "parse_line (process_macros (sh_getenv S w) token) = (argv, many)" by fastforce
    have argv: "length argv \<le> 32" "list_all (\<lambda>a. is_word a \<and> length a \<le> 255) argv"
      using parse_line_args [OF pl] process_macros_length [of "sh_getenv S w" token]
      by (auto simp: list.pred_set intro: order_trans)
    define w1 where "w1 = (if many then sh_puts S (''** Too many args (max. 32) **'' @ nl) w else w)"
    have w1: "I w1" using less.prems(1) puts by (simp add: w1_def)
    show ?thesis
    proof (cases "argv = [] \<or> find_cmd_tbl (argv ! 0) (sh_table S) = None")
      case True
      then show ?thesis
        using False IH less.prems(2) w1 puts [OF w1]
        by (cases "argv = []") (simp_all add: run sep pl flip: w1_def)
    next
      case known: False
      then obtain c where c: "find_cmd_tbl (argv ! 0) (sh_table S) = Some c" and ne: "argv \<noteq> []" by auto
      show ?thesis
      proof (cases "maxargs c < length argv \<or> cmd c = sh_bootd S \<and> and flag CMD_FLAG_BOOTD \<noteq> 0")
        case True
        then show ?thesis
          using False ne c IH less.prems(2) w1 puts [OF w1]
          by (cases "maxargs c < length argv") (simp_all add: run sep pl flip: w1_def)
      next
        case ok: False
        define fl where "fl = (if cmd c = sh_bootd S then or flag CMD_FLAG_BOOTD else flag)"
        obtain r w2 where w2: "sh_call S (cmd c) fl argv w1 = (r, w2)" by fastforce
        have fl: "and flag0 CMD_FLAG_BOOTD \<noteq> 0 \<longrightarrow> and fl CMD_FLAG_BOOTD \<noteq> 0"
          using less.prems(2) or_bootd by (simp add: fl_def)
        have "may_call S flag0 c fl argv"
          using ne c argv ok less.prems(2) or_bootd by (auto simp: may_call_def fl_def)
        then have "I w2" using call [OF w1] w2 by (metis snd_conv)
        then show ?thesis
          using False ne c ok IH fl w2 by (auto simp: run sep pl Let_def simp flip: w1_def fl_def)
      qed
    qed
  qed
qed

section \<open>Properties\<close>

text \<open>C33: \<open>parse_line\<close> gives the words between blanks, at most 32 of them, and complains exactly when there
  are more, or when there are 32 and the line goes on behind the last; words joined by blanks are split
  again into the same words.\<close>

theorem parse_line_correct:
  "parse_line line =
    (take 32 (words line), 32 < length (words line) \<or> length (words line) = 32 \<and> is_blank (last line)) \<and>
   (list_all is_word ws \<and> length ws < 32 \<longrightarrow> parse_line (join ws) = (ws, False))"
  using words_join [of ws] by (auto simp: parse_line_def parse_args_words)

theorem parse_line_correct_witness:
  "parse_line ''sf probe  0 '' = ([''sf'', ''probe'', ''0''], False) \<and> parse_line ''run x'' = ([''run'', ''x''], False)"
proof -
  have w: "words ''sf probe  0 '' = [''sf'', ''probe'', ''0'']" "list_all is_word [''run'', ''x'']" by code_simp+
  show ?thesis using parse_line_correct [of "''sf probe  0 ''" "[''run'', ''x'']"] w(2) by (simp add: w(1))
qed

text \<open>C32: text, quotes and references to variables are replaced by the text, the text in the quotes and the values,
  as long as the result fits; and whatever the line is, the result with its NUL fits into the buffer of
  256 characters.\<close>

theorem process_macros_correct:
  "(list_all seg_ok gs \<and> length (concat (map (seg_value gv) gs)) < 256 \<longrightarrow>
     process_macros gv (concat (map render gs)) = concat (map (seg_value gv) gs)) \<and>
   length (process_macros gv s) + 1 \<le> CONFIG_SYS_CBSIZE"
  using process_macros_segs [of gs gv] process_macros_length [of gv s] by auto

theorem process_macros_correct_witness:
  "process_macros (map_of [(''a'', ''0x10'')]) (''mw ${a} '' @ [sq] @ ''$x'' @ [sq]) = ''mw 0x10 $x''"
  using process_macros_correct [of "[Lit ''mw '', Var ''a'', Lit '' '', Quoted ''$x'']" "map_of [(''a'', ''0x10'')]"]
  by simp

text \<open>C30: a line of plain commands with separators is run as the sequence of its commands.\<close>

theorem run_command_sequence:
  assumes "list_all plain_cmd cmds" and "list_all (\<lambda>c. length (words c) < 32) cmds" and "cmds \<noteq> []"
    and "length (separate cmds) < CONFIG_SYS_CBSIZE" and "\<And>w. \<not> had_ctrlc S w"
  shows "run_command S before (Some (separate cmds)) flag w =
    (case fold (run_one S) (map words cmds) (flag, 0, 1, clear_ctrlc S w) of (f, rc, rpt, w) \<Rightarrow> (if rc \<noteq> 0 then rc else rpt, w))"
proof -
  have "separate cmds \<noteq> []"
    using assms(1,3) by (cases cmds rule: separate.cases) (auto simp: plain_cmd_def)
  then show ?thesis
    using assms(4) run_tokens_seq [OF assms(1,2,5)] by (simp add: run_command_def)
qed

text \<open>A shell whose commands only record their arguments.\<close>

definition log_shell :: "(nat, string list list) shell" where
  "log_shell = \<lparr>sh_getenv = (\<lambda>_ _. None), sh_table = sample_cmds, sh_call = (\<lambda>c flag argv w. (0, w @ [argv])),
     sh_bootd = 9, clear_ctrlc = id, had_ctrlc = (\<lambda>_. False), sh_puts = (\<lambda>_. id)\<rparr>"

theorem run_command_sequence_witness:
  "run_command log_shell bsl (Some ''sf probe 0; run x;help'') 0 [] = (-1, [[''sf'', ''probe'', ''0''], [''run'', ''x'']])"
proof -
  let ?cmds = "[''sf probe 0'', '' run x'', ''help'']"
  have c: "list_all plain_cmd ?cmds" "list_all (\<lambda>c. length (words c) < 32) ?cmds"
    "map words ?cmds = [[''sf'', ''probe'', ''0''], [''run'', ''x''], [''help'']]" by code_simp+
  have run: "fold (run_one log_shell) [[''sf'', ''probe'', ''0''], [''run'', ''x''], [''help'']] (0, 0, 1, []) =
      (0, -1, 1, [[''sf'', ''probe'', ''0''], [''run'', ''x'']])" by code_simp
  have s: "separate ?cmds = ''sf probe 0; run x;help''" "clear_ctrlc log_shell [] = []" "\<And>w. \<not> had_ctrlc log_shell w"
    by (simp_all add: log_shell_def)
  have "run_command log_shell bsl (Some (separate ?cmds)) 0 [] =
      (case fold (run_one log_shell) (map words ?cmds) (0, 0, 1, clear_ctrlc log_shell []) of
         (f, rc, rpt, w) \<Rightarrow> (if rc \<noteq> 0 then rc else rpt, w))"
    by (rule run_command_sequence [OF c(1,2) _ _ s(3)]) simp_all
  then show ?thesis unfolding c(3) s(1,2) run by simp
qed

text \<open>C31: on any line a handler is called only if it is the one found for the first word, with at most as
  many arguments as the command allows and 32, all of them words that fit the buffer; and the handler of
  \<open>bootd\<close> is called only if the flag against recursion was not set, and with the flag set.  Whatever such
  calls and the messages preserve, \<open>run_command\<close> preserves.\<close>

theorem run_command_safe:
  assumes "\<And>s w. I w \<Longrightarrow> I (sh_puts S s w)" and "\<And>w. I w \<Longrightarrow> I (clear_ctrlc S w)"
    and "\<And>c flag argv w. I w \<Longrightarrow> may_call S flag0 c flag argv \<Longrightarrow> I (snd (sh_call S (cmd c) flag argv w))" and "I w"
  shows "I (snd (run_command S before s flag0 w))"
proof -
  have "I (snd (run_tokens S before str flag0 0 1 (clear_ctrlc S w)))" for str
    by (rule run_tokens_inv [OF assms(1,3) assms(2) [OF assms(4)]]) auto
  then show ?thesis
    using assms(1,2,4) by (auto simp: run_command_def Let_def split: option.split)
qed

theorem run_command_safe_witness:
  "\<forall>line. list_all (\<lambda>argv. argv \<noteq> [] \<and> length argv \<le> 4) (snd (run_command log_shell bsl (Some line) 2 []))"
proof (rule allI, rule run_command_safe)
  fix c flag argv and w :: "string list list"
  assume "list_all (\<lambda>argv. argv \<noteq> [] \<and> length argv \<le> 4) w" and m: "may_call log_shell 2 c flag argv"
  moreover have "maxargs c = 4"
  proof -
    have "c \<in> set sample_cmds"
      using m find_cmd_in [of "argv ! 0" sample_cmds c] by (simp add: may_call_def log_shell_def)
    then show ?thesis by (auto simp: sample_cmds_def)
  qed
  ultimately show "list_all (\<lambda>argv. argv \<noteq> [] \<and> length argv \<le> 4) (snd (sh_call log_shell (cmd c) flag argv w))"
    by (simp add: log_shell_def may_call_def)
qed (simp_all add: log_shell_def)

end
