(* ===== verification/Autoboot.thy ===== *)
theory Autoboot
  imports Mss "HOL-Library.Sublist"
begin

text \<open>
  What happens between the reset and the prompt (\<^verbatim>\<open>common/main.c\<close>, \<open>main_loop\<close> and the keyed
  \<open>abortboot\<close>; \<^verbatim>\<open>cpu/arm_cortexm3/m2s/cpu.c\<close>, the boot counter): the counter of boots and its limit,
  the wait for the stop string, and the command that is run.  The console and the clock are
  parameters (functions on the state of the hardware), as is \<open>parse_string_outer\<close> of the shell.
\<close>

section \<open>Definitions\<close>

record 'w boot_io =
  tstc :: "'w \<Rightarrow> bool \<times> 'w"
  getc :: "'w \<Rightarrow> char \<times> 'w"
  get_ticks :: "'w \<Rightarrow> u64 \<times> 'w"

abbreviation (input) MAX_DELAY_STOP_STR :: nat where "MAX_DELAY_STOP_STR \<equiv> 32"
abbreviation (input) CONFIG_BOOTDELAY :: u32 where "CONFIG_BOOTDELAY \<equiv> 3"
abbreviation (input) get_tbclk :: u64 where "get_tbclk \<equiv> 1000"
abbreviation (input) BOOTCOUNT_MAGIC :: u32 where "BOOTCOUNT_MAGIC \<equiv> 0xB001C041"

subsection \<open>The stop keys (main.c)\<close>

text \<open>One entry of \<open>delaykey\<close>: the first \<open>len\<close> characters of the string.\<close>

definition key_of :: "string option \<Rightarrow> string" where
  "key_of s = (case s of None \<Rightarrow> [] | Some s \<Rightarrow> take MAX_DELAY_STOP_STR s)"

definition delaykeys :: "env_cfg \<Rightarrow> ubenv \<Rightarrow> string list option" where
  "delaykeys cfg e =
     do { k0 \<leftarrow> getenv_str cfg e ''bootdelaykey'';
          k1 \<leftarrow> getenv_str cfg e ''bootdelaykey2'';
          k2 \<leftarrow> getenv_str cfg e ''bootstopkey'';
          k3 \<leftarrow> getenv_str cfg e ''bootstopkey2'';
          let k2 = (case k2 of None \<Rightarrow> Some ''stop'' | Some s \<Rightarrow> Some s);
          Some (map key_of [k0, k1, k2, k3]) }"

text \<open>A new character in \<open>presskey\<close>.  With \<open>presskey_max = 0\<close> the unsigned bound of the shifting loop wraps
  and the loop runs out of the array: \<open>None\<close>.\<close>

definition press :: "nat \<Rightarrow> string \<Rightarrow> char \<Rightarrow> string option" where
  "press presskey_max presskey c =
     (if length presskey < presskey_max then Some (presskey @ [c])
      else if presskey_max = 0 then None
      else Some (tl presskey @ [c]))"

definition key_pressed :: "string list \<Rightarrow> string \<Rightarrow> bool" where
  "key_pressed keys presskey \<longleftrightarrow>
     list_ex (\<lambda>k. 0 < length k \<and> length k \<le> length presskey \<and> drop (length presskey - length k) presskey = k) keys"

partial_function (option) abort_loop ::
    "'w boot_io \<Rightarrow> string list \<Rightarrow> nat \<Rightarrow> u64 \<Rightarrow> 'w \<Rightarrow> string \<Rightarrow> (bool \<times> 'w) option" where
  "abort_loop C keys presskey_max etime w presskey =
     (let (t, w) = tstc C w in
      Option.bind (if t then (let (c, w) = getc C w in map_option (\<lambda>p. (p, w)) (press presskey_max presskey c))
                   else Some (presskey, w))
        (\<lambda>(presskey, w).
          if key_pressed keys presskey then Some (True, w)
          else (let (now, w) = get_ticks C w in
                if now \<le> etime then abort_loop C keys presskey_max etime w presskey else Some (False, w))))"

definition abortboot :: "env_cfg \<Rightarrow> 'w boot_io \<Rightarrow> ubenv \<Rightarrow> int \<Rightarrow> 'w \<Rightarrow> (bool \<times> 'w) option" where
  "abortboot cfg C e bootdelay w =
     (let (now, w) = get_ticks C w; etime = now + of_int bootdelay * get_tbclk in
      do { keys \<leftarrow> delaykeys cfg e;
           abort_loop C keys (fold max (map length keys) 0) etime w [] })"

subsection \<open>The boot counter (cpu.c)\<close>

text \<open>The two words at \<open>CONFIG_SYS_BOOTCOUNT_ADDR\<close>, which survive a reset.\<close>

definition bootcount_store :: "u32 \<Rightarrow> u32 \<times> u32" where
  "bootcount_store a = (a, BOOTCOUNT_MAGIC)"

definition bootcount_load :: "u32 \<times> u32 \<Rightarrow> u32" where
  "bootcount_load r = (if snd r \<noteq> BOOTCOUNT_MAGIC then 0 else fst r)"

subsection \<open>The main loop (main.c)\<close>

record 'w bstate =
  bs_env :: ubenv
  bs_hw :: 'w
  save_addr :: "u32 \<times> u32"
  ctrlc_disabled :: bool
  bs_out :: string

definition disable_ctrlc :: "bool \<Rightarrow> 'w bstate \<Rightarrow> bool \<times> 'w bstate" where
  "disable_ctrlc disable st = (ctrlc_disabled st, st\<lparr>ctrlc_disabled := disable\<rparr>)"

text \<open>The first part: count the boot, and set \<open>bootcount\<close>.\<close>

definition count_boot :: "env_cfg \<Rightarrow> 'w bstate \<Rightarrow> (u32 \<times> u32 \<times> 'w bstate) option" where
  "count_boot cfg st =
     (let bootcount = bootcount_load (save_addr st) + 1; st = st\<lparr>save_addr := bootcount_store bootcount\<rparr> in
      do { bcs_set \<leftarrow> sprintf ''%lu'' [VInt bootcount];
           (r, e) \<leftarrow> setenv cfg (bs_env st) ''bootcount'' (Some bcs_set);
           let st = st\<lparr>bs_env := e\<rparr>;
           bcs \<leftarrow> getenv_str cfg (bs_env st) ''bootlimit'';
           let bootlimit = (case bcs of Some s \<Rightarrow> fst (simple_strtoul s 10) | None \<Rightarrow> 0);
           Some (bootcount, bootlimit, st) })"

text \<open>The command, with the warning.\<close>

definition select_bootcmd :: "env_cfg \<Rightarrow> u32 \<Rightarrow> u32 \<Rightarrow> 'w bstate \<Rightarrow> (string option \<times> 'w bstate) option" where
  "select_bootcmd cfg bootcount bootlimit st =
     (if bootlimit \<noteq> 0 \<and> bootlimit < bootcount then
        do { t \<leftarrow> sprintf (''Warning: Bootlimit (%u) exceeded. Using altbootcmd.'' @ nl) [VInt bootlimit];
             s \<leftarrow> getenv_str cfg (bs_env st) ''altbootcmd'';
             Some (s, st\<lparr>bs_out := bs_out st @ t\<rparr>) }
      else map_option (\<lambda>s. (s, st)) (getenv_str cfg (bs_env st) ''bootcmd''))"

text \<open>Up to \<open>parse_file_outer\<close>, which never returns.  The first component is the command that was run.\<close>

definition main_loop ::
    "env_cfg \<Rightarrow> 'w boot_io \<Rightarrow> (string \<Rightarrow> 'w bstate \<Rightarrow> 'w bstate) \<Rightarrow> 'w bstate \<Rightarrow> (string option \<times> 'w bstate) option" where
  "main_loop cfg C parse_string_outer st =
     do { (bootcount, bootlimit, st) \<leftarrow> count_boot cfg st;
          s \<leftarrow> getenv_str cfg (bs_env st) ''bootdelay'';
          let bootdelay = sint (case s of Some s \<Rightarrow> fst (simple_strtol s 10) | None \<Rightarrow> CONFIG_BOOTDELAY);
          (s, st) \<leftarrow> select_bootcmd cfg bootcount bootlimit st;
          (case s of
             None \<Rightarrow> Some (None, st)
           | Some cmd \<Rightarrow>
               if bootdelay < 0 then Some (None, st)
               else do {
                 t \<leftarrow> sprintf (''Type S-T-O-P (lowercase, no dashes) to terminate autoboot in %d seconds...'' @ nl)
                        [VInt (of_int bootdelay)];
                 let st = st\<lparr>bs_out := bs_out st @ t\<rparr>;
                 (abort, w) \<leftarrow> abortboot cfg C (bs_env st) bootdelay (bs_hw st);
                 let st = st\<lparr>bs_hw := w\<rparr>;
                 if abort then Some (None, st)
                 else (let (prev, st) = disable_ctrlc True st;
                           st = parse_string_outer cmd st
                       in Some (Some cmd, snd (disable_ctrlc prev st))) }) }"

section \<open>The wait for a key\<close>

text \<open>What the wait means: a key stops it as soon as the characters received so far, all of them, end
  with the key.\<close>

definition poll :: "'w boot_io \<Rightarrow> 'w \<Rightarrow> string \<times> 'w" where
  "poll C w = (let (t, w) = tstc C w in if t then (let (c, w) = getc C w in ([c], w)) else ([], w))"

definition ends_with_key :: "string list \<Rightarrow> string \<Rightarrow> bool" where
  "ends_with_key keys s \<longleftrightarrow> list_ex (\<lambda>k. k \<noteq> [] \<and> suffix k s) keys"

inductive waits :: "'w boot_io \<Rightarrow> string list \<Rightarrow> u64 \<Rightarrow> 'w \<Rightarrow> string \<Rightarrow> bool \<Rightarrow> 'w \<Rightarrow> bool"
  for C keys etime where
  stopped: "poll C w = (cs, w1) \<Longrightarrow> ends_with_key keys (hist @ cs) \<Longrightarrow> waits C keys etime w hist True w1"
| timeout: "poll C w = (cs, w1) \<Longrightarrow> \<not> ends_with_key keys (hist @ cs) \<Longrightarrow> get_ticks C w1 = (now, w2) \<Longrightarrow> etime < now \<Longrightarrow>
    waits C keys etime w hist False w2"
| again: "poll C w = (cs, w1) \<Longrightarrow> \<not> ends_with_key keys (hist @ cs) \<Longrightarrow> get_ticks C w1 = (now, w2) \<Longrightarrow> now \<le> etime \<Longrightarrow>
    waits C keys etime w2 (hist @ cs) r w' \<Longrightarrow> waits C keys etime w hist r w'"

text \<open>The characters in \<open>presskey\<close> are the last ones received.\<close>

definition window :: "nat \<Rightarrow> string \<Rightarrow> string" where
  "window n s = drop (length s - n) s"

lemma window_press: "0 < n \<Longrightarrow> press n (window n s) c = Some (window n (s @ [c]))"
  by (cases "length s < n") (auto simp: press_def window_def Suc_diff_le tl_drop drop_Suc)

lemma window_suffix: "length k \<le> n \<Longrightarrow> k \<noteq> [] \<Longrightarrow>
    length k \<le> length (window n s) \<and> drop (length (window n s) - length k) (window n s) = k \<longleftrightarrow> suffix k s"
proof -
  assume k: "length k \<le> n" "k \<noteq> []"
  have "drop (length s - length k) s = k" if "suffix k s"
    using that by (auto simp: suffix_def)
  moreover have "suffix k s" if "drop (length s - length k) s = k"
    using that suffix_drop by metis
  moreover have "length (window n s) - length k + (length s - n) = length s - length k" "length k \<le> length (window n s)"
    if "length k \<le> length s"
    using k that by (auto simp: window_def)
  moreover have "length k \<le> length s" if "length k \<le> length (window n s)"
    using that by (simp add: window_def)
  ultimately show ?thesis
    by (auto simp: window_def suffix_length_le)
qed

lemma key_pressed_window:
  "list_all (\<lambda>k. length k \<le> n) keys \<Longrightarrow> key_pressed keys (window n s) \<longleftrightarrow> ends_with_key keys s"
  unfolding key_pressed_def ends_with_key_def list_ex_iff list.pred_set
  using window_suffix by (metis length_greater_0_conv)

text \<open>One turn of the loop, whatever follows.\<close>

lemma abort_body:
  assumes "list_all (\<lambda>k. length k \<le> n) keys" and "0 < n" and "poll C w = (cs, w1)"
  shows "(let (t, w) = tstc C w in
      Option.bind (if t then (let (c, w) = getc C w in map_option (\<lambda>p. (p, w)) (press n (window n hist) c))
                   else Some (window n hist, w))
        (\<lambda>(presskey, w).
          if key_pressed keys presskey then Some (True, w)
          else (let (now, w) = get_ticks C w in
                if now \<le> etime then F w presskey else Some (False, w)))) =
    (if ends_with_key keys (hist @ cs) then Some (True, w1)
     else (let (now, w2) = get_ticks C w1 in
           if now \<le> etime then F w2 (window n (hist @ cs)) else Some (False, w2)))"
proof -
  obtain t w0 where t: "tstc C w = (t, w0)" by fastforce
  show ?thesis
    using assms(3) window_press [OF assms(2), of hist] key_pressed_window [OF assms(1)] t
    by (auto simp: poll_def Let_def split: prod.splits if_splits)
qed

lemma abort_loop_step:
  assumes "list_all (\<lambda>k. length k \<le> n) keys" and "0 < n" and "poll C w = (cs, w1)"
  shows "abort_loop C keys n etime w (window n hist) =
    (if ends_with_key keys (hist @ cs) then Some (True, w1)
     else (let (now, w2) = get_ticks C w1 in
           if now \<le> etime then abort_loop C keys n etime w2 (window n (hist @ cs)) else Some (False, w2)))"
  by (subst abort_loop.simps) (rule abort_body [OF assms])

lemma abort_loop_sound:
  "abort_loop C keys n etime w pk = Some y \<Longrightarrow> list_all (\<lambda>k. length k \<le> n) keys \<Longrightarrow> 0 < n \<Longrightarrow> pk = window n hist \<Longrightarrow>
   waits C keys etime w hist (fst y) (snd y)"
proof (induction C keys n etime w pk y arbitrary: hist rule: abort_loop.raw_induct [rotated, consumes 1])
  case (1 f C keys n etime w pk y)
  obtain cs w1 where p: "poll C w = (cs, w1)" by fastforce
  obtain now w2 where g: "get_ticks C w1 = (now, w2)" by fastforce
  have y: "(if ends_with_key keys (hist @ cs) then Some (True, w1)
      else if now \<le> etime then f C keys n etime w2 (window n (hist @ cs)) else Some (False, w2)) = Some y"
    using 1(2) unfolding 1(5) abort_body [OF 1(3,4) p, where hist = hist and etime = etime and F = "f C keys n etime"]
    by (simp only: g Let_def prod.case)
  show ?case
  proof (cases "ends_with_key keys (hist @ cs)")
    case True
    then show ?thesis using y p by (auto intro: waits.stopped)
  next
    case no: False
    show ?thesis
    proof (cases "now \<le> etime")
      case True
      then have "waits C keys etime w2 (hist @ cs) (fst y) (snd y)"
        using 1(1) [OF _ 1(3,4) refl] y no by simp
      then show ?thesis using waits.again [OF p no g True] by blast
    next
      case False
      then show ?thesis using y no waits.timeout [OF p no g] by auto
    qed
  qed
qed

lemma abort_loop_complete:
  assumes keys: "list_all (\<lambda>k. length k \<le> n) keys" and n: "0 < n"
  shows "waits C keys etime w hist r w' \<Longrightarrow> abort_loop C keys n etime w (window n hist) = Some (r, w')"
proof (induction rule: waits.induct)
  case (stopped w cs w1 hist)
  then show ?case by (simp add: abort_loop_step [OF keys n stopped(1)])
next
  case (timeout w cs w1 hist now w2)
  then show ?case by (auto simp: abort_loop_step [OF keys n timeout(1)] dest: leD)
next
  case (again w cs w1 hist now w2 r w')
  then show ?case by (simp add: abort_loop_step [OF keys n again(1)])
qed

text \<open>The clock: a poll takes time, but at most \<open>d\<close> ticks of \<open>freq\<close> units, and the ticks are counted in
  32 bits.\<close>

definition clocked :: "'w boot_io \<Rightarrow> ('w \<Rightarrow> nat) \<Rightarrow> nat \<Rightarrow> nat \<Rightarrow> bool" where
  "clocked C time freq d \<longleftrightarrow> 0 < freq \<and>
     (\<forall>w. fst (get_ticks C w) = of_nat (time (snd (get_ticks C w)) div freq mod 2 ^ 32)) \<and>
     (\<forall>w. let w2 = snd (get_ticks C (snd (poll C w))) in time w < time w2 \<and> time w2 \<le> time w + d * freq)"

lemma abort_loop_returns:
  assumes clock: "clocked C time freq d" and keys: "list_all (\<lambda>k. length k \<le> n) keys" and n: "0 < n"
    and limit: "unat etime + d < 2 ^ 32" and now: "time w div freq \<le> unat etime"
  shows "\<exists>r. abort_loop C keys n etime w (window n hist) = Some r"
  using now
proof (induction "(unat etime + 1) * freq - time w" arbitrary: w hist rule: less_induct)
  case less
  obtain cs w1 where p: "poll C w = (cs, w1)" by fastforce
  obtain t w2 where g: "get_ticks C w1 = (t, w2)" by fastforce
  have freq: "0 < freq" and adv: "time w < time w2" "time w2 \<le> time w + d * freq"
    and t: "t = of_nat (time w2 div freq mod 2 ^ 32)"
    using clock p g unfolding clocked_def Let_def by (metis fst_conv snd_conv)+
  have "time w2 div freq \<le> (time w + d * freq) div freq" using adv(2) by (rule div_le_mono)
  also have "\<dots> = time w div freq + d" using freq by simp
  finally have "time w2 div freq \<le> unat etime + d" using less.prems by linarith
  then have le: "time w2 div freq < 2 ^ 32" using limit by linarith
  then have "unat t = time w2 div freq" using le by (simp add: t unsigned_of_nat take_bit_nat_eq_self)
  then have cmp: "t \<le> etime \<longleftrightarrow> time w2 div freq \<le> unat etime" by (simp add: word_le_nat_alt)
  have "\<exists>r. abort_loop C keys n etime w2 (window n (hist @ cs)) = Some r" if "t \<le> etime"
  proof -
    have "time w < (unat etime + 1) * freq"
      using less.prems freq by (metis Suc_eq_plus1 div_less_iff_less_mult less_Suc_eq_le)
    then have "(unat etime + 1) * freq - time w2 < (unat etime + 1) * freq - time w" using adv(1) by linarith
    then show ?thesis using less.hyps that cmp by blast
  qed
  then show ?case by (auto simp: abort_loop_step [OF keys n p] g)
qed

text \<open>The keys, and the size of \<open>presskey\<close>.\<close>

lemma fold_max_le: "x \<in> set xs \<Longrightarrow> x \<le> fold max xs (a :: nat)" "a \<le> fold max xs a"
proof -
  have a: "a \<le> fold max xs a" for a :: nat and xs
    by (induction xs arbitrary: a) (simp, metis fold_simps(2) max.cobounded2 order_trans)
  then show "a \<le> fold max xs a" .
  show "x \<in> set xs \<Longrightarrow> x \<le> fold max xs a"
    by (induction xs arbitrary: a) (auto intro: order_trans [OF max.cobounded1 a])
qed

lemma fold_max_bound: "list_all (\<lambda>x. x \<le> n) xs \<Longrightarrow> a \<le> n \<Longrightarrow> fold max xs (a :: nat) \<le> n"
  by (induction xs arbitrary: a) auto

lemma presskey_max:
  defines "n \<equiv> \<lambda>keys. fold max (map length keys) 0"
  shows "list_all (\<lambda>k. length k \<le> n keys) keys" "k \<in> set keys \<Longrightarrow> k \<noteq> [] \<Longrightarrow> 0 < n keys"
    "(\<forall>k\<in>set keys. k = []) \<Longrightarrow> n keys = 0"
proof -
  show le: "list_all (\<lambda>k. length k \<le> n keys) keys"
    unfolding n_def list.pred_set by (auto intro: fold_max_le)
  show "k \<in> set keys \<Longrightarrow> k \<noteq> [] \<Longrightarrow> 0 < n keys"
    using le by (auto simp: list.pred_set intro: less_le_trans [of _ "length k"])
  show "(\<forall>k\<in>set keys. k = []) \<Longrightarrow> n keys = 0"
    using fold_max_bound [of 0 "map length keys" 0] by (simp add: n_def list.pred_set)
qed

section \<open>The boot counter over resets\<close>

lemma sprintf_lu: "sprintf ''%lu'' [VInt w] = Some (rev (rev_dec (unat w)))"
  using number_dec [of w]
  by (simp add: sprintf_def vsprintf_def vs_conv_def vs_width_def vs_precision_def vs_qualifier_def
      is_digit_def skip_atoi_def vs_num_def has_def Let_def)

lemma rev_dec_nul: "NUL \<notin> set (rev_dec n)"
proof -
  have "digit_char k \<noteq> NUL" if "k < 10" for k
    using digit_char_simps(2) [OF that] by (auto simp: isxdigit_iff)
  then have "list_all (\<lambda>c. c \<noteq> NUL) (rev_dec n)"
    using list_all_rev_radix [of 10 "\<lambda>c. c \<noteq> NUL" digit_char n] by simp
  then show ?thesis by (auto simp: list.pred_set)
qed

definition boot_limit :: "(string \<times> string) list \<Rightarrow> u32" where
  "boot_limit es = (case map_of es ''bootlimit'' of Some s \<Rightarrow> fst (simple_strtoul s 10) | None \<Rightarrow> 0)"

lemma boot_names: "plain ''bootcount''" "name_ok ''bootlimit''" "name_ok ''altbootcmd''" "name_ok ''bootcmd''"
  by (code_simp)+

text \<open>One boot: the counter goes up by one, and the command is chosen by the limit.\<close>

lemma boot_once:
  assumes rep: "env_rep cfg (bs_env st) es" and ram: "in_ram (bs_env st)"
  defines "n \<equiv> bootcount_load (save_addr st) + 1"
  shows "\<exists>st1. count_boot cfg st = Some (n, boot_limit es, st1) \<and> save_addr st1 = bootcount_store n \<and>
    (\<exists>st2. select_bootcmd cfg n (boot_limit es) st1 =
       Some (if boot_limit es \<noteq> 0 \<and> boot_limit es < n then map_of es ''altbootcmd'' else map_of es ''bootcmd'', st2) \<and>
       save_addr st2 = save_addr st1)"
proof -
  obtain r e' where e': "setenv cfg (bs_env st) ''bootcount'' (Some (rev (rev_dec (unat n)))) = Some (r, e')"
    "\<forall>m. name_ok m \<longrightarrow> m \<noteq> ''bootcount'' \<longrightarrow> getenv_str cfg e' m = Some (map_of es m)"
    using setenv_lookup [OF rep boot_names(1) _ ram, of "rev (rev_dec (unat n))"] rev_dec_nul by auto
  let ?st1 = "st\<lparr>save_addr := bootcount_store n, bs_env := e'\<rparr>"
  have count: "count_boot cfg st = Some (n, boot_limit es, ?st1)"
    using e'(1) e'(2) [rule_format, OF boot_names(2)]
    by (simp add: count_boot_def Let_def sprintf_lu boot_limit_def flip: n_def)
  obtain t where "sprintf (''Warning: Bootlimit (%u) exceeded. Using altbootcmd.'' @ nl) [VInt (boot_limit es)] = Some t"
    using number_dec [of "boot_limit es"]
    by (simp add: sprintf_def vsprintf_def vs_conv_def vs_width_def vs_precision_def vs_qualifier_def
      is_digit_def skip_atoi_def vs_num_def has_def Let_def)
  then have "\<exists>st2. select_bootcmd cfg n (boot_limit es) ?st1 =
       Some (if boot_limit es \<noteq> 0 \<and> boot_limit es < n then map_of es ''altbootcmd'' else map_of es ''bootcmd'', st2) \<and>
       save_addr st2 = bootcount_store n"
    using e'(2) [rule_format, OF boot_names(3)] e'(2) [rule_format, OF boot_names(4)]
    by (simp add: select_bootcmd_def)
  with count show ?thesis by auto
qed

text \<open>The life of a board: boots, and writes of zero to the counter (by the command \<open>rstbootcnt\<close> or the booted
  system), starting from whatever stands in the memory.  At every boot the environment that is loaded holds
  the definitions \<open>es\<close>.\<close>

datatype boot_event = Boot "string option" | Clear

inductive boots :: "env_cfg \<Rightarrow> (string \<times> string) list \<Rightarrow> u32 \<times> u32 \<Rightarrow> boot_event list \<Rightarrow> u32 \<times> u32 \<Rightarrow> bool"
  for cfg es r0 where
  power_up: "boots cfg es r0 [] r0"
| boot: "boots cfg es r0 evs (save_addr (st :: unit bstate)) \<Longrightarrow> env_rep cfg (bs_env st) es \<Longrightarrow> in_ram (bs_env st) \<Longrightarrow>
    count_boot cfg st = Some (n, limit, st1) \<Longrightarrow> select_bootcmd cfg n limit st1 = Some (s, st2) \<Longrightarrow>
    boots cfg es r0 (evs @ [Boot s]) (save_addr st2)"
| clear: "boots cfg es r0 evs r \<Longrightarrow> boots cfg es r0 (evs @ [Clear]) (0, snd r)"

inductive_simps boots_Nil: "boots cfg es r0 [] r"

text \<open>The boots since the last \<open>Clear\<close>.\<close>

definition since_clear :: "boot_event list \<Rightarrow> nat" where
  "since_clear evs = length (takeWhile (\<lambda>e. e \<noteq> Clear) (rev evs))"

lemma since_clear_simps [simp]:
  "since_clear [] = 0" "since_clear (evs @ [Clear]) = 0" "since_clear (evs @ [Boot s]) = since_clear evs + 1"
  by (simp_all add: since_clear_def)

lemma since_clear_le: "since_clear evs \<le> length evs"
  by (simp add: since_clear_def) (metis length_rev length_takeWhile_le)

lemma boots_count:
  "boots cfg es r0 evs r \<Longrightarrow> snd r0 \<noteq> BOOTCOUNT_MAGIC \<Longrightarrow> bootcount_load r = of_nat (since_clear evs)"
proof (induction rule: boots.induct)
  case (boot evs st n limit st1 s st2)
  then show ?case
    using boot_once [OF boot(2,3)] by (auto simp: bootcount_load_def bootcount_store_def split: if_splits)
qed (auto simp: bootcount_load_def)

text \<open>A console on which \<open>s\<close> has been typed, with a clock that advances with every look at it.\<close>

definition typed_io :: "(nat \<times> string) boot_io" where
  "typed_io = \<lparr>tstc = (\<lambda>(t, s). (s \<noteq> [], t, s)), getc = (\<lambda>(t, s). (hd s, t, tl s)),
     get_ticks = (\<lambda>(t, s). (of_nat ((t + 1) mod 2 ^ 32), t + 1, s))\<rparr>"

lemma typed_io_clocked: "clocked typed_io fst 1 1"
  by (auto simp: clocked_def typed_io_def poll_def Let_def)

lemma typed_poll: "poll typed_io (t, c # s) = ([c], t, s)"
  by (simp add: poll_def typed_io_def)

lemma typed_ticks: "get_ticks typed_io (t, s) = (of_nat ((t + 1) mod 2 ^ 32), t + 1, s)"
  by (simp only: typed_io_def boot_io.simps prod.case)

lemma typed_again:
  assumes "\<not> ends_with_key keys (hist @ [c])" and "of_nat ((t + 1) mod 2 ^ 32) \<le> etime" and "t' = t + 1"
    and "waits typed_io keys etime (t', s) (hist @ [c]) r w'"
  shows "waits typed_io keys etime (t, c # s) hist r w'"
  using assms(1,2,4) unfolding assms(3) by (intro waits.again [OF typed_poll _ typed_ticks])

lemma typed_stopped:
  "ends_with_key keys (hist @ [c]) \<Longrightarrow> waits typed_io keys etime (t, c # s) hist True (t, s)"
  by (rule waits.stopped [where cs = "[c]"]) (simp_all add: poll_def typed_io_def)

lemma volkh_no_keys:
  "map_of volkh_defs ''bootdelaykey'' = None" "map_of volkh_defs ''bootdelaykey2'' = None"
  "map_of volkh_defs ''bootstopkey'' = None" "map_of volkh_defs ''bootstopkey2'' = None"
  by code_simp+

lemma volkh_delaykeys: "delaykeys volkh_cfg volkh_env = Some [[], [], ''stop'', []]"
proof -
  have n: "name_ok ''bootdelaykey''" "name_ok ''bootdelaykey2''" "name_ok ''bootstopkey''" "name_ok ''bootstopkey2''"
    by (code_simp)+
  then show ?thesis
    using getenv_str_map_of [OF volkh_env(1)] by (simp add: delaykeys_def key_of_def volkh_no_keys)
qed

section \<open>Properties\<close>

text \<open>C36: as long as one key is not empty, \<open>abortboot\<close> stops exactly when the characters received so far end with
  one of the keys, and lets the boot go on exactly when none came until the time was over: the buffer of the
  last characters is as good as all of them.\<close>

theorem abortboot_stops:
  assumes "delaykeys cfg e = Some keys" and "k \<in> set keys" and "k \<noteq> []" and "get_ticks C w = (now, w0)"
  shows "abortboot cfg C e bootdelay w = Some (r, w') \<longleftrightarrow>
    waits C keys (now + of_int bootdelay * get_tbclk) w0 [] r w'"
  using abort_loop_sound [OF _ presskey_max(1) presskey_max(2) [OF assms(2,3)], where hist = "[]" and y = "(r, w')"]
    abort_loop_complete [OF presskey_max(1) presskey_max(2) [OF assms(2,3)], where hist = "[]" and r = r and w' = w']
  by (auto simp: abortboot_def assms(1,4) window_def)

theorem abortboot_stops_witness:
  "abortboot volkh_cfg typed_io volkh_env 3 (0, ''stopx'') = Some (True, 4, ''x'')"
proof -
  have "waits typed_io [[], [], ''stop'', []] 3001 (1, ''stopx'') [] True (4, ''x'')"
  proof -
    have "\<not> ends_with_key [[], [], ''stop'', []] ''s''" "\<not> ends_with_key [[], [], ''stop'', []] ''st''"
      "\<not> ends_with_key [[], [], ''stop'', []] ''sto''" "ends_with_key [[], [], ''stop'', []] ''stop''" by code_simp+
    then show ?thesis
      using typed_stopped [of "[[], [], ''stop'', []]" "''sto''" "CHR ''p''" 3001 4 "''x''"]
      by (intro typed_again [where t = 1 and t' = 2] typed_again [where t = 2 and t' = 3]
          typed_again [where t = 3 and t' = 4]) simp_all
  qed
  then show ?thesis
    using abortboot_stops [OF volkh_delaykeys, of "''stop''" typed_io "(0, ''stopx'')" 1 "(1, ''stopx'')" 3 True "(4, ''x'')"]
    by (simp add: typed_io_def)
qed

text \<open>C37: with a key that is not empty and a delay that is not negative, \<open>abortboot\<close> returns, whatever is typed, on a
  clock that advances with every poll, by at most \<open>d\<close> ticks, and whose count of ticks stays in 32 bits
  up to the end of the delay and \<open>d\<close> ticks more.\<close>

theorem abortboot_returns:
  assumes "clocked C time freq d" and "delaykeys cfg e = Some keys" and "k \<in> set keys" and "k \<noteq> []" and "0 \<le> bootdelay"
    and "time (snd (get_ticks C w)) div freq + nat bootdelay * 1000 + d < 2 ^ 32"
  shows "\<exists>r w'. abortboot cfg C e bootdelay w = Some (r, w')"
proof -
  obtain now w0 where g: "get_ticks C w = (now, w0)" by fastforce
  let ?etime = "now + of_int bootdelay * get_tbclk"
  have now: "now = of_nat (time w0 div freq)"
  proof -
    have "now = of_nat (time w0 div freq mod 2 ^ 32)"
      using assms(1) g unfolding clocked_def by (metis fst_conv snd_conv)
    moreover have "time w0 div freq mod 2 ^ 32 = time w0 div freq" using assms(6) g by simp
    ultimately show ?thesis by simp
  qed
  have "?etime = of_nat (time w0 div freq + nat bootdelay * 1000)" using assms(5) by (simp add: now)
  then have e: "unat ?etime = time w0 div freq + nat bootdelay * 1000"
    using assms(6) g by (simp only: unsigned_of_nat) (simp add: take_bit_nat_eq_self)
  then have "\<exists>r. abort_loop C keys (fold max (map length keys) 0) ?etime w0 (window (fold max (map length keys) 0) []) = Some r"
    using assms(6) g
    by (intro abort_loop_returns [OF assms(1) presskey_max(1) presskey_max(2) [OF assms(3,4)]]) simp_all
  then show ?thesis by (auto simp: abortboot_def assms(2) g window_def)
qed

theorem abortboot_returns_witness:
  "\<exists>r w'. abortboot volkh_cfg typed_io volkh_env 3 (0, ''s'') = Some (r, w')"
  by (rule abortboot_returns [OF typed_io_clocked volkh_delaykeys, of "''stop''"]) (simp_all add: typed_io_def)

text \<open>When all four keys are empty (\<open>bootstopkey\<close> set to the empty string, the others not set), a single
  character received makes the shifting loop run out of its array.\<close>

lemma abortboot_no_key:
  assumes "delaykeys cfg e = Some keys" and "\<forall>k\<in>set keys. k = []" and "fst (tstc C (snd (get_ticks C w)))"
  shows "abortboot cfg C e bootdelay w = None"
proof -
  obtain now w0 where g: "get_ticks C w = (now, w0)" by fastforce
  obtain w1 where t: "tstc C w0 = (True, w1)" using assms(3) g by (cases "tstc C w0") auto
  obtain c w2 where "getc C w1 = (c, w2)" by fastforce
  with t have "abort_loop C keys 0 etime w0 [] = None" for etime
    by (subst abort_loop.simps) (simp add: press_def)
  then show ?thesis using presskey_max(3) [OF assms(2)] by (simp add: abortboot_def assms(1) g)
qed

lemma abortboot_no_key_example:
  "\<exists>e'. do_setenv volkh_cfg volkh_env [''setenv'', ''bootstopkey'', []] = Some (0, e') \<and>
     abortboot volkh_cfg typed_io e' 3 (0, ''x'') = None"
proof -
  have n: "plain ''bootstopkey''" "name_ok ''bootdelaykey''" "name_ok ''bootdelaykey2''" "name_ok ''bootstopkey''"
    "name_ok ''bootstopkey2''" by (code_simp)+
  let ?es = "del_def ''bootstopkey'' volkh_defs @ [(''bootstopkey'', [])]"
  have es: "del_def ''bootstopkey'' volkh_defs = volkh_defs"
    using volkh_no_keys(3) by (intro del_def_absent) (simp add: map_of_eq_None_iff)
  have fits: "length (flat ?es) + 1 \<le> ENV_SIZE volkh_cfg"
    using volkh_size by (simp add: es ENV_SIZE_def volkh_cfg_def)
  obtain D where D: "do_setenv_common volkh_cfg volkh_env 3 [Some ''setenv'', Some ''bootstopkey'', Some [], None] =
      Some (0, setenv_actions (env_crc_update volkh_cfg (set_env_bytes (volkh_env\<lparr>env_id := env_id volkh_env + 1\<rparr>) D)) ''bootstopkey'' [])"
    "layout D ?es"
    using do_setenv_common_set [OF volkh_env(1) n(1), of "[[]]" "Some ''setenv''" "[None]"] fits
    by (auto simp: numeral_3_eq_3)
  let ?e = "setenv_actions (env_crc_update volkh_cfg (set_env_bytes (volkh_env\<lparr>env_id := env_id volkh_env + 1\<rparr>) D)) ''bootstopkey'' []"
  have "wf_defs ?es"
    using volkh_wf n(4) volkh_no_keys(3)
    by (simp add: wf_defs_append es map_of_eq_None_iff)
  then have "env_rep volkh_cfg ?e ?es"
    using D(2) fits volkh_env(2) by (auto simp: env_rep_def in_ram_get_char)
  note get = getenv_str_map_of [OF this]
  have "delaykeys volkh_cfg ?e = Some [[], [], [], []]"
  proof -
    show ?thesis
      by (simp add: delaykeys_def get [OF n(2)] get [OF n(3)] get [OF n(4)] get [OF n(5)] key_of_def es map_add_def volkh_no_keys)
  qed
  from abortboot_no_key [OF this, of typed_io "(0, ''x'')" 3] D(1) show ?thesis
    by (auto simp: do_setenv_def typed_io_def numeral_3_eq_3)
qed

text \<open>C35: however the board is reset, the counter is the number of boots since the power came up or the counter was last
  cleared, and a boot runs \<open>altbootcmd\<close> exactly when there is a limit and that number is above it; so with a
  limit, the boot after \<open>bootlimit\<close> boots in a row that did not clear the counter runs \<open>altbootcmd\<close>.\<close>

theorem boots_limit:
  assumes "boots cfg es r0 (evs @ [Boot s]) r" and "snd r0 \<noteq> BOOTCOUNT_MAGIC" and "length evs + 1 < 2 ^ 32"
  shows "unat (bootcount_load r) = since_clear evs + 1 \<and>
    s = (if boot_limit es \<noteq> 0 \<and> unat (boot_limit es) < since_clear evs + 1
         then map_of es ''altbootcmd'' else map_of es ''bootcmd'')"
proof -
  have lt: "since_clear evs + 1 < 2 ^ 32" using since_clear_le [of evs] assms(3) by linarith
  have n: "unat (bootcount_load r) = since_clear evs + 1"
    using boots_count [OF assms(1,2)] lt unat_of_nat_u32 [of "since_clear evs + 1"] by simp
  from assms(1) obtain st limit st1 st2 k where st: "boots cfg es r0 evs (save_addr (st :: unit bstate))"
    "env_rep cfg (bs_env st) es" "in_ram (bs_env st)" "count_boot cfg st = Some (k, limit, st1)"
    "select_bootcmd cfg k limit st1 = Some (s, st2)"
    by (cases rule: boots.cases) auto
  have "k = of_nat (since_clear evs + 1)" "limit = boot_limit es"
    "s = (if boot_limit es \<noteq> 0 \<and> boot_limit es < k then map_of es ''altbootcmd'' else map_of es ''bootcmd'')"
    using boot_once [OF st(2,3)] st(4,5) boots_count [OF st(1) assms(2)] by auto
  then show ?thesis
    using n lt unat_of_nat_u32 [of "since_clear evs + 1"] by (simp add: word_less_nat_alt)
qed

theorem boots_limit_witness:
  "\<exists>s r. boots volkh_cfg volkh_defs (7, 7) ([Clear] @ [Boot s]) r \<and> unat (bootcount_load r) = 1 \<and>
     s = map_of volkh_defs ''bootcmd''"
proof -
  let ?st = "\<lparr>bs_env = volkh_env, bs_hw = (), save_addr = (0, 7), ctrlc_disabled = False, bs_out = []\<rparr>"
  have r: "env_rep volkh_cfg (bs_env ?st) volkh_defs" "in_ram (bs_env ?st)" by (simp_all add: volkh_env)
  have "boots volkh_cfg volkh_defs (7, 7) [Clear] (save_addr ?st)"
    using boots.clear [OF boots.power_up [of volkh_cfg volkh_defs "(7, 7)"]] by simp
  from boots.boot [OF this r] obtain s r' where b: "boots volkh_cfg volkh_defs (7, 7) ([Clear] @ [Boot s]) r'"
    using boot_once [OF r] by blast
  moreover have "since_clear [Clear] = 0" by (simp add: since_clear_def)
  moreover have "\<not> unat (boot_limit volkh_defs) < 1 \<or> boot_limit volkh_defs = 0"
    by (simp add: word_less_nat_alt unat_eq_zero)
  ultimately have "unat (bootcount_load r') = 1 \<and> s = map_of volkh_defs ''bootcmd''"
    using boots_limit [OF b] by auto
  with b show ?thesis by blast
qed

end
