(* ===== verification/Lmb.thy ===== *)
theory Lmb
  imports Prelude "HOL-Library.Monad_Syntax"
begin

text \<open>
  The logical memory blocks of \<^verbatim>\<open>lib_generic/lmb.c\<close>: a sorted table of at most eight regions for
  the memory and one for what is reserved in it, with reservation, release and allocation.

  The table has nine entries (\<^verbatim>\<open>MAX_LMB_REGIONS+1\<close>); an access outside is \<open>None\<close>.  All arithmetic
  on addresses is on 32-bit words and wraps, as in the code.  The abstract view of a table is the
  set of bytes its regions cover (\<open>region_set\<close>): reserving adds a block to the set, releasing
  takes one away, and allocation finds the highest free block of each memory region.  The weak
  symbol \<^verbatim>\<open>board_lmb_reserve\<close> is empty on this board; \<^verbatim>\<open>arch_lmb_reserve\<close> is in the theory \<open>Bootm\<close>.
\<close>

section \<open>The tables\<close>

record lmb_property =
  base :: u32
  psize :: u32

record lmb_region =
  cnt :: u32
  tsize :: u32
  region :: "lmb_property list"

record lmb =
  memory :: lmb_region
  reserved :: lmb_region

definition MAX_LMB_REGIONS :: nat where "MAX_LMB_REGIONS = 8"

definition get :: "lmb_region \<Rightarrow> nat \<Rightarrow> lmb_property option" where
  "get rgn i = (if i < length (region rgn) then Some (region rgn ! i) else None)"

definition put :: "lmb_region \<Rightarrow> nat \<Rightarrow> lmb_property \<Rightarrow> lmb_region option" where
  "put rgn i p = (if i < length (region rgn)
     then Some (rgn\<lparr>region := (region rgn)[i := p]\<rparr>) else None)"

definition lmb_addrs_overlap :: "u32 \<Rightarrow> u32 \<Rightarrow> u32 \<Rightarrow> u32 \<Rightarrow> bool" where
  "lmb_addrs_overlap base1 size1 base2 size2 \<longleftrightarrow> base1 < base2 + size2 \<and> base2 < base1 + size1"

definition lmb_addrs_adjacent :: "u32 \<Rightarrow> u32 \<Rightarrow> u32 \<Rightarrow> u32 \<Rightarrow> int" where
  "lmb_addrs_adjacent base1 size1 base2 size2 =
    (if base2 = base1 + size1 then 1 else if base1 = base2 + size2 then - 1 else 0)"

definition lmb_regions_adjacent :: "lmb_region \<Rightarrow> nat \<Rightarrow> nat \<Rightarrow> int option" where
  "lmb_regions_adjacent rgn r1 r2 = do {
     p1 \<leftarrow> get rgn r1;
     p2 \<leftarrow> get rgn r2;
     Some (lmb_addrs_adjacent (base p1) (psize p1) (base p2) (psize p2))
   }"

text \<open>The entries behind \<open>i\<close> move down; \<open>n\<close> is \<open>cnt - 1\<close>, which the loop does not change.\<close>

function remove_loop :: "nat \<Rightarrow> nat \<Rightarrow> lmb_region \<Rightarrow> lmb_region option" where
  "remove_loop n i rgn = (if i < n then do {
       p \<leftarrow> get rgn (i + 1);
       rgn \<leftarrow> put rgn i p;
       remove_loop n (i + 1) rgn
     } else Some rgn)"
  by pat_completeness auto
termination by (relation "measure (\<lambda>(n, i, _). n - i)") auto

declare remove_loop.simps [simp del]

definition lmb_remove_region :: "lmb_region \<Rightarrow> nat \<Rightarrow> lmb_region option" where
  "lmb_remove_region rgn r = do {
     rgn \<leftarrow> remove_loop (unat (cnt rgn - 1)) r rgn;
     Some (rgn\<lparr>cnt := cnt rgn - 1\<rparr>)
   }"

definition lmb_coalesce_regions :: "lmb_region \<Rightarrow> nat \<Rightarrow> nat \<Rightarrow> lmb_region option" where
  "lmb_coalesce_regions rgn r1 r2 = do {
     p1 \<leftarrow> get rgn r1;
     p2 \<leftarrow> get rgn r2;
     rgn \<leftarrow> put rgn r1 (p1\<lparr>psize := psize p1 + psize p2\<rparr>);
     lmb_remove_region rgn r2
   }"

definition lmb_init :: "lmb \<Rightarrow> lmb" where
  "lmb_init l = (let
     l = l\<lparr>memory := (memory l)\<lparr>cnt := 1, tsize := 0,
           region := (region (memory l))[0 := \<lparr>base = 0, psize = 0\<rparr>]\<rparr>\<rparr>
   in l\<lparr>reserved := (reserved l)\<lparr>cnt := 1, tsize := 0,
           region := (region (reserved l))[0 := \<lparr>base = 0, psize = 0\<rparr>]\<rparr>\<rparr>)"

section \<open>Adding a region\<close>

text \<open>The search for a region to join: \<open>Inl ()\<close> when the region is already there, otherwise the
  index at which the loop stopped, the count of coalesced regions and the table.\<close>

function add_scan :: "lmb_region \<Rightarrow> u32 \<Rightarrow> u32 \<Rightarrow> nat
    \<Rightarrow> (unit + nat \<times> int \<times> lmb_region) option" where
  "add_scan rgn b sz i = (if i < unat (cnt rgn) then do {
       p \<leftarrow> get rgn i;
       if base p = b \<and> psize p = sz then Some (Inl ())
       else let adjacent = lmb_addrs_adjacent b sz (base p) (psize p) in
         if adjacent > 0 then do {
           rgn \<leftarrow> put rgn i (p\<lparr>base := base p - sz, psize := psize p + sz\<rparr>);
           Some (Inr (i, 1, rgn))
         } else if adjacent < 0 then do {
           rgn \<leftarrow> put rgn i (p\<lparr>psize := psize p + sz\<rparr>);
           Some (Inr (i, 1, rgn))
         } else add_scan rgn b sz (i + 1)
     } else Some (Inr (i, 0, rgn)))"
  by pat_completeness auto
termination by (relation "measure (\<lambda>(rgn, b, sz, i). unat (cnt rgn) - i)") auto

declare add_scan.simps [simp del]

text \<open>The search for the place in the sorted table; the argument is the loop's \<open>i + 1\<close>.\<close>

primrec insert_down :: "lmb_region \<Rightarrow> u32 \<Rightarrow> u32 \<Rightarrow> nat \<Rightarrow> lmb_region option" where
  "insert_down rgn b sz 0 = Some rgn"
| "insert_down rgn b sz (Suc i) = do {
     p \<leftarrow> get rgn i;
     if b < base p then do {
       rgn \<leftarrow> put rgn (i + 1) p;
       insert_down rgn b sz i
     } else put rgn (i + 1) \<lparr>base = b, psize = sz\<rparr>
   }"

definition lmb_add_region :: "lmb_region \<Rightarrow> u32 \<Rightarrow> u32 \<Rightarrow> (int \<times> lmb_region) option" where
  "lmb_add_region rgn b sz = do {
     p0 \<leftarrow> get rgn 0;
     if cnt rgn = 1 \<and> psize p0 = 0 then do {
       rgn \<leftarrow> put rgn 0 \<lparr>base = b, psize = sz\<rparr>;
       Some (0, rgn)
     } else do {
       res \<leftarrow> add_scan rgn b sz 0;
       case res of Inl _ \<Rightarrow> Some (0, rgn)
       | Inr (i, coalesced, rgn) \<Rightarrow> do {
           adj \<leftarrow> (if i < unat (cnt rgn - 1) then lmb_regions_adjacent rgn i (i + 1) else Some 0);
           (coalesced, rgn) \<leftarrow> (if adj \<noteq> 0 then do {
               rgn \<leftarrow> lmb_coalesce_regions rgn i (i + 1);
               Some (coalesced + 1, rgn)
             } else Some (coalesced, rgn));
           if coalesced \<noteq> 0 then Some (coalesced, rgn)
           else if MAX_LMB_REGIONS \<le> unat (cnt rgn) then Some (- 1, rgn)
           else do {
             rgn \<leftarrow> insert_down rgn b sz (unat (cnt rgn));
             p0 \<leftarrow> get rgn 0;
             rgn \<leftarrow> (if b < base p0 then put rgn 0 \<lparr>base = b, psize = sz\<rparr> else Some rgn);
             Some (0, rgn\<lparr>cnt := cnt rgn + 1\<rparr>)
           }
         }
     }
   }"

definition lmb_add :: "lmb \<Rightarrow> u32 \<Rightarrow> u32 \<Rightarrow> (int \<times> lmb) option" where
  "lmb_add l b sz = do {
     (ret, rgn) \<leftarrow> lmb_add_region (memory l) b sz;
     Some (ret, l\<lparr>memory := rgn\<rparr>)
   }"

definition lmb_reserve :: "lmb \<Rightarrow> u32 \<Rightarrow> u32 \<Rightarrow> (int \<times> lmb) option" where
  "lmb_reserve l b sz = do {
     (ret, rgn) \<leftarrow> lmb_add_region (reserved l) b sz;
     Some (ret, l\<lparr>reserved := rgn\<rparr>)
   }"

section \<open>Releasing a region\<close>

function free_scan :: "lmb_region \<Rightarrow> u32 \<Rightarrow> u32 \<Rightarrow> nat \<Rightarrow> u32 \<Rightarrow> u32 \<Rightarrow> (nat \<times> u32 \<times> u32) option" where
  "free_scan rgn b end i rgnbegin rgnend = (if i < unat (cnt rgn) then do {
       p \<leftarrow> get rgn i;
       let rgnbegin = base p;
       let rgnend = rgnbegin + psize p;
       if rgnbegin \<le> b \<and> end \<le> rgnend then Some (i, rgnbegin, rgnend)
       else free_scan rgn b end (i + 1) rgnbegin rgnend
     } else Some (i, rgnbegin, rgnend))"
  by pat_completeness auto
termination by (relation "measure (\<lambda>(rgn, b, e, i, _). unat (cnt rgn) - i)") auto

declare free_scan.simps [simp del]

definition lmb_free :: "lmb \<Rightarrow> u32 \<Rightarrow> u32 \<Rightarrow> (int \<times> lmb) option" where
  "lmb_free l b sz = (let rgn = reserved l; end = b + sz in do {
     (i, rgnbegin, rgnend) \<leftarrow> free_scan rgn b end 0 0 0;
     if i = unat (cnt rgn) then Some (- 1, l)
     else if rgnbegin = b \<and> rgnend = end then do {
       rgn \<leftarrow> lmb_remove_region rgn i;
       Some (0, l\<lparr>reserved := rgn\<rparr>)
     } else do {
       p \<leftarrow> get rgn i;
       if rgnbegin = b then do {
         rgn \<leftarrow> put rgn i (p\<lparr>base := end, psize := psize p - sz\<rparr>);
         Some (0, l\<lparr>reserved := rgn\<rparr>)
       } else if rgnend = end then do {
         rgn \<leftarrow> put rgn i (p\<lparr>psize := psize p - sz\<rparr>);
         Some (0, l\<lparr>reserved := rgn\<rparr>)
       } else do {
         rgn \<leftarrow> put rgn i (p\<lparr>psize := b - base p\<rparr>);
         (ret, rgn) \<leftarrow> lmb_add_region rgn end (rgnend - end);
         Some (ret, l\<lparr>reserved := rgn\<rparr>)
       }
     }
   })"

section \<open>Allocation\<close>

function overlaps_loop :: "lmb_region \<Rightarrow> u32 \<Rightarrow> u32 \<Rightarrow> nat \<Rightarrow> nat option" where
  "overlaps_loop rgn b sz i = (if i < unat (cnt rgn) then do {
       p \<leftarrow> get rgn i;
       if lmb_addrs_overlap b sz (base p) (psize p) then Some i
       else overlaps_loop rgn b sz (i + 1)
     } else Some i)"
  by pat_completeness auto
termination by (relation "measure (\<lambda>(rgn, b, sz, i). unat (cnt rgn) - i)") auto

declare overlaps_loop.simps [simp del]

definition lmb_overlaps_region :: "lmb_region \<Rightarrow> u32 \<Rightarrow> u32 \<Rightarrow> int option" where
  "lmb_overlaps_region rgn b sz = do {
     i \<leftarrow> overlaps_loop rgn b sz 0;
     Some (if i < unat (cnt rgn) then int i else - 1)
   }"

definition lmb_align_down :: "u32 \<Rightarrow> u32 \<Rightarrow> u32" where
  "lmb_align_down addr sz = addr AND NOT (sz - 1)"

definition lmb_align_up :: "u32 \<Rightarrow> u32 \<Rightarrow> u32" where
  "lmb_align_up addr sz = (addr + (sz - 1)) AND NOT (sz - 1)"

definition LMB_ALLOC_ANYWHERE :: u32 where "LMB_ALLOC_ANYWHERE = 0"

text \<open>The search below an address ends because every reserved region that is in the way lies
  lower than the last candidate, also when the sum of address and size wraps.\<close>

lemma overlaps_loop_hit:
  "overlaps_loop rgn b sz i = Some j \<Longrightarrow> j < unat (cnt rgn) \<Longrightarrow>
     \<exists>p. get rgn j = Some p \<and> lmb_addrs_overlap b sz (base p) (psize p)"
proof (induction rgn b sz i rule: overlaps_loop.induct)
  case (1 rgn b sz i)
  then show ?case
    by (subst (asm) (2) overlaps_loop.simps)
      (auto split: if_splits bind_splits)
qed

lemma align_down_le: "lmb_align_down a n \<le> a"
  by (simp add: lmb_align_down_def word_and_le2)

lemma next_candidate_less:
  assumes j: "lmb_overlaps_region rgn b sz = Some j" "\<not> j < 0"
    and p: "get rgn (nat j) = Some p" and sz: "\<not> base p < sz"
  shows "lmb_align_down (base p - sz) align < b"
proof -
  from j obtain k where "overlaps_loop rgn b sz 0 = Some k" "k < unat (cnt rgn)" "j = int k"
    by (auto simp: lmb_overlaps_region_def split: bind_splits if_splits)
  then have "base p < b + sz"
    using overlaps_loop_hit [of rgn b sz 0 k] p by (auto simp: lmb_addrs_overlap_def)
  then have "unat (base p) < unat b + unat sz"
    using order.strict_trans2 [OF _ mod_less_eq_dividend, of "unat (base p)" "unat b + unat sz"]
    by (simp add: word_less_nat_alt unat_word_ariths)
  moreover have "unat (base p - sz) = unat (base p) - unat sz" "unat sz \<le> unat (base p)"
    using sz by (simp_all add: not_less unat_sub word_le_nat_alt)
  ultimately have "base p - sz < b" by (simp add: word_less_nat_alt)
  then show ?thesis using align_down_le le_less_trans by blast
qed

text \<open>The search inside one memory region: \<open>Inl\<close> is a return from the function, \<open>Inr\<close> goes on
  with the next region.\<close>

function alloc_loop :: "lmb \<Rightarrow> u32 \<Rightarrow> u32 \<Rightarrow> u32 \<Rightarrow> u32 \<Rightarrow> (u32 \<times> lmb + unit) option" where
  "alloc_loop l sz align lmbbase b = (if b \<noteq> 0 \<and> lmbbase \<le> b then do {
       j \<leftarrow> lmb_overlaps_region (reserved l) b sz;
       if j < 0 then do {
         (ret, rgn) \<leftarrow> lmb_add_region (reserved l) b (lmb_align_up sz align);
         Some (Inl (if ret < 0 then 0 else b, l\<lparr>reserved := rgn\<rparr>))
       } else do {
         p \<leftarrow> get (reserved l) (nat j);
         if base p < sz then Some (Inr ())
         else alloc_loop l sz align lmbbase (lmb_align_down (base p - sz) align)
       }
     } else Some (Inr ()))"
  by pat_completeness auto
termination
  by (relation "measure (\<lambda>(l, sz, align, lmbbase, b). unat b)")
    (use next_candidate_less in \<open>auto simp: word_less_nat_alt [symmetric]\<close>)

declare alloc_loop.simps [simp del]

primrec alloc_regions :: "lmb \<Rightarrow> u32 \<Rightarrow> u32 \<Rightarrow> u32 \<Rightarrow> nat \<Rightarrow> (u32 \<times> lmb) option" where
  "alloc_regions l sz align max_addr 0 = Some (0, l)"
| "alloc_regions l sz align max_addr (Suc i) = do {
     p \<leftarrow> get (memory l) i;
     let lmbbase = base p;
     let lmbsize = psize p;
     if lmbsize < sz then alloc_regions l sz align max_addr i
     else if max_addr \<noteq> LMB_ALLOC_ANYWHERE \<and> \<not> lmbbase < max_addr
     then alloc_regions l sz align max_addr i
     else do {
       res \<leftarrow> alloc_loop l sz align lmbbase
         (if max_addr = LMB_ALLOC_ANYWHERE then lmb_align_down (lmbbase + lmbsize - sz) align
          else lmb_align_down (min (lmbbase + lmbsize) max_addr - sz) align);
       case res of Inl r \<Rightarrow> Some r
       | Inr _ \<Rightarrow> alloc_regions l sz align max_addr i
     }
   }"

definition alloc_base :: "lmb \<Rightarrow> u32 \<Rightarrow> u32 \<Rightarrow> u32 \<Rightarrow> (u32 \<times> lmb) option" where
  "alloc_base l sz align max_addr = alloc_regions l sz align max_addr (unat (cnt (memory l)))"

text \<open>\<^verbatim>\<open>lmb_alloc_base\<close> only adds a message to \<^verbatim>\<open>__lmb_alloc_base\<close>.\<close>

definition lmb_alloc_base :: "lmb \<Rightarrow> u32 \<Rightarrow> u32 \<Rightarrow> u32 \<Rightarrow> (u32 \<times> lmb) option" where
  "lmb_alloc_base l sz align max_addr = alloc_base l sz align max_addr"

definition lmb_alloc :: "lmb \<Rightarrow> u32 \<Rightarrow> u32 \<Rightarrow> (u32 \<times> lmb) option" where
  "lmb_alloc l sz align = lmb_alloc_base l sz align LMB_ALLOC_ANYWHERE"

function reserved_loop :: "lmb_region \<Rightarrow> u32 \<Rightarrow> nat \<Rightarrow> int option" where
  "reserved_loop rgn addr i = (if i < unat (cnt rgn) then do {
       p \<leftarrow> get rgn i;
       let upper = base p + psize p - 1;
       if base p \<le> addr \<and> addr \<le> upper then Some 1
       else reserved_loop rgn addr (i + 1)
     } else Some 0)"
  by pat_completeness auto
termination by (relation "measure (\<lambda>(rgn, addr, i). unat (cnt rgn) - i)") auto

declare reserved_loop.simps [simp del]

definition lmb_is_reserved :: "lmb \<Rightarrow> u32 \<Rightarrow> int option" where
  "lmb_is_reserved l addr = reserved_loop (reserved l) addr 0"

section \<open>The abstract view\<close>

definition pend :: "lmb_property \<Rightarrow> nat" where
  "pend p = unat (base p) + unat (psize p)"

definition region_bytes :: "lmb_property \<Rightarrow> nat set" where
  "region_bytes p = {unat (base p)..<pend p}"

definition regs :: "lmb_region \<Rightarrow> lmb_property list" where
  "regs rgn = take (unat (cnt rgn)) (region rgn)"

definition region_set :: "lmb_region \<Rightarrow> nat set" where
  "region_set rgn = (\<Union>p \<in> set (regs rgn). region_bytes p)"

text \<open>A table in use: one dummy entry, or a sorted list of non-empty regions that end below the
  top of the address space.  Regions may overlap, since allocation rounds sizes up.\<close>

definition proper :: "lmb_property \<Rightarrow> bool" where
  "proper p \<longleftrightarrow> psize p \<noteq> 0 \<and> pend p < 2 ^ 32"

definition table_ok :: "lmb_property list \<Rightarrow> bool" where
  "table_ok xs \<longleftrightarrow> (\<forall>p \<in> set xs. proper p) \<and> sorted (map base xs)"

definition region_ok :: "lmb_region \<Rightarrow> bool" where
  "region_ok rgn \<longleftrightarrow> length (region rgn) = MAX_LMB_REGIONS + 1 \<and> 1 \<le> unat (cnt rgn)
     \<and> unat (cnt rgn) \<le> MAX_LMB_REGIONS
     \<and> (cnt rgn = 1 \<and> region rgn ! 0 = \<lparr>base = 0, psize = 0\<rparr>
        \<or> table_ok (regs rgn))"

lemma get_regs: "length (region rgn) = 9 \<Longrightarrow> i < unat (cnt rgn) \<Longrightarrow> unat (cnt rgn) \<le> 9
  \<Longrightarrow> get rgn i = Some (regs rgn ! i)"
  by (simp add: get_def regs_def)

lemma length_regs: "length (region rgn) = 9 \<Longrightarrow> unat (cnt rgn) \<le> 9
  \<Longrightarrow> length (regs rgn) = unat (cnt rgn)"
  by (simp add: regs_def)

lemma put_ok: "i < length (region rgn) \<Longrightarrow> put rgn i p = Some (rgn\<lparr>region := (region rgn)[i := p]\<rparr>)"
  by (simp add: put_def)

lemma regs_put: "regs (rgn\<lparr>region := (region rgn)[i := p]\<rparr>) = (regs rgn)[i := p]"
  by (simp add: regs_def take_update_swap)

lemma remove_loop_eq:
  assumes "n < length (region rgn)" "i \<le> n"
  shows "remove_loop n i rgn = Some (rgn\<lparr>region := take i (region rgn)
     @ take (n - i) (drop (i + 1) (region rgn)) @ drop n (region rgn)\<rparr>)"
  using assms
proof (induction n i rgn rule: remove_loop.induct)
  case (1 n i rgn)
  show ?case
  proof (cases "i < n")
    case True
    let ?r = "rgn\<lparr>region := (region rgn)[i := region rgn ! (i + 1)]\<rparr>"
    have g: "get rgn (i + 1) = Some (region rgn ! (i + 1))" "put rgn i (region rgn ! (i + 1)) = Some ?r"
      using True 1 by (simp_all add: get_def put_def)
    have "remove_loop n i rgn = remove_loop n (i + 1) ?r"
      by (subst remove_loop.simps) (simp add: True g [simplified])
    also have "\<dots> = Some (?r\<lparr>region := take (i + 1) (region ?r)
        @ take (n - (i + 1)) (drop (i + 1 + 1) (region ?r)) @ drop n (region ?r)\<rparr>)"
      using 1 True g by simp
    also have "\<dots> = Some (rgn\<lparr>region := take i (region rgn)
        @ take (n - i) (drop (i + 1) (region rgn)) @ drop n (region rgn)\<rparr>)"
    proof -
      have "take (n - i) (drop (i + 1) (region rgn))
          = region rgn ! (i + 1) # take (n - (i + 1)) (drop (i + 2) (region rgn))"
        using True 1(2) Cons_nth_drop_Suc [of "i + 1" "region rgn", symmetric]
        by (simp add: take_Cons' numeral_2_eq_2)
      then show ?thesis
        using True 1(2) by (simp add: take_Suc_conv_app_nth take_update_swap list_update_append)
    qed
    finally show ?thesis .
  next
    case False
    with 1 have "n = i" by simp
    then show ?thesis by (subst remove_loop.simps) simp
  qed
qed

lemma remove_region:
  assumes l: "length (region rgn) = 9" "unat (cnt rgn) \<le> 9" and r: "r < unat (cnt rgn)"
  shows "\<exists>rgn'. lmb_remove_region rgn r = Some rgn' \<and> length (region rgn') = 9
    \<and> unat (cnt rgn') = unat (cnt rgn) - 1 \<and> regs rgn' = take r (regs rgn) @ drop (r + 1) (regs rgn)"
proof -
  have c: "unat (cnt rgn - 1) = unat (cnt rgn) - 1"
    using r by (simp add: unat_sub word_le_nat_alt)
  let ?R = "take r (region rgn) @ take (unat (cnt rgn) - 1 - r) (drop (r + 1) (region rgn))
    @ drop (unat (cnt rgn) - 1) (region rgn)"
  have "lmb_remove_region rgn r = Some (rgn\<lparr>cnt := cnt rgn - 1, region := ?R\<rparr>)"
    unfolding lmb_remove_region_def c using l r by (subst remove_loop_eq) auto
  moreover have "take (unat (cnt rgn) - 1) ?R = take r (regs rgn) @ drop (r + 1) (regs rgn)"
    using l r by (cases "r = unat (cnt rgn) - 1") (auto simp: regs_def min_def drop_take)
  ultimately show ?thesis using l r c by (simp add: regs_def)
qed

text \<open>A table of \<open>n\<close> regions \<open>xs\<close>.\<close>

definition holds :: "lmb_region \<Rightarrow> lmb_property list \<Rightarrow> bool" where
  "holds rgn xs \<longleftrightarrow> length (region rgn) = 9 \<and> unat (cnt rgn) \<le> 9 \<and> regs rgn = xs"

lemma holds_length: "holds rgn xs \<Longrightarrow> unat (cnt rgn) = length xs"
  by (auto simp: holds_def length_regs)

lemma holds_get: "holds rgn xs \<Longrightarrow> i < length xs \<Longrightarrow> get rgn i = Some (xs ! i)"
  by (auto simp: holds_def length_regs get_regs)

lemma holds_put:
  "holds rgn xs \<Longrightarrow> i < length xs \<Longrightarrow> put rgn i p = Some (rgn\<lparr>region := (region rgn)[i := p]\<rparr>)"
  "holds rgn xs \<Longrightarrow> holds (rgn\<lparr>region := (region rgn)[i := p]\<rparr>) (xs[i := p])"
  by (auto simp: holds_def length_regs put_ok regs_put)

lemma holds_coalesce:
  assumes "holds rgn (ys @ p # q # zs)"
  shows "\<exists>rgn'. lmb_coalesce_regions rgn (length ys) (length ys + 1) = Some rgn'
    \<and> holds rgn' (ys @ p\<lparr>psize := psize p + psize q\<rparr> # zs)"
proof -
  let ?p = "p\<lparr>psize := psize p + psize q\<rparr>"
  let ?r = "rgn\<lparr>region := (region rgn)[length ys := ?p]\<rparr>"
  have r: "holds ?r (ys @ ?p # q # zs)"
    using holds_put(2) [OF assms, of "length ys" ?p] by simp
  have g: "get rgn (length ys) = Some p" "get rgn (length ys + 1) = Some q"
    "put rgn (length ys) ?p = Some ?r"
    using holds_get [OF assms] holds_put(1) [OF assms] by (simp_all add: nth_append)
  obtain rgn' where "lmb_remove_region ?r (length ys + 1) = Some rgn'" "holds rgn' (ys @ ?p # zs)"
    using remove_region [of ?r "length ys + 1"] r holds_length [OF r]
    by (auto simp: holds_def)
  with g show ?thesis by (simp add: lmb_coalesce_regions_def)
qed

text \<open>The place of a new entry: behind the last one that does not begin above it.\<close>

definition ins_pos :: "u32 \<Rightarrow> lmb_property list \<Rightarrow> nat" where
  "ins_pos b xs = length (dropWhile (\<lambda>p. b < base p) (rev xs))"

lemma insert_down_eq:
  assumes "k < length (region rgn)"
  shows "insert_down rgn b sz k = Some (rgn\<lparr>region :=
    let R = region rgn; m = ins_pos b (take k R) in
      (if m = 0 then take 1 R @ take k R else take m R @ \<lparr>base = b, psize = sz\<rparr> # drop m (take k R))
      @ drop (k + 1) R\<rparr>)"
  using assms
proof (induction k arbitrary: rgn)
  case 0
  then show ?case by (simp add: ins_pos_def)
next
  case (Suc i)
  let ?R = "region rgn" and ?p = "region rgn ! i"
  have g: "get rgn i = Some ?p" using Suc by (simp add: get_def)
  have t: "take (Suc i) ?R = take i ?R @ [?p]" using Suc by (simp add: take_Suc_conv_app_nth)
  show ?case
  proof (cases "b < base ?p")
    case True
    let ?r = "rgn\<lparr>region := ?R[Suc i := ?p]\<rparr>"
    have d: "drop (Suc i) (?R[Suc i := ?p]) = ?p # drop (Suc (Suc i)) ?R"
      using Suc by (simp add: drop_update_swap Cons_nth_drop_Suc [symmetric])
    have m: "ins_pos b (take (Suc i) ?R) = ins_pos b (take i ?R)"
      using True by (simp add: ins_pos_def t)
    have "ins_pos b (take i ?R) \<le> i"
      unfolding ins_pos_def by (rule order.trans [OF length_dropWhile_le]) simp
    moreover have "insert_down rgn b sz (Suc i) = insert_down ?r b sz i"
      using g True Suc by (simp add: put_def)
    ultimately show ?thesis
      using Suc d by (simp add: m Let_def) (simp add: t take_update_swap)
  next
    case False
    then have m: "ins_pos b (take (Suc i) ?R) = Suc i"
      using Suc by (simp add: ins_pos_def t)
    have "?R[Suc i := x] = take (Suc i) ?R @ x # drop (Suc (Suc i)) ?R" for x
      using Suc by (simp add: upd_conv_take_nth_drop)
    then show ?thesis using g False Suc m by (simp add: put_def Let_def)
  qed
qed

definition covered :: "lmb_property list \<Rightarrow> nat set" where
  "covered xs = (\<Union>p \<in> set xs. region_bytes p)"

lemma covered_simps [simp]:
  "covered [] = {}" "covered (p # xs) = region_bytes p \<union> covered xs"
  "covered (xs @ ys) = covered xs \<union> covered ys"
  by (simp_all add: covered_def)

definition block :: "u32 \<Rightarrow> u32 \<Rightarrow> nat set" where
  "block b sz = {unat b..<unat b + unat sz}"

lemma unat_add_u32: "unat a + unat b < 2 ^ 32 \<Longrightarrow> unat (a + b :: u32) = unat a + unat b"
  by (simp add: unat_word_ariths)

text \<open>A region that grows at its end, or at its beginning, by an adjacent block.\<close>

lemma grow_up:
  assumes "proper p" "b = base p + psize p" "unat b + unat sz < 2 ^ 32"
  shows "region_bytes (p\<lparr>psize := psize p + sz\<rparr>) = region_bytes p \<union> block b sz \<and> proper (p\<lparr>psize := psize p + sz\<rparr>)"
proof -
  have b: "unat b = unat (base p) + unat (psize p)"
    using assms by (simp add: proper_def pend_def unat_add_u32)
  then have "unat (psize p + sz) = unat (psize p) + unat sz"
    using assms(3) by (simp add: unat_add_u32)
  moreover have "psize p \<noteq> 0" using assms(1) by (simp add: proper_def)
  ultimately show ?thesis
    using b assms(3) by (auto simp: region_bytes_def block_def proper_def pend_def unat_eq_0 [symmetric] simp del: unat_eq_zero)
qed

lemma grow_down:
  assumes "proper p" "base p = b + sz" "unat b + unat sz < 2 ^ 32"
  shows "region_bytes (p\<lparr>base := base p - sz, psize := psize p + sz\<rparr>) = region_bytes p \<union> block b sz
    \<and> proper (p\<lparr>base := base p - sz, psize := psize p + sz\<rparr>)"
proof -
  have b: "unat (base p) = unat b + unat sz"
    using assms by (simp add: unat_add_u32)
  then have "unat (psize p + sz) = unat (psize p) + unat sz"
    using assms(1) by (simp add: unat_add_u32 proper_def pend_def)
  moreover have "psize p \<noteq> 0" "pend p < 2 ^ 32" using assms(1) by (simp_all add: proper_def)
  ultimately show ?thesis
    using b assms(2) by (auto simp: region_bytes_def block_def proper_def pend_def unat_eq_0 [symmetric] simp del: unat_eq_zero)
qed

definition is_grown :: "u32 \<Rightarrow> u32 \<Rightarrow> lmb_property \<Rightarrow> lmb_property \<Rightarrow> bool" where
  "is_grown b sz p p' \<longleftrightarrow>
     base p = b + sz \<and> p' = p\<lparr>base := base p - sz, psize := psize p + sz\<rparr>
   \<or> b = base p + psize p \<and> p' = p\<lparr>psize := psize p + sz\<rparr>"

lemma add_scan_cases:
  assumes "holds rgn xs" "i \<le> length xs"
  shows "(\<exists>p \<in> set xs. base p = b \<and> psize p = sz) \<and> add_scan rgn b sz i = Some (Inl ())
    \<or> (\<exists>ys p p' zs. xs = ys @ p # zs \<and> (\<forall>q \<in> set (drop i ys). base q \<noteq> b + sz)
        \<and> is_grown b sz p p' \<and> i \<le> length ys
        \<and> add_scan rgn b sz i
          = Some (Inr (length ys, 1, rgn\<lparr>region := (region rgn)[length ys := p']\<rparr>)))
    \<or> add_scan rgn b sz i = Some (Inr (length xs, 0, rgn))"
  using assms(2)
proof (induction "length xs - i" arbitrary: i)
  case 0
  then show ?case using holds_length [OF assms(1)] by (subst (3) add_scan.simps) simp
next
  case (Suc n)
  then have i: "i < length xs" by simp
  let ?p = "xs ! i"
  have xs: "xs = take i xs @ ?p # drop (i + 1) xs" using id_take_nth_drop [OF i] by simp
  note g = holds_get [OF assms(1) i] and c = holds_length [OF assms(1)]
    and put = holds_put(1) [OF assms(1) i]
  have e: "add_scan rgn b sz i = (if base ?p = b \<and> psize ?p = sz then Some (Inl ())
      else if base ?p = b + sz then Some (Inr (i, 1, rgn\<lparr>region :=
        (region rgn)[i := ?p\<lparr>base := base ?p - sz, psize := psize ?p + sz\<rparr>]\<rparr>))
      else if b = base ?p + psize ?p then Some (Inr (i, 1, rgn\<lparr>region :=
        (region rgn)[i := ?p\<lparr>psize := psize ?p + sz\<rparr>]\<rparr>))
      else add_scan rgn b sz (i + 1))"
    using i by (subst add_scan.simps) (auto simp: g c put lmb_addrs_adjacent_def add_eq_0_iff)
  consider (exact) "base ?p = b \<and> psize ?p = sz"
    | (grow) p' where "\<not> (base ?p = b \<and> psize ?p = sz)" "is_grown b sz ?p p'"
        "add_scan rgn b sz i = Some (Inr (i, 1, rgn\<lparr>region := (region rgn)[i := p']\<rparr>))"
    | (go) "add_scan rgn b sz i = add_scan rgn b sz (i + 1)" "base ?p \<noteq> b + sz"
    using e unfolding is_grown_def by (metis (full_types))
  then show ?case
  proof cases
    case exact
    then show ?thesis using g c i nth_mem [OF i] by (subst add_scan.simps) auto
  next
    case grow
    have "length (take i xs) = i" using i by simp
    then show ?thesis using grow xs by (metis drop_all empty_iff empty_set order_refl)
  next
    case go
    have ih: "n = length xs - (i + 1)" "i + 1 \<le> length xs" using Suc by auto
    have "drop i ys = ?p # drop (i + 1) ys" if "i + 1 \<le> length ys" "xs = ys @ p # zs" for ys p zs
      using that by (simp add: Cons_nth_drop_Suc [symmetric] nth_append)
    then have "base q \<noteq> b + sz" if "i + 1 \<le> length ys" "xs = ys @ p # zs"
        "\<forall>q \<in> set (drop (i + 1) ys). base q \<noteq> b + sz" "q \<in> set (drop i ys)" for ys p zs q
      using that go(2) by auto
    with Suc(1) [OF ih] go(1) show ?thesis by (metis add_leD1)
  qed
qed

text \<open>A block may be added when it is disjoint from every region, or when no region begins right
  behind it; the rounded block of an allocation may overlap.\<close>

definition clear :: "lmb_property list \<Rightarrow> u32 \<Rightarrow> u32 \<Rightarrow> bool" where
  "clear xs b sz \<longleftrightarrow> (\<forall>p \<in> set xs. region_bytes p \<inter> block b sz = {}) \<or> b + sz \<notin> base ` set xs"

lemma base_in_region: "proper p \<Longrightarrow> unat (base p) \<in> region_bytes p"
  by (simp add: proper_def region_bytes_def pend_def word_greater_zero_iff unat_gt_0)

lemma table_ok_iff:
  "table_ok (ys @ p # zs) \<longleftrightarrow> (\<forall>q \<in> set ys. proper q \<and> base q \<le> base p \<and> (\<forall>r \<in> set zs. base q \<le> base r))
     \<and> proper p \<and> (\<forall>q \<in> set zs. proper q \<and> base p \<le> base q)
     \<and> sorted (map base ys) \<and> sorted (map base zs)"
  by (auto simp: table_ok_def sorted_append)

lemma grown_table:
  assumes t: "table_ok (ys @ p # zs)" and g: "is_grown b sz p p'"
    and nw: "unat b + unat sz < 2 ^ 32" and sz: "sz \<noteq> 0" and cl: "clear (ys @ p # zs) b sz"
    and ys: "\<forall>q \<in> set ys. base q \<noteq> b + sz"
  shows "table_ok (ys @ p' # zs) \<and> covered (ys @ p' # zs) = covered (ys @ p # zs) \<union> block b sz"
proof -
  have p: "proper p" using t by (simp add: table_ok_iff)
  have e: "region_bytes p' = region_bytes p \<union> block b sz" "proper p'"
    using g [unfolded is_grown_def] grow_up [OF p _ nw] grow_down [OF p _ nw] by blast+
  have le: "base p' \<le> base p" "base q \<le> base p'" if q: "q \<in> set ys" for q
  proof -
    have q': "proper q" "base q \<le> base p" using t q by (auto simp: table_ok_iff)
    have "base p' \<le> base p \<and> base q \<le> base p'"
    proof (cases "base p = b + sz")
      case True
      then have d: "region_bytes q \<inter> block b sz = {}" using cl q by (auto simp: clear_def)
      have "unat (base p) = unat b + unat sz" using True nw by (simp add: unat_add_u32)
      moreover have "base q \<noteq> base p" using ys q True by simp
      ultimately have "base q < b" "b \<le> base p" using d base_in_region [OF q'(1)] q'(2)
        by (auto simp: block_def word_le_nat_alt word_less_nat_alt word_unat_eq_iff)
      then show ?thesis using g True by (auto simp: is_grown_def)
    next
      case False
      then show ?thesis using g q' by (auto simp: is_grown_def)
    qed
    then show "base p' \<le> base p" "base q \<le> base p'" by auto
  qed
  have "base p' \<le> base p"
    using g nw by (auto simp: is_grown_def word_le_nat_alt unat_add_u32)
  then have "table_ok (ys @ p' # zs)"
    using t e(2) le(2) order.trans [of "base p'" "base p"] by (auto simp: table_ok_iff)
  then show ?thesis using e by auto
qed

lemma merged_table:
  assumes t: "table_ok (ys @ p # q # zs)" and adj: "lmb_addrs_adjacent (base p) (psize p) (base q) (psize q) \<noteq> 0"
  shows "table_ok (ys @ p\<lparr>psize := psize p + psize q\<rparr> # zs)
    \<and> covered (ys @ p\<lparr>psize := psize p + psize q\<rparr> # zs) = covered (ys @ p # q # zs)"
proof -
  have pq: "proper p" "proper q" "base p \<le> base q" using t by (auto simp: table_ok_iff)
  have "base p \<noteq> base q + psize q"
  proof
    assume "base p = base q + psize q"
    then have "unat (base p) = unat (base q) + unat (psize q)"
      using pq by (simp add: proper_def pend_def unat_add_u32)
    then show False using pq by (simp add: proper_def word_le_nat_alt unat_eq_0 [symmetric] del: unat_eq_zero)
  qed
  then have q: "base q = base p + psize p" using adj by (auto simp: lmb_addrs_adjacent_def split: if_splits)
  have "unat (base q) + unat (psize q) < 2 ^ 32" using pq by (simp add: proper_def pend_def)
  from grow_up [OF pq(1) q this] show ?thesis
    using t by (auto simp: table_ok_iff block_def region_bytes_def pend_def)
qed

lemma inserted_table:
  assumes t: "table_ok xs" and sz: "sz \<noteq> 0" "unat b + unat sz < 2 ^ 32" and m: "m = ins_pos b xs"
  shows "table_ok (take m xs @ \<lparr>base = b, psize = sz\<rparr> # drop m xs)
    \<and> covered (take m xs @ \<lparr>base = b, psize = sz\<rparr> # drop m xs) = covered xs \<union> block b sz"
proof -
  let ?P = "\<lambda>p. b < base p"
  have xs: "xs = rev (dropWhile ?P (rev xs)) @ rev (takeWhile ?P (rev xs))"
    by (metis rev_append rev_rev_ident takeWhile_dropWhile_id)
  then have tk: "take m xs = rev (dropWhile ?P (rev xs))" "drop m xs = rev (takeWhile ?P (rev xs))"
    by (metis append_eq_conv_conj ins_pos_def length_rev m)+
  have hi: "\<forall>q \<in> set (drop m xs). b < base q" using tk by (auto dest: set_takeWhileD)
  have s: "sorted (map base (take m xs @ drop m xs))" using t by (simp add: table_ok_def)
  have lo: "base q \<le> b" if "q \<in> set (take m xs)" for q
  proof -
    have "dropWhile ?P (rev xs) \<noteq> []" using that unfolding tk(1) by (cases "dropWhile ?P (rev xs)") simp_all
    then obtain x zs where x: "dropWhile ?P (rev xs) = x # zs" "\<not> b < base x"
      using hd_dropWhile by (metis list.collapse)
    then have "take m xs = rev zs @ [x]" using tk by simp
    then show ?thesis using s x(2) that by (force simp: sorted_append)
  qed
  have "table_ok (take m xs @ \<lparr>base = b, psize = sz\<rparr> # drop m xs)"
    unfolding table_ok_iff
  proof (intro conjI)
    have pr: "\<forall>q \<in> set (take m xs @ drop m xs). proper q" using t by (simp add: table_ok_def)
    show "\<forall>q \<in> set (take m xs). proper q \<and> base q \<le> base \<lparr>base = b, psize = sz\<rparr>
        \<and> (\<forall>r \<in> set (drop m xs). base q \<le> base r)"
      using pr lo s unfolding map_append sorted_append by (auto dest: in_set_takeD)
    show "\<forall>q \<in> set (drop m xs). proper q \<and> base \<lparr>base = b, psize = sz\<rparr> \<le> base q"
      using pr hi by (auto intro: less_imp_le dest: in_set_dropD)
  qed (use s sz in \<open>auto simp: proper_def pend_def sorted_wrt_take sorted_wrt_drop take_map [symmetric] drop_map [symmetric]\<close>)
  moreover have "covered xs = covered (take m xs) \<union> covered (drop m xs)"
    using covered_simps(3) [of "take m xs" "drop m xs"] by simp
  ultimately show ?thesis by (auto simp: region_bytes_def block_def pend_def)
qed

lemma inserted_region:
  assumes h: "holds rgn xs" and t: "table_ok xs" and l: "xs \<noteq> []" "length xs < 8"
  shows "\<exists>rgn1 p0 rgn2. insert_down rgn b sz (length xs) = Some rgn1 \<and> get rgn1 0 = Some p0
    \<and> (if b < base p0 then put rgn1 0 \<lparr>base = b, psize = sz\<rparr> else Some rgn1) = Some rgn2
    \<and> holds (rgn2\<lparr>cnt := cnt rgn2 + 1\<rparr>)
        (take (ins_pos b xs) xs @ \<lparr>base = b, psize = sz\<rparr> # drop (ins_pos b xs) xs)"
proof -
  let ?n = "\<lparr>base = b, psize = sz\<rparr>" and ?m = "ins_pos b xs" and ?k = "length xs"
  let ?xs' = "take ?m xs @ ?n # drop ?m xs" and ?R = "region rgn"
  have R: "length ?R = 9" "take ?k ?R = xs"
    using h holds_length [OF h] by (auto simp: holds_def regs_def)
  have m: "?m \<le> ?k"
    unfolding ins_pos_def by (rule order.trans [OF length_dropWhile_le]) simp
  have c: "unat (cnt rgn + 1) = ?k + 1"
    using holds_length [OF h] l by (simp add: unat_word_ariths)
  have fin: "holds (rgn\<lparr>region := ?xs' @ drop (?k + 1) ?R, cnt := cnt rgn + 1\<rparr>) ?xs'"
    using R m l c by (simp add: holds_def regs_def Suc_diff_le)
  note ins = insert_down_eq [of ?k rgn b sz, unfolded R(2)]
  show ?thesis
  proof (cases "?m = 0")
    case True
    then have "dropWhile (\<lambda>p. b < base p) (rev xs) = []" by (simp add: ins_pos_def)
    then have "b < base (xs ! 0)" using l nth_mem [of 0 xs] by auto
    moreover have "?R ! 0 = xs ! 0" using R(2) l by (metis length_greater_0_conv nth_take)
    moreover have "take 1 ?R = [?R ! 0]" using R by (cases ?R) auto
    ultimately show ?thesis using ins R l True fin by (simp add: Let_def get_def put_def)
  next
    case False
    have z: "?xs' ! 0 = xs ! 0" "xs ! 0 \<in> set (take ?m xs)"
      using False l by (simp_all add: nth_append in_set_conv_nth) (metis nth_take length_greater_0_conv neq0_conv)
    have "\<not> b < base (xs ! 0)"
    proof -
      have "set (take ?m xs) = set (dropWhile (\<lambda>p. b < base p) (rev xs))"
        by (metis append_eq_conv_conj ins_pos_def length_rev rev_append rev_rev_ident set_rev takeWhile_dropWhile_id)
      with z have "dropWhile (\<lambda>p. b < base p) (rev xs) \<noteq> []" by (metis empty_iff empty_set)
      then obtain x where "x \<in> set xs" "\<not> b < base x"
        by (metis hd_dropWhile hd_in_set set_dropWhileD set_rev)
      moreover have "base (xs ! 0) \<le> base x" if "x \<in> set xs" for x
        using t that l by (cases xs) (auto simp: table_ok_def)
      ultimately show ?thesis by fastforce
    qed
    moreover have "take ?m ?R = take ?m xs" using R(2) m by (metis min_absorb1 take_take)
    ultimately show ?thesis
      using ins R l False fin z by (simp add: Let_def get_def nth_append)
  qed
qed

lemma grown_region:
  assumes h: "holds rgn (ys @ p # zs)" and len: "length (ys @ p # zs) \<le> 8"
    and g: "get rgn 0 = Some p0" "psize p0 \<noteq> 0" and t: "table_ok (ys @ p' # zs)"
    and s: "add_scan rgn b sz 0 = Some (Inr (length ys, 1, rgn\<lparr>region := (region rgn)[length ys := p']\<rparr>))"
  shows "\<exists>ret rgn' xs'. lmb_add_region rgn b sz = Some (ret, rgn') \<and> 0 \<le> ret \<and> holds rgn' xs'
    \<and> table_ok xs' \<and> xs' \<noteq> [] \<and> length xs' \<le> length (ys @ p # zs) \<and> covered xs' = covered (ys @ p' # zs)"
proof -
  let ?r = "rgn\<lparr>region := (region rgn)[length ys := p']\<rparr>"
  have r: "holds ?r (ys @ p' # zs)" using holds_put(2) [OF h, of "length ys" p'] by simp
  have c1: "unat (cnt rgn - 1) = length ys + length zs"
    using holds_length [OF h] by (simp add: unat_sub word_le_nat_alt)
  show ?thesis
  proof (cases "\<exists>q zs'. zs = q # zs' \<and> lmb_addrs_adjacent (base p') (psize p') (base q) (psize q) \<noteq> 0")
    case True
    then obtain q zs' where q: "zs = q # zs'"
      "lmb_addrs_adjacent (base p') (psize p') (base q) (psize q) \<noteq> 0" by auto
    have a: "lmb_regions_adjacent ?r (length ys) (length ys + 1)
        = Some (lmb_addrs_adjacent (base p') (psize p') (base q) (psize q))"
      using holds_get [OF r] q(1) by (simp add: lmb_regions_adjacent_def nth_append)
    obtain rgn' where c: "lmb_coalesce_regions ?r (length ys) (length ys + 1) = Some rgn'"
        "holds rgn' (ys @ p'\<lparr>psize := psize p' + psize q\<rparr> # zs')"
      using holds_coalesce r q(1) by blast
    have "lmb_add_region rgn b sz = Some (2, rgn')"
      using g s q a c(1) c1 by (simp add: lmb_add_region_def)
    then show ?thesis
      using c(2) merged_table [of ys p' q zs'] q t len
      by (intro exI [of _ 2] exI [of _ rgn'] exI [of _ "ys @ p'\<lparr>psize := psize p' + psize q\<rparr> # zs'"]) auto
  next
    case False
    have a: "lmb_regions_adjacent ?r (length ys) (length ys + 1) = Some 0" if "zs \<noteq> []"
    proof -
      obtain q zs' where "zs = q # zs'" using \<open>zs \<noteq> []\<close> by (cases zs) auto
      then show ?thesis using holds_get [OF r] False by (simp add: lmb_regions_adjacent_def nth_append)
    qed
    have "lmb_add_region rgn b sz = Some (1, ?r)"
      using g s a c1 by (cases "zs = []") (auto simp: lmb_add_region_def)
    then show ?thesis
      using r t len by (intro exI [of _ 1] exI [of _ ?r] exI [of _ "ys @ p' # zs"]) auto
  qed
qed

lemma add_region_ok:
  assumes h: "holds rgn xs" and t: "table_ok xs" and l: "xs \<noteq> []" "length xs \<le> 8"
    and sz: "sz \<noteq> 0" "unat b + unat sz < 2 ^ 32" and cl: "clear xs b sz"
  shows "\<exists>ret rgn' xs'. lmb_add_region rgn b sz = Some (ret, rgn') \<and> holds rgn' xs' \<and> table_ok xs'
    \<and> xs' \<noteq> [] \<and> length xs' \<le> 8 \<and> length xs' \<le> length xs + 1
    \<and> (if ret < 0 then rgn' = rgn \<and> length xs = 8 else covered xs' = covered xs \<union> block b sz)"
proof -
  note len = holds_length [OF h]
  have c1: "unat (cnt rgn - 1) = length xs - 1"
    using len l by (simp add: unat_sub word_le_nat_alt Suc_le_eq)
  have g0: "get rgn 0 = Some (xs ! 0)" "psize (xs ! 0) \<noteq> 0"
    using holds_get [OF h, of 0] l t nth_mem [of 0 xs] by (auto simp: table_ok_def proper_def)
  consider (exact) p where "p \<in> set xs" "base p = b" "psize p = sz" "add_scan rgn b sz 0 = Some (Inl ())"
    | (grow) ys p p' zs where "xs = ys @ p # zs" "\<forall>q \<in> set ys. base q \<noteq> b + sz" "is_grown b sz p p'"
        "add_scan rgn b sz 0 = Some (Inr (length ys, 1, rgn\<lparr>region := (region rgn)[length ys := p']\<rparr>))"
    | (new) "add_scan rgn b sz 0 = Some (Inr (length xs, 0, rgn))"
    using add_scan_cases [OF h, of 0 b sz] by auto
  then show ?thesis
  proof cases
    case exact
    then have "block b sz \<subseteq> covered xs" by (force simp: covered_def region_bytes_def block_def pend_def)
    then show ?thesis using exact g0 h t l by (auto simp: lmb_add_region_def)
  next
    case grow
    note gt = grown_table [OF t [unfolded grow(1)] grow(3) sz(2,1) cl [unfolded grow(1)] grow(2)]
    obtain ret rgn' xs' where "lmb_add_region rgn b sz = Some (ret, rgn')" "0 \<le> ret" "holds rgn' xs'"
        "table_ok xs'" "xs' \<noteq> []" "length xs' \<le> length xs" "covered xs' = covered xs \<union> block b sz"
      using grown_region [OF h [unfolded grow(1)] l(2) [unfolded grow(1)] g0 conjunct1 [OF gt] grow(4)] gt grow(1)
      by auto
    then show ?thesis using l(2) by (intro exI [of _ ret] exI [of _ rgn'] exI [of _ xs']) auto
  next
    case new
    show ?thesis
    proof (cases "length xs = 8")
      case True
      then have "lmb_add_region rgn b sz = Some (- 1, rgn)"
        using g0 new c1 len by (simp add: lmb_add_region_def MAX_LMB_REGIONS_def)
      then show ?thesis using h t l True by auto
    next
      case False
      let ?xs' = "take (ins_pos b xs) xs @ \<lparr>base = b, psize = sz\<rparr> # drop (ins_pos b xs) xs"
      obtain rgn1 p0 rgn2 where i: "insert_down rgn b sz (length xs) = Some rgn1" "get rgn1 0 = Some p0"
          "(if b < base p0 then put rgn1 0 \<lparr>base = b, psize = sz\<rparr> else Some rgn1) = Some rgn2"
          "holds (rgn2\<lparr>cnt := cnt rgn2 + 1\<rparr>) ?xs'"
        using inserted_region [OF h t l(1), of b sz] l(2) False by fastforce
      have "lmb_add_region rgn b sz = Some (0, rgn2\<lparr>cnt := cnt rgn2 + 1\<rparr>)"
        using g0 new c1 len i(1-3) False l
        by (auto simp: lmb_add_region_def MAX_LMB_REGIONS_def split: if_splits)
      then show ?thesis
        using i(4) inserted_table [OF t sz refl] l False
        by (intro exI [of _ 0] exI [of _ "rgn2\<lparr>cnt := cnt rgn2 + 1\<rparr>"] exI [of _ ?xs']) auto
    qed
  qed
qed

text \<open>The same for a table as it is in use, with the dummy entry.\<close>

lemma region_ok_cases:
  assumes "region_ok rgn"
  obtains (dummy) "cnt rgn = 1" "region rgn ! 0 = \<lparr>base = 0, psize = 0\<rparr>" "length (region rgn) = 9"
      "regs rgn = [\<lparr>base = 0, psize = 0\<rparr>]"
    | (table) "holds rgn (regs rgn)" "table_ok (regs rgn)" "regs rgn \<noteq> []" "length (regs rgn) \<le> 8"
      "unat (cnt rgn) = length (regs rgn)"
proof -
  have l: "length (region rgn) = 9" "1 \<le> unat (cnt rgn)" "unat (cnt rgn) \<le> 8"
    using assms by (simp_all add: region_ok_def MAX_LMB_REGIONS_def)
  then have c: "unat (cnt rgn) = length (regs rgn)" by (simp add: regs_def)
  consider "cnt rgn = 1" "region rgn ! 0 = \<lparr>base = 0, psize = 0\<rparr>" | "table_ok (regs rgn)"
    using assms by (auto simp: region_ok_def)
  then show thesis
  proof cases
    case 1
    then have "regs rgn = [\<lparr>base = 0, psize = 0\<rparr>]" using l by (cases "region rgn") (auto simp: regs_def)
    then show thesis using 1 l dummy by simp
  next
    case 2
    moreover have "regs rgn \<noteq> []" using l c by auto
    ultimately show thesis using l c table by (auto simp: holds_def)
  qed
qed

lemma region_ok_table:
  "holds rgn xs \<Longrightarrow> table_ok xs \<Longrightarrow> xs \<noteq> [] \<Longrightarrow> length xs \<le> 8 \<Longrightarrow> region_ok rgn \<and> regs rgn = xs"
  using holds_length [of rgn xs]
  by (auto simp: region_ok_def holds_def MAX_LMB_REGIONS_def Suc_le_eq)

lemma add_region_set:
  assumes ok: "region_ok rgn" and sz: "sz \<noteq> 0" "unat b + unat sz < 2 ^ 32"
    and cl: "clear (regs rgn) b sz"
  shows "\<exists>ret rgn'. lmb_add_region rgn b sz = Some (ret, rgn') \<and> region_ok rgn'
    \<and> unat (cnt rgn') \<le> (if table_ok (regs rgn) then unat (cnt rgn) + 1 else 1)
    \<and> (if ret < 0 then rgn' = rgn \<and> cnt rgn = 8
       else region_set rgn' = region_set rgn \<union> block b sz \<and> table_ok (regs rgn'))"
  using ok
proof (cases rule: region_ok_cases)
  case dummy
  let ?r = "rgn\<lparr>region := (region rgn)[0 := \<lparr>base = b, psize = sz\<rparr>]\<rparr>"
  have "lmb_add_region rgn b sz = Some (0, ?r)"
    using dummy by (simp add: lmb_add_region_def get_def put_def)
  moreover have r: "regs ?r = [\<lparr>base = b, psize = sz\<rparr>]" by (simp add: regs_put dummy(4))
  ultimately show ?thesis
    using dummy sz
    by (simp add: region_ok_def MAX_LMB_REGIONS_def table_ok_def proper_def pend_def region_set_def
        region_bytes_def block_def)
next
  case table
  obtain ret rgn' xs' where r: "lmb_add_region rgn b sz = Some (ret, rgn')"
      "region_ok rgn'" "regs rgn' = xs'" "table_ok xs'" "holds rgn' xs'" "length xs' \<le> length (regs rgn) + 1"
      "if ret < 0 then rgn' = rgn \<and> length (regs rgn) = 8 else covered xs' = covered (regs rgn) \<union> block b sz"
    using add_region_ok [OF table(1-4) sz cl] region_ok_table by blast
  then show ?thesis
    using table(2,5) holds_length [of rgn' xs']
    by (auto simp: region_set_def covered_def word_unat_eq_iff split: if_splits)
qed

section \<open>Membership\<close>

lemma mem_bytes_of:
  assumes "proper p"
  shows "base p \<le> a \<and> a \<le> base p + psize p - 1 \<longleftrightarrow> unat a \<in> region_bytes p"
proof -
  have "unat (base p + psize p) = pend p" using assms by (simp add: proper_def pend_def unat_add_u32)
  moreover have "1 \<le> pend p" using assms by (simp add: proper_def pend_def unat_gt_0 Suc_le_eq)
  ultimately have "unat (base p + psize p - 1) = pend p - 1"
    by (simp add: unat_sub word_le_nat_alt)
  with \<open>1 \<le> pend p\<close> show ?thesis by (auto simp: word_le_nat_alt region_bytes_def)
qed

lemma reserved_loop_eq:
  assumes h: "holds rgn xs" and t: "table_ok xs"
  shows "reserved_loop rgn a i = Some (if unat a \<in> covered (drop i xs) then 1 else 0)"
proof (induction "length xs - i" arbitrary: i)
  case 0
  then show ?case using holds_length [OF h] by (subst reserved_loop.simps) simp
next
  case (Suc n)
  then have i: "i < length xs" by simp
  have "covered (drop i xs) = region_bytes (xs ! i) \<union> covered (drop (i + 1) xs)"
    using Cons_nth_drop_Suc [OF i] by (metis Suc_eq_plus1 covered_simps(2))
  moreover have "proper (xs ! i)" using t i by (simp add: table_ok_def)
  moreover have "reserved_loop rgn a (i + 1) = Some (if unat a \<in> covered (drop (i + 1) xs) then 1 else 0)"
    using Suc by (intro Suc(1)) simp
  ultimately show ?case
    using i holds_length [OF h] mem_bytes_of [of "xs ! i" a]
    by (subst reserved_loop.simps) (simp add: holds_get [OF h i])
qed

lemma lmb_is_reserved_eq:
  "region_ok (reserved l) \<Longrightarrow> table_ok (regs (reserved l))
   \<Longrightarrow> lmb_is_reserved l a = Some (if unat a \<in> region_set (reserved l) then 1 else 0)"
  by (erule region_ok_cases)
    (auto simp: lmb_is_reserved_def reserved_loop_eq region_set_def covered_def table_ok_def proper_def)

section \<open>Allocation finds the highest free block\<close>

lemma unat_align_down:
  assumes "k < 32"
  shows "unat (lmb_align_down a (2 ^ k)) = unat a div 2 ^ k * 2 ^ k"
proof -
  have "lmb_align_down a (2 ^ k) = push_bit k (drop_bit k a)"
    unfolding lmb_align_down_def mask_eq_exp_minus_1 [symmetric] by (rule and_not_mask)
  then have "unat (lmb_align_down a (2 ^ k)) = take_bit 32 (push_bit k (drop_bit k (unat a)))"
    by (simp only: unsigned_push_bit_eq unat_drop_bit_eq) simp
  moreover have "unat a div 2 ^ k * 2 ^ k < 2 ^ 32"
    by (rule le_less_trans [OF div_times_less_eq_dividend unat_u32_less])
  ultimately show ?thesis
    by (simp only: push_bit_eq_mult drop_bit_eq_div take_bit_nat_eq_self)
qed

lemma unat_align_up:
  assumes "k < 32" "unat a + 2 ^ k \<le> 2 ^ 32"
  shows "unat (lmb_align_up a (2 ^ k)) = (unat a + 2 ^ k - 1) div 2 ^ k * 2 ^ k"
proof -
  have "unat (2 ^ k - 1 :: u32) = 2 ^ k - 1"
  proof -
    have "(2 ^ k :: nat) \<le> 2 ^ 32" using assms(1) by (intro power_increasing) auto
    moreover have "(2 ^ k - 1 :: u32) = of_nat (2 ^ k - 1)" by (simp add: of_nat_diff)
    ultimately show ?thesis by (simp only:) (rule unat_of_nat_u32, simp)
  qed
  then have "unat (a + (2 ^ k - 1)) = unat a + (2 ^ k - 1)"
    using assms(2) by (simp add: unat_word_ariths)
  moreover have "lmb_align_up a (2 ^ k) = lmb_align_down (a + (2 ^ k - 1)) (2 ^ k)"
    by (simp add: lmb_align_up_def lmb_align_down_def)
  ultimately show ?thesis using assms(1) by (simp add: unat_align_down)
qed

text \<open>The greatest multiple of an alignment that is not above a limit.\<close>

lemma aligned_le_iff: "0 < (d::nat) \<Longrightarrow> d dvd c \<Longrightarrow> c \<le> a \<longleftrightarrow> c \<le> a div d * d"
  by (metis div_le_mono dvd_div_mult_self mult_le_mono1 order.trans div_times_less_eq_dividend)

lemma overlaps_iff:
  assumes "proper p \<or> p = \<lparr>base = 0, psize = 0\<rparr>" "sz \<noteq> 0" "unat b + unat sz < 2 ^ 32"
  shows "lmb_addrs_overlap b sz (base p) (psize p) \<longleftrightarrow> region_bytes p \<inter> block b sz \<noteq> {}"
  using assms(1)
proof
  assume p: "proper p"
  then have "unat (base p + psize p) = pend p" "psize p \<noteq> 0"
    by (simp_all add: proper_def pend_def unat_add_u32)
  moreover have "0 < unat (psize p)" "0 < unat sz" using p assms(2) by (simp_all add: proper_def unat_gt_0)
  moreover have "region_bytes p \<inter> block b sz \<noteq> {} \<longleftrightarrow> max (unat (base p)) (unat b) < min (pend p) (unat b + unat sz)"
    by (auto simp add: region_bytes_def block_def)
  ultimately show ?thesis
    using assms(3) by (auto simp: lmb_addrs_overlap_def word_less_nat_alt unat_add_u32 pend_def)
next
  assume "p = \<lparr>base = 0, psize = 0\<rparr>"
  then show ?thesis by (simp add: lmb_addrs_overlap_def region_bytes_def pend_def)
qed

lemma overlaps_region_cases:
  assumes ok: "region_ok rgn" and sz: "sz \<noteq> 0" "unat b + unat sz < 2 ^ 32"
  shows "lmb_overlaps_region rgn b sz = Some (- 1) \<and> region_set rgn \<inter> block b sz = {}
    \<or> (\<exists>j p. lmb_overlaps_region rgn b sz = Some (int j) \<and> get rgn j = Some p \<and> p \<in> set (regs rgn)
        \<and> proper p \<and> region_bytes p \<inter> block b sz \<noteq> {})"
proof -
  let ?xs = "regs rgn"
  have xs: "length (region rgn) = 9" "unat (cnt rgn) \<le> 8" "unat (cnt rgn) = length ?xs"
      "\<forall>p \<in> set ?xs. proper p \<or> p = \<lparr>base = 0, psize = 0\<rparr>"
    using ok by (cases rule: region_ok_cases; auto simp: table_ok_def holds_def)+
  have "overlaps_loop rgn b sz i = Some (length ?xs) \<and> (\<forall>p \<in> set (drop i ?xs). region_bytes p \<inter> block b sz = {})
    \<or> (\<exists>j < length ?xs. overlaps_loop rgn b sz i = Some j \<and> get rgn j = Some (?xs ! j)
        \<and> region_bytes (?xs ! j) \<inter> block b sz \<noteq> {})" if "i \<le> length ?xs" for i
    using that
  proof (induction "length ?xs - i" arbitrary: i)
    case 0
    then show ?case using xs by (subst overlaps_loop.simps) simp
  next
    case (Suc n)
    then have i: "i < length ?xs" by simp
    let ?p = "?xs ! i"
    have g: "get rgn i = Some ?p" using xs i by (simp add: get_regs)
    have o: "lmb_addrs_overlap b sz (base ?p) (psize ?p) \<longleftrightarrow> region_bytes ?p \<inter> block b sz \<noteq> {}"
      using xs(4) i sz by (intro overlaps_iff) auto
    have e: "overlaps_loop rgn b sz i = (if region_bytes ?p \<inter> block b sz \<noteq> {} then Some i
        else overlaps_loop rgn b sz (i + 1))"
      using i xs(3) by (subst overlaps_loop.simps) (simp add: g o)
    have "set (drop i ?xs) = insert ?p (set (drop (i + 1) ?xs))"
      using i by (simp add: Cons_nth_drop_Suc [symmetric])
    then show ?case
      using Suc(1) [of "i + 1"] Suc(2) i e g by (cases "region_bytes ?p \<inter> block b sz = {}") auto
  qed
  from this [of 0] consider "overlaps_loop rgn b sz 0 = Some (length ?xs)" "region_set rgn \<inter> block b sz = {}"
    | j where "j < length ?xs" "overlaps_loop rgn b sz 0 = Some j" "get rgn j = Some (?xs ! j)"
      "region_bytes (?xs ! j) \<inter> block b sz \<noteq> {}" by (auto simp: region_set_def)
  then show ?thesis
  proof cases
    case 1
    then show ?thesis using xs(3) by (simp add: lmb_overlaps_region_def)
  next
    case 2
    have "region_bytes \<lparr>base = 0, psize = 0\<rparr> = {}" by (simp add: region_bytes_def pend_def)
    then have "proper (?xs ! j)" using xs(4) 2 by (metis inf_bot_left nth_mem)
    then show ?thesis using 2 xs(3) by (auto simp: lmb_overlaps_region_def)
  qed
qed

text \<open>\<open>cand l sz k max_addr p c\<close>: the block at \<open>c\<close> is aligned, inside the memory region \<open>p\<close>, below the
  limit, and nothing in it is reserved.\<close>

definition cand :: "lmb \<Rightarrow> u32 \<Rightarrow> nat \<Rightarrow> u32 \<Rightarrow> lmb_property \<Rightarrow> u32 \<Rightarrow> bool" where
  "cand l sz k max_addr p c \<longleftrightarrow> c \<noteq> 0 \<and> 2 ^ k dvd unat c \<and> unat (base p) \<le> unat c
     \<and> unat c + unat sz \<le> pend p \<and> (max_addr \<noteq> 0 \<longrightarrow> unat c + unat sz \<le> unat max_addr)
     \<and> region_set (reserved l) \<inter> block c sz = {}"

text \<open>The size is rounded up when it is reserved.  The rounded block can be added to the table when
  the size is a multiple of the alignment, or when all reserved regions begin at multiples.\<close>

definition roundable :: "lmb \<Rightarrow> u32 \<Rightarrow> nat \<Rightarrow> lmb_property list \<Rightarrow> bool" where
  "roundable l sz k ms \<longleftrightarrow> 2 ^ k dvd unat sz
     \<or> (\<forall>q \<in> set (regs (reserved l)). 2 ^ k dvd unat (base q)) \<and> (\<forall>p \<in> set ms. pend p + 2 ^ k \<le> 2 ^ 32)"

lemma dvd_room: "(d::nat) dvd n \<Longrightarrow> d dvd m \<Longrightarrow> n < m \<Longrightarrow> n + d \<le> m"
  by (metis dvd_diff_nat dvd_imp_le le_add_diff_inverse less_imp_le nat_add_left_cancel_le zero_less_diff)

lemma round_up:
  assumes "0 < (d::nat)"
  shows "n \<le> (n + d - 1) div d * d \<and> (n + d - 1) div d * d < n + d"
  using div_mult_mod_eq [of "n + d - 1" d] mod_less_divisor [OF assms, of "n + d - 1"] assms
  by linarith

lemma round_up_dvd: "0 < (d::nat) \<Longrightarrow> d dvd n \<Longrightarrow> (n + d - 1) div d * d = n"
  using round_up [of d n] dvd_room [of d n "(n + d - 1) div d * d"] by fastforce

lemma rounded_block:
  assumes k: "k < 32" and r: "roundable l sz k ms" and p: "p \<in> set ms" "pend p < 2 ^ 32"
    and c: "2 ^ k dvd unat b" "unat b + unat sz \<le> pend p"
    and free: "region_set (reserved l) \<inter> block b sz = {}" and sz: "sz \<noteq> 0"
  shows "lmb_align_up sz (2 ^ k) \<noteq> 0 \<and> unat b + unat (lmb_align_up sz (2 ^ k)) < 2 ^ 32
    \<and> clear (regs (reserved l)) b (lmb_align_up sz (2 ^ k))"
proof -
  let ?d = "2 ^ k :: nat" and ?s = "lmb_align_up sz (2 ^ k)"
  have d: "0 < ?d" "?d dvd 2 ^ 32" using k by (simp, intro le_imp_power_dvd) simp
  have s0: "0 < unat sz" using sz by (simp add: unat_gt_0)
  have disj: "region_bytes q \<inter> block b sz = {}" if "q \<in> set (regs (reserved l))" for q
    using free that by (auto simp: region_set_def)
  show ?thesis
  proof (cases "?d dvd unat sz")
    case True
    have "unat sz + ?d \<le> 2 ^ 32" by (rule dvd_room [OF True d(2) unat_u32_less])
    then have "unat ?s = (unat sz + ?d - 1) div ?d * ?d" using k by (simp add: unat_align_up)
    also have "\<dots> = unat sz" by (rule round_up_dvd [OF d(1) True])
    finally have "?s = sz" by (simp add: word_unat_eq_iff)
    then show ?thesis using sz c(2) p(2) disj by (auto simp: clear_def)
  next
    case False
    then have q: "\<forall>q \<in> set (regs (reserved l)). ?d dvd unat (base q)" "pend p + ?d \<le> 2 ^ 32"
      using r p by (auto simp: roundable_def)
    then have u: "unat ?s = (unat sz + ?d - 1) div ?d * ?d" using k c(2) by (simp add: unat_align_up)
    have up: "unat sz \<le> unat ?s" "unat ?s < unat sz + ?d" "?d dvd unat ?s"
      using round_up [OF d(1), of "unat sz"] by (simp_all add: u)
    have "region_bytes q \<inter> block b ?s = {}" if "q \<in> set (regs (reserved l))" for q
    proof (rule ccontr)
      assume "region_bytes q \<inter> block b ?s \<noteq> {}"
      then obtain x where "x \<in> region_bytes q" "x \<in> block b ?s" by blast
      then have x: "unat (base q) \<le> x" "x < pend q" "unat b \<le> x" "x < unat b + unat ?s"
        by (simp_all add: region_bytes_def block_def)
      have "unat b + unat sz \<le> unat (base q)"
      proof (rule ccontr)
        assume "\<not> unat b + unat sz \<le> unat (base q)"
        then have "max (unat (base q)) (unat b) \<in> region_bytes q \<inter> block b sz"
          using x s0 by (auto simp: region_bytes_def block_def)
        then show False using disj [OF that] by blast
      qed
      moreover have "unat (base q) + ?d \<le> unat b + unat ?s"
        using q(1) that c(1) up(3) x by (intro dvd_room) (auto intro: dvd_add)
      ultimately show False using up(2) by simp
    qed
    then show ?thesis using up(1,2) s0 c(2) q(2)
      by (auto simp: clear_def unat_eq_0 [symmetric] simp del: unat_eq_zero)
  qed
qed

lemma next_candidate:
  assumes k: "k < 32" and q: "proper q" "q \<in> set (regs (reserved l))" "region_bytes q \<inter> block b sz \<noteq> {}"
    and c: "cand l sz k m p c" "unat c \<le> unat b" and sz: "sz \<noteq> 0"
  shows "\<not> base q < sz \<and> unat c \<le> unat (lmb_align_down (base q - sz) (2 ^ k))"
proof -
  have s0: "0 < unat sz" using sz by (simp add: unat_gt_0)
  obtain x where "x \<in> region_bytes q" "x \<in> block b sz" using q(3) by blast
  then have x: "unat (base q) \<le> x" "x < pend q" "unat b \<le> x" "x < unat b + unat sz"
    by (simp_all add: region_bytes_def block_def)
  have "region_bytes q \<inter> block c sz = {}" using c(1) q(2) by (auto simp: cand_def region_set_def)
  then have le: "unat c + unat sz \<le> unat (base q)"
  proof (rule contrapos_pp)
    assume "\<not> unat c + unat sz \<le> unat (base q)"
    then have "max (unat (base q)) (unat c) \<in> region_bytes q \<inter> block c sz"
      using x c(2) s0 by (auto simp: region_bytes_def block_def)
    then show "region_bytes q \<inter> block c sz \<noteq> {}" by blast
  qed
  then have "unat (base q - sz) = unat (base q) - unat sz" "sz \<le> base q"
    by (simp_all add: unat_sub word_le_nat_alt)
  moreover have "2 ^ k dvd unat c" using c(1) by (simp add: cand_def)
  ultimately show ?thesis
    using le k aligned_le_iff [of "2 ^ k" "unat c" "unat (base q - sz)"]
    by (auto simp add: unat_align_down not_less)
qed

definition grabbed :: "lmb \<Rightarrow> u32 \<Rightarrow> nat \<Rightarrow> u32 \<Rightarrow> lmb_property \<Rightarrow> u32 \<Rightarrow> lmb \<Rightarrow> bool" where
  "grabbed l sz k m p a l' \<longleftrightarrow> cand l sz k m p a \<and> (\<forall>c. cand l sz k m p c \<longrightarrow> c \<le> a)
     \<and> memory l' = memory l \<and> region_ok (reserved l')
     \<and> region_set (reserved l') = region_set (reserved l) \<union> block a (lmb_align_up sz (2 ^ k))"

lemma alloc_loop_finds:
  assumes ok: "region_ok (reserved l)" "cnt (reserved l) \<noteq> 8" and sz: "sz \<noteq> 0" and k: "k < 32"
    and r: "roundable l sz k ms" and p: "p \<in> set ms" "pend p < 2 ^ 32"
    and b: "2 ^ k dvd unat b" "unat b + unat sz \<le> pend p" "m \<noteq> 0 \<longrightarrow> unat b + unat sz \<le> unat m"
    and top: "\<And>c. cand l sz k m p c \<Longrightarrow> unat c \<le> unat b"
  shows "alloc_loop l sz (2 ^ k) (base p) b = Some (Inr ()) \<and> (\<forall>c. \<not> cand l sz k m p c)
    \<or> (\<exists>a l'. alloc_loop l sz (2 ^ k) (base p) b = Some (Inl (a, l')) \<and> grabbed l sz k m p a l')"
  using b top
proof (induction "unat b" arbitrary: b rule: less_induct)
  case less
  show ?case
  proof (cases "b \<noteq> 0 \<and> base p \<le> b")
    case False
    then have "alloc_loop l sz (2 ^ k) (base p) b = Some (Inr ())" by (subst alloc_loop.simps) auto
    moreover have False if c: "cand l sz k m p c" for c
    proof -
      have "0 < unat c" "unat (base p) \<le> unat c" using c by (simp_all add: cand_def unat_gt_0)
      moreover have "unat c \<le> unat b" by (rule less.prems(4) [OF c])
      ultimately show False using False by (auto simp: word_le_nat_alt)
    qed
    ultimately show ?thesis by blast
  next
    case True
    have nw: "unat b + unat sz < 2 ^ 32" using less.prems(2) p(2) by simp
    consider (free) "lmb_overlaps_region (reserved l) b sz = Some (- 1)" "region_set (reserved l) \<inter> block b sz = {}"
      | (hit) j q where "lmb_overlaps_region (reserved l) b sz = Some (int j)" "get (reserved l) j = Some q"
        "q \<in> set (regs (reserved l))" "proper q" "region_bytes q \<inter> block b sz \<noteq> {}"
      using overlaps_region_cases [OF ok(1) sz nw] by blast
    then show ?thesis
    proof cases
      case free
      let ?s = "lmb_align_up sz (2 ^ k)"
      note rb = rounded_block [OF k r p less.prems(1,2) free(2) sz]
      obtain ret rgn' where a: "lmb_add_region (reserved l) b ?s = Some (ret, rgn')" "region_ok rgn'"
          "\<not> ret < 0" "region_set rgn' = region_set (reserved l) \<union> block b ?s"
        using add_region_set [OF ok(1), of ?s b] rb ok(2) by (auto split: if_splits)
      have "cand l sz k m p b" using True less.prems free(2) by (simp add: cand_def word_le_nat_alt)
      then have "grabbed l sz k m p b (l\<lparr>reserved := rgn'\<rparr>)"
        using a less.prems(4) by (simp add: grabbed_def word_le_nat_alt)
      moreover have "alloc_loop l sz (2 ^ k) (base p) b = Some (Inl (b, l\<lparr>reserved := rgn'\<rparr>))"
        using True free(1) a(1,3) by (subst alloc_loop.simps) simp
      ultimately show ?thesis by blast
    next
      case hit
      let ?b = "lmb_align_down (base q - sz) (2 ^ k)"
      note nc = next_candidate [OF k hit(4,3,5) _ less.prems(4) sz]
      show ?thesis
      proof (cases "base q < sz")
        case True
        then have "alloc_loop l sz (2 ^ k) (base p) b = Some (Inr ())"
          using \<open>b \<noteq> 0 \<and> base p \<le> b\<close> hit by (subst alloc_loop.simps) simp
        then show ?thesis using nc True by blast
      next
        case False
        then have e: "alloc_loop l sz (2 ^ k) (base p) b = alloc_loop l sz (2 ^ k) (base p) ?b"
          using \<open>b \<noteq> 0 \<and> base p \<le> b\<close> hit by (subst alloc_loop.simps) simp
        obtain x where "x \<in> region_bytes q" "x \<in> block b sz" using hit(5) by blast
        then have "unat (base q) < unat b + unat sz" by (simp add: region_bytes_def block_def)
        moreover have "unat ?b \<le> unat (base q - sz)"
          using align_down_le [of "base q - sz" "2 ^ k"] by (simp add: word_le_nat_alt)
        moreover have "unat (base q - sz) = unat (base q) - unat sz" "unat sz \<le> unat (base q)"
          using False by (auto simp: word_le_nat_alt not_less unat_sub)
        ultimately have "unat ?b < unat b" "unat ?b + unat sz \<le> unat b + unat sz" by linarith+
        then show ?thesis
          unfolding e using less.prems nc k
          by (intro less.hyps) (auto simp: unat_align_down)
      qed
    qed
  qed
qed

text \<open>The whole search, over the memory regions from the last to the first.\<close>

lemma alloc_regions_finds:
  assumes ok: "region_ok (reserved l)" "cnt (reserved l) \<noteq> 8" and sz: "sz \<noteq> 0" and k: "k < 32"
    and r: "roundable l sz k ms" and ms: "holds (memory l) ms" "table_ok ms"
    and m: "m = 0 \<or> sz \<le> m" and i: "i \<le> length ms"
  shows "alloc_regions l sz (2 ^ k) m i = Some (0, l) \<and> (\<forall>p \<in> set (take i ms). \<forall>c. \<not> cand l sz k m p c)
    \<or> (\<exists>a l' j. alloc_regions l sz (2 ^ k) m i = Some (a, l') \<and> j < i \<and> grabbed l sz k m (ms ! j) a l'
        \<and> (\<forall>p \<in> set (drop (j + 1) (take i ms)). \<forall>c. \<not> cand l sz k m p c))"
  using i
proof (induction i)
  case 0
  then show ?case by simp
next
  case (Suc i)
  let ?p = "ms ! i"
  have p: "?p \<in> set ms" "proper ?p" "get (memory l) i = Some ?p"
    using Suc.prems ms holds_get [OF ms(1)] by (auto simp: table_ok_def)
  have pe: "unat (base ?p + psize ?p) = pend ?p" "pend ?p < 2 ^ 32"
    using p(2) by (simp_all add: proper_def pend_def unat_add_u32)
  have t: "take (Suc i) ms = take i ms @ [?p]" using Suc.prems by (simp add: take_Suc_conv_app_nth)
  have skip: ?case if s: "alloc_regions l sz (2 ^ k) m (Suc i) = alloc_regions l sz (2 ^ k) m i"
      "\<forall>c. \<not> cand l sz k m ?p c"
  proof -
    have "set (drop (j + 1) (take (Suc i) ms)) = insert ?p (set (drop (j + 1) (take i ms)))" if "j < i" for j
      using that Suc.prems by (simp add: t)
    note d = this
    consider "alloc_regions l sz (2 ^ k) m i = Some (0, l)" "\<forall>p \<in> set (take i ms). \<forall>c. \<not> cand l sz k m p c"
      | a l' j where "alloc_regions l sz (2 ^ k) m i = Some (a, l')" "j < i" "grabbed l sz k m (ms ! j) a l'"
        "\<forall>p \<in> set (drop (j + 1) (take i ms)). \<forall>c. \<not> cand l sz k m p c"
      using Suc.IH [OF Suc_leD [OF Suc.prems]] by blast
    then show ?thesis
    proof cases
      case 1
      then show ?thesis using s by (simp add: t)
    next
      case 2
      then have "\<forall>p \<in> set (drop (j + 1) (take (Suc i) ms)). \<forall>c. \<not> cand l sz k m p c"
        unfolding d [OF 2(2)] using s(2) by simp
      then show ?thesis unfolding s(1) using 2(1-3) less_SucI by blast
    qed
  qed
  show ?case
  proof (cases "psize ?p < sz \<or> m \<noteq> 0 \<and> \<not> base ?p < m")
    case True
    then have "alloc_regions l sz (2 ^ k) m (Suc i) = alloc_regions l sz (2 ^ k) m i"
      using p(3) by (auto simp: LMB_ALLOC_ANYWHERE_def Let_def)
    moreover have "0 < unat sz" using sz by (simp add: unat_gt_0)
    then have "\<not> cand l sz k m ?p c" for c
      using True by (auto simp: cand_def pend_def word_less_nat_alt)
    ultimately show ?thesis by (intro skip) auto
  next
    case False
    let ?e = "if m = 0 then base ?p + psize ?p else min (base ?p + psize ?p) m"
    let ?b = "lmb_align_down (?e - sz) (2 ^ k)"
    have "sz \<le> base ?p + psize ?p" using False pe by (auto simp: word_le_nat_alt not_less pend_def)
    then have se: "sz \<le> ?e" using m by (auto simp: min_def)
    then have ue: "unat (?e - sz) = unat ?e - unat sz" "unat sz \<le> unat ?e"
      by (simp_all add: unat_sub word_le_nat_alt)
    have be: "unat ?e \<le> pend ?p" "m \<noteq> 0 \<Longrightarrow> unat ?e \<le> unat m"
      using pe by (auto simp: min_def word_le_nat_alt)
    have ub: "unat ?b = (unat ?e - unat sz) div 2 ^ k * 2 ^ k" using k ue(1) by (simp only: unat_align_down)
    then have "unat ?b \<le> unat ?e - unat sz" by simp
    have top: "unat c \<le> unat ?b" if "cand l sz k m ?p c" for c
    proof -
      have "unat c \<le> unat ?e - unat sz" "2 ^ k dvd unat c"
        using that pe by (auto simp: cand_def min_def)
      then show ?thesis unfolding ub by (subst aligned_le_iff [symmetric]) auto
    qed
    have e: "alloc_regions l sz (2 ^ k) m (Suc i) = do {
        res \<leftarrow> alloc_loop l sz (2 ^ k) (base ?p) ?b;
        case res of Inl r \<Rightarrow> Some r | Inr _ \<Rightarrow> alloc_regions l sz (2 ^ k) m i }"
      using False p(3) by (auto simp: LMB_ALLOC_ANYWHERE_def Let_def)
    have "unat ?b + unat sz \<le> unat ?e" using \<open>unat ?b \<le> unat ?e - unat sz\<close> ue(2) by linarith
    then have "2 ^ k dvd unat ?b" "unat ?b + unat sz \<le> pend ?p" "m \<noteq> 0 \<longrightarrow> unat ?b + unat sz \<le> unat m"
      using be ub order.trans by (simp only: dvd_triv_right, blast+)
    from alloc_loop_finds [OF ok sz k r p(1) pe(2) this top]
    consider "alloc_loop l sz (2 ^ k) (base ?p) ?b = Some (Inr ())" "\<forall>c. \<not> cand l sz k m ?p c"
      | a l' where "alloc_loop l sz (2 ^ k) (base ?p) ?b = Some (Inl (a, l'))" "grabbed l sz k m ?p a l'"
      by blast
    then show ?thesis
    proof cases
      case 1
      then have "alloc_regions l sz (2 ^ k) m (Suc i) = alloc_regions l sz (2 ^ k) m i"
        unfolding e by simp
      then show ?thesis using 1(2) by (rule skip)
    next
      case 2
      then have "alloc_regions l sz (2 ^ k) m (Suc i) = Some (a, l')" unfolding e by simp
      then show ?thesis using 2(2)
        by (intro disjI2 exI [of _ a] exI [of _ l'] exI [of _ i]) (simp add: t)
    qed
  qed
qed

lemma cand_ordered:
  assumes "cand l sz k m p c" "cand l sz k m' q d" "pend p \<le> unat (base q)" "sz \<noteq> 0"
  shows "c \<le> d"
  using assms by (simp add: cand_def word_le_nat_alt)

text \<open>C15: allocation returns the highest address that is aligned, inside memory, below the limit and
  free, and reserves it; it returns 0, and changes nothing, exactly when there is none.\<close>

theorem lmb_alloc_highest:
  assumes ok: "region_ok (reserved l)" "cnt (reserved l) \<noteq> 8" "region_ok (memory l)"
    and srt: "sorted_wrt (\<lambda>p q. pend p \<le> unat (base q)) (regs (memory l))"
    and sz: "sz \<noteq> 0" and k: "k < 32" and m: "m = 0 \<or> sz \<le> m"
    and r: "roundable l sz k (regs (memory l))"
  shows "\<exists>a l'. lmb_alloc_base l sz (2 ^ k) m = Some (a, l')
    \<and> (\<forall>p c. p \<in> set (regs (memory l)) \<and> cand l sz k m p c \<longrightarrow> c \<le> a)
    \<and> (if a = 0 then l' = l
       else (\<exists>p \<in> set (regs (memory l)). cand l sz k m p a) \<and> memory l' = memory l
         \<and> region_ok (reserved l')
         \<and> region_set (reserved l') = region_set (reserved l) \<union> block a (lmb_align_up sz (2 ^ k)))"
  using ok(3)
proof (cases rule: region_ok_cases)
  case dummy
  have "get (memory l) 0 = Some \<lparr>base = 0, psize = 0\<rparr>" using dummy by (simp add: get_def)
  moreover have "0 < sz" "0 < unat sz" using sz by (simp_all add: word_greater_zero_iff unat_gt_0)
  ultimately have "lmb_alloc_base l sz (2 ^ k) m = Some (0, l)"
    using dummy(1) by (simp add: lmb_alloc_base_def alloc_base_def)
  then show ?thesis using dummy(4) \<open>0 < unat sz\<close> by (simp add: cand_def pend_def)
next
  case table
  let ?ms = "regs (memory l)"
  have e: "lmb_alloc_base l sz (2 ^ k) m = alloc_regions l sz (2 ^ k) m (length ?ms)"
    using table(5) by (simp add: lmb_alloc_base_def alloc_base_def)
  from alloc_regions_finds [OF ok(1,2) sz k r table(1,2) m order_refl, folded e]
  consider "lmb_alloc_base l sz (2 ^ k) m = Some (0, l)" "\<forall>p \<in> set ?ms. \<forall>c. \<not> cand l sz k m p c"
    | a l' j where "lmb_alloc_base l sz (2 ^ k) m = Some (a, l')" "j < length ?ms"
      "grabbed l sz k m (?ms ! j) a l'" "\<forall>p \<in> set (drop (j + 1) ?ms). \<forall>c. \<not> cand l sz k m p c"
    by auto
  then show ?thesis
  proof cases
    case 1
    then show ?thesis by auto
  next
    case 2
    have "c \<le> a" if "p \<in> set ?ms" "cand l sz k m p c" for p c
    proof -
      obtain i where i: "i < length ?ms" "p = ?ms ! i" using \<open>p \<in> set ?ms\<close> by (auto simp: in_set_conv_nth)
      have "i \<le> j"
      proof (rule ccontr)
        assume "\<not> i \<le> j"
        then have "p \<in> set (drop (j + 1) ?ms)"
          using i by (auto simp: in_set_conv_nth intro!: exI [of _ "i - (j + 1)"])
        then show False using 2(4) that(2) by blast
      qed
      then consider "i = j" | "pend p \<le> unat (base (?ms ! j))"
        using srt i 2(2) by (auto simp: sorted_wrt_iff_nth_less le_less)
      then show ?thesis
        using 2(3) that(2) i sz by cases (auto simp: grabbed_def intro: cand_ordered)
    qed
    moreover have "a \<noteq> 0" using 2(3) by (simp add: grabbed_def cand_def)
    ultimately show ?thesis using 2 by (auto simp: grabbed_def)
  qed
qed

section \<open>Sequences of reservations\<close>

primrec reserve_all :: "lmb \<Rightarrow> (u32 \<times> u32) list \<Rightarrow> lmb option" where
  "reserve_all l [] = Some l"
| "reserve_all l (x # bs) = do {
     (ret, l) \<leftarrow> lmb_reserve l (fst x) (snd x);
     if ret < 0 then None else reserve_all l bs
   }"

definition blocks :: "(u32 \<times> u32) list \<Rightarrow> nat set" where
  "blocks bs = (\<Union>x \<in> set bs. block (fst x) (snd x))"

lemma reserve_all_table:
  assumes "region_ok (reserved l)" "table_ok (regs (reserved l))" "unat (cnt (reserved l)) + length bs \<le> 8"
    "\<forall>x \<in> set bs. snd x \<noteq> 0 \<and> unat (fst x) + unat (snd x) < 2 ^ 32
      \<and> region_set (reserved l) \<inter> block (fst x) (snd x) = {}"
    "sorted_wrt (\<lambda>x y. block (fst x) (snd x) \<inter> block (fst y) (snd y) = {}) bs"
  shows "\<exists>l'. reserve_all l bs = Some l' \<and> region_ok (reserved l') \<and> table_ok (regs (reserved l'))
    \<and> region_set (reserved l') = region_set (reserved l) \<union> blocks bs"
  using assms
proof (induction bs arbitrary: l)
  case Nil
  then show ?case by (simp add: blocks_def)
next
  case (Cons x bs)
  let ?rgn = "reserved l"
  have "clear (regs ?rgn) (fst x) (snd x)"
    using Cons.prems(4) by (auto simp: clear_def region_set_def)
  then obtain ret rgn' where r: "lmb_add_region ?rgn (fst x) (snd x) = Some (ret, rgn')" "region_ok rgn'"
      "unat (cnt rgn') \<le> unat (cnt ?rgn) + 1" "\<not> ret < 0" "table_ok (regs rgn')"
      "region_set rgn' = region_set ?rgn \<union> block (fst x) (snd x)"
    using add_region_set [OF Cons.prems(1), of "snd x" "fst x"] Cons.prems(2,3,4)
    by (auto split: if_splits)
  let ?l = "l\<lparr>reserved := rgn'\<rparr>"
  have "\<exists>l'. reserve_all ?l bs = Some l' \<and> region_ok (reserved l') \<and> table_ok (regs (reserved l'))
      \<and> region_set (reserved l') = region_set (reserved ?l) \<union> blocks bs"
    using r Cons.prems(3-5) by (intro Cons.IH) auto
  then show ?case using r(1,4,6) by (auto simp: lmb_reserve_def blocks_def)
qed

text \<open>C16: after any sequence of at most eight disjoint reservations, however they are coalesced in the
  table, exactly the bytes of the blocks are reserved.\<close>

theorem lmb_reserve_all:
  assumes "length (region (reserved l)) = 9" "bs \<noteq> []" "length bs \<le> 8"
    "\<forall>x \<in> set bs. snd x \<noteq> 0 \<and> unat (fst x) + unat (snd x) < 2 ^ 32"
    "sorted_wrt (\<lambda>x y. block (fst x) (snd x) \<inter> block (fst y) (snd y) = {}) bs"
  shows "\<exists>l'. reserve_all (lmb_init l) bs = Some l' \<and> region_ok (reserved l')
    \<and> (\<forall>a. lmb_is_reserved l' a = Some (if unat a \<in> blocks bs then 1 else 0))"
proof -
  obtain x cs where bs: "bs = x # cs" using assms(2) by (cases bs) auto
  let ?rgn = "reserved (lmb_init l)"
  have init: "region_ok ?rgn" "regs ?rgn = [\<lparr>base = 0, psize = 0\<rparr>]" "\<not> table_ok (regs ?rgn)"
    using assms(1)
    by (auto simp: lmb_init_def region_ok_def regs_def MAX_LMB_REGIONS_def table_ok_def proper_def
        take_Suc_conv_app_nth Let_def neq_Nil_conv simp flip: length_greater_0_conv
        split: list.splits)
  obtain ret rgn' where r: "lmb_add_region ?rgn (fst x) (snd x) = Some (ret, rgn')" "region_ok rgn'"
      "unat (cnt rgn') \<le> 1" "\<not> ret < 0" "table_ok (regs rgn')"
      "region_set rgn' = block (fst x) (snd x)"
    using add_region_set [OF init(1), of "snd x" "fst x"] assms(4) init(2,3)
    by (auto simp: bs clear_def region_bytes_def pend_def region_set_def lmb_init_def Let_def split: if_splits)
  let ?l = "(lmb_init l)\<lparr>reserved := rgn'\<rparr>"
  obtain l' where "reserve_all ?l cs = Some l'" "region_ok (reserved l')" "table_ok (regs (reserved l'))"
      "region_set (reserved l') = region_set rgn' \<union> blocks cs"
    using reserve_all_table [of ?l cs] r assms(3-5) by (auto simp: bs)
  then show ?thesis
    using r(1,4,6) by (auto simp: bs lmb_reserve_def blocks_def lmb_is_reserved_eq)
qed

text \<open>Directly after \<^verbatim>\<open>lmb_init\<close> the dummy entry makes every address look reserved, because the end
  of an empty region is computed as \<open>0 - 1\<close>.\<close>

lemma lmb_is_reserved_init:
  assumes "length (region (reserved l)) = 9"
  shows "lmb_is_reserved (lmb_init l) a = Some 1"
proof -
  have "get (reserved (lmb_init l)) 0 = Some \<lparr>base = 0, psize = 0\<rparr>" "cnt (reserved (lmb_init l)) = 1"
    using assms by (simp_all add: lmb_init_def get_def Let_def)
  then show ?thesis
    by (simp add: lmb_is_reserved_def) (subst reserved_loop.simps, simp add: Let_def)
qed

section \<open>Releasing takes the block out of the set\<close>

definition contains :: "lmb_property \<Rightarrow> u32 \<Rightarrow> u32 \<Rightarrow> bool" where
  "contains p b sz \<longleftrightarrow> unat (base p) \<le> unat b \<and> unat b + unat sz \<le> pend p"

lemma free_scan_finds:
  assumes h: "holds rgn (ys @ p # zs)" and t: "table_ok (ys @ p # zs)"
    and srt: "sorted_wrt (\<lambda>p q. pend p \<le> unat (base q)) (ys @ p # zs)"
    and c: "contains p b sz" and sz: "sz \<noteq> 0" and i: "i \<le> length ys"
  shows "free_scan rgn b (b + sz) i u v = Some (length ys, base p, base p + psize p)"
  using i
proof (induction "length ys - i" arbitrary: i u v)
  have nw: "unat b + unat sz < 2 ^ 32" "unat (b + sz) = unat b + unat sz"
    using c t by (auto simp: contains_def table_ok_def proper_def unat_add_u32)
  {
    case 0
    then have i: "i = length ys" by simp
    have "get rgn i = Some p" using holds_get [OF h, of i] i by simp
    moreover have "unat (base p + psize p) = pend p"
      using t by (simp add: table_ok_def proper_def pend_def unat_add_u32)
    ultimately show ?case
      using holds_length [OF h] i c nw by (subst free_scan.simps) (simp add: contains_def word_le_nat_alt Let_def)
  next
    case (Suc n)
    then have i: "i < length ys" by simp
    let ?q = "ys ! i"
    have q: "get rgn i = Some ?q" using holds_get [OF h, of i] i by (simp add: nth_append)
    have "proper ?q" "pend ?q \<le> unat (base p)" using t srt i by (auto simp: table_ok_def sorted_wrt_append)
    then have "\<not> (base ?q \<le> b \<and> b + sz \<le> base ?q + psize ?q)"
      using c nw sz by (simp add: contains_def proper_def pend_def unat_add_u32 word_le_nat_alt unat_gt_0 [symmetric] del: unat_gt_0)
    then show ?case
      using Suc.hyps(1) [of "i + 1"] Suc.hyps(2) i holds_length [OF h] q
      by (subst free_scan.simps) (simp add: Let_def)
  }
qed

lemma covered_others:
  assumes srt: "sorted_wrt (\<lambda>p q. pend p \<le> unat (base q)) (ys @ p # zs)" and "x \<in> region_bytes p"
    and t: "table_ok (ys @ p # zs)"
  shows "x \<notin> covered ys \<and> x \<notin> covered zs"
  using assms by (fastforce simp: sorted_wrt_append covered_def region_bytes_def)

text \<open>Releasing a block of a region leaves the rest reserved; when a region must be split and the
  table is full, the part behind the block is lost as well.\<close>

lemma lmb_free_set:
  assumes ok: "region_ok (reserved l)" and srt: "sorted_wrt (\<lambda>p q. pend p \<le> unat (base q)) (regs (reserved l))"
    and p: "p \<in> set (regs (reserved l))" "contains p b sz" and sz: "sz \<noteq> 0"
    and last: "regs (reserved l) \<noteq> [\<lparr>base = b, psize = sz\<rparr>]"
  shows "\<exists>ret l'. lmb_free l b sz = Some (ret, l') \<and> memory l' = memory l \<and> region_ok (reserved l')
    \<and> region_set (reserved l') = region_set (reserved l)
        - (if ret < 0 then {unat b..<pend p} else block b sz)
    \<and> (ret < 0 \<longrightarrow> cnt (reserved l) = 8)"
  using ok
proof (cases rule: region_ok_cases)
  case dummy
  have "0 < unat sz" using sz by (simp add: unat_gt_0)
  then show ?thesis using p dummy(4) by (simp add: contains_def pend_def)
next
  case table
  let ?rgn = "reserved l"
  obtain ys zs where xs: "regs ?rgn = ys @ p # zs" using p(1) by (meson split_list)
  note h = table(1) [unfolded xs] and t = table(2) [unfolded xs] and s = srt [unfolded xs]
  note scan = free_scan_finds [OF h t s p(2) sz, of 0 0 0, simplified]
  have pr: "proper p" "unat (base p + psize p) = pend p" "pend p < 2 ^ 32"
    using t by (simp_all add: table_ok_def proper_def pend_def unat_add_u32)
  have nw: "unat b + unat sz < 2 ^ 32" "unat (b + sz) = unat b + unat sz" "0 < unat sz"
    using p(2) pr(3) sz by (auto simp: contains_def unat_add_u32 unat_gt_0)
  have i: "length ys \<noteq> unat (cnt ?rgn)" "get ?rgn (length ys) = Some p"
    using holds_length [OF h] holds_get [OF h, of "length ys"] by auto
  have cov: "region_set rgn' = covered xs" if "holds rgn' xs" for rgn' xs
    using that by (simp add: holds_def region_set_def covered_def)
  have upd: "\<exists>rgn'. put ?rgn (length ys) p' = Some rgn' \<and> region_ok rgn' \<and> holds rgn' (ys @ p' # zs)
      \<and> table_ok (ys @ p' # zs)"
    if "proper p'" "base p \<le> base p'" "pend p' \<le> pend p" for p'
  proof -
    have "table_ok (ys @ p' # zs)"
      using t s that by (auto simp: table_ok_iff sorted_wrt_append pend_def word_le_nat_alt intro: order.trans)
    moreover have "holds (?rgn\<lparr>region := (region ?rgn)[length ys := p']\<rparr>) (ys @ p' # zs)"
      using holds_put(2) [OF h, of "length ys" p'] by simp
    ultimately show ?thesis
      using holds_put(1) [OF h, of "length ys" p'] region_ok_table table(4) by (simp add: xs)
  qed
  have other: "x \<notin> covered ys \<and> x \<notin> covered zs" if "x \<in> region_bytes p" for x
    by (rule covered_others [OF s that t])
  have minus: "covered (ys @ p' # zs) = region_set ?rgn - S" if "region_bytes p' = region_bytes p - S" "S \<subseteq> region_bytes p" for p' S
    using that other by (auto simp: cov [OF h])
  have sub: "block b sz \<subseteq> region_bytes p" using p(2) by (auto simp: contains_def block_def region_bytes_def)
  have pz: "unat (psize p) = pend p - unat (base p)" by (simp add: pend_def)
  consider (whole) "base p = b" "base p + psize p = b + sz" | (front) "base p = b" "base p + psize p \<noteq> b + sz"
    | (rear) "base p \<noteq> b" "base p + psize p = b + sz" | (split) "base p \<noteq> b" "base p + psize p \<noteq> b + sz" by blast
  then show ?thesis
  proof cases
    case whole
    then have pe: "p = \<lparr>base = b, psize = sz\<rparr>" by (cases p) simp
    then have ne: "ys @ zs \<noteq> []" using last unfolding xs by auto
    obtain rgn' where r: "lmb_remove_region ?rgn (length ys) = Some rgn'" "holds rgn' (ys @ zs)"
      using remove_region [of ?rgn "length ys"] h holds_length [OF h] by (auto simp: holds_def)
    have "table_ok (ys @ zs)" using t by (auto simp: table_ok_def sorted_append)
    then have "region_ok rgn'" using r(2) ne table(4) region_ok_table by (auto simp: xs)
    moreover have "region_set rgn' = region_set ?rgn - block b sz"
      using other by (auto simp: cov [OF h] cov [OF r(2)] pe region_bytes_def pend_def block_def)
    ultimately show ?thesis using whole scan i r(1) by (simp add: lmb_free_def Let_def)
  next
    case front
    let ?p = "p\<lparr>base := b + sz, psize := psize p - sz\<rparr>"
    have "sz \<le> psize p" using p(2) front(1) by (simp add: contains_def pend_def word_le_nat_alt)
    then have "unat (psize p - sz) = unat (psize p) - unat sz" "psize p \<noteq> sz"
      using front by (auto simp: unat_sub word_le_nat_alt)
    then have b': "region_bytes ?p = region_bytes p - block b sz" "pend ?p = pend p" "proper ?p"
      using front(1) nw pr p(2) \<open>sz \<le> psize p\<close>
      by (auto simp: region_bytes_def block_def pend_def contains_def proper_def word_le_nat_alt)
    obtain rgn' where "put ?rgn (length ys) ?p = Some rgn'" "region_ok rgn'" "holds rgn' (ys @ ?p # zs)"
      using upd [OF b'(3)] b'(2) front(1) nw by (auto simp: word_le_nat_alt)
    then show ?thesis using front scan i minus [OF b'(1) sub] cov by (simp add: lmb_free_def Let_def)
  next
    case rear
    let ?p = "p\<lparr>psize := psize p - sz\<rparr>"
    have e: "pend p = unat b + unat sz" using rear(2) pr(2) nw(2) by simp
    then have le: "unat (base p) < unat b"
      using rear(1) p(2) by (auto simp: contains_def word_unat_eq_iff le_less)
    then have "unat (psize p - sz) = unat (psize p) - unat sz" "unat sz \<le> unat (psize p)"
      using e by (auto simp: unat_sub word_le_nat_alt pend_def)
    then have b': "region_bytes ?p = region_bytes p - block b sz" "pend ?p = unat b" "proper ?p"
      using e le nw pr by (auto simp: region_bytes_def block_def pend_def proper_def word_unat_eq_iff)
    obtain rgn' where "put ?rgn (length ys) ?p = Some rgn'" "region_ok rgn'" "holds rgn' (ys @ ?p # zs)"
      using upd [OF b'(3)] b'(2) e by auto
    then show ?thesis using rear scan i minus [OF b'(1) sub] cov by (simp add: lmb_free_def Let_def)
  next
    case split
    let ?p = "p\<lparr>psize := b - base p\<rparr>" and ?e = "b + sz" and ?t = "base p + psize p - (b + sz)"
    have le: "unat (base p) < unat b" "unat b + unat sz < pend p"
      using split p(2) pr(2) nw(2) by (auto simp: contains_def word_unat_eq_iff le_less)
    have u: "unat (b - base p) = unat b - unat (base p)" "unat ?t = pend p - (unat b + unat sz)"
      using le pr(2) nw(2) by (simp_all add: unat_sub word_le_nat_alt)
    have b': "region_bytes ?p = region_bytes p - {unat b..<pend p}" "pend ?p = unat b" "proper ?p"
      using le u pr by (auto simp: region_bytes_def pend_def proper_def word_unat_eq_iff)
    obtain rgn1 where r1: "put ?rgn (length ys) ?p = Some rgn1" "region_ok rgn1" "holds rgn1 (ys @ ?p # zs)"
        "table_ok (ys @ ?p # zs)"
      using upd [OF b'(3)] b'(2) le by auto
    have S: "{unat b..<pend p} \<subseteq> region_bytes p" using le by (auto simp: region_bytes_def)
    have tail: "block ?e ?t = {unat b + unat sz..<pend p}" using u nw(2) le by (simp add: block_def)
    have rs: "region_set rgn1 = region_set ?rgn - {unat b..<pend p}"
      using cov [OF r1(3)] minus [OF b'(1) S] by simp
    have "region_set rgn1 \<inter> block ?e ?t = {}" unfolding rs tail by auto
    then have "clear (regs rgn1) ?e ?t" by (auto simp: clear_def region_set_def)
    moreover have "?t \<noteq> 0" "unat ?e + unat ?t < 2 ^ 32" using u nw(2) le pr(3)
      by (auto simp: word_unat_eq_iff)
    ultimately obtain ret rgn2 where r2: "lmb_add_region rgn1 ?e ?t = Some (ret, rgn2)" "region_ok rgn2"
        "if ret < 0 then rgn2 = rgn1 \<and> cnt rgn1 = 8 else region_set rgn2 = region_set rgn1 \<union> block ?e ?t"
      using add_region_set [OF r1(2)] by (smt (verit))
    have "cnt rgn1 = cnt ?rgn" using r1(1) by (auto simp: put_def split: if_splits)
    moreover have "region_set ?rgn - {unat b..<pend p} \<union> {unat b + unat sz..<pend p} = region_set ?rgn - block b sz"
      using S le by (auto simp: cov [OF h] block_def)
    ultimately show ?thesis
      using split scan i r1(1) r2 rs tail by (auto simp add: lmb_free_def Let_def split: if_splits)
  qed
qed

text \<open>When the only region is released, the table has no entry, and the next reservation reads the
  old one: it reports success and reserves the released block again instead of its own.\<close>

definition blank_lmb :: lmb where
  "blank_lmb = (let r = \<lparr>cnt = 0, tsize = 0, region = replicate 9 \<lparr>base = 0, psize = 0\<rparr>\<rparr>
     in \<lparr>memory = r, reserved = r\<rparr>)"

lemma replicate_9: "replicate 9 x = [x, x, x, x, x, x, x, x, x]"
  by (simp add: eval_nat_numeral)

lemma lmb_free_last_stale:
  "do { (_, l) \<leftarrow> lmb_reserve (lmb_init blank_lmb) 0xA0001000 0x1000;
        (_, l) \<leftarrow> lmb_free l 0xA0001000 0x1000;
        (ret, l) \<leftarrow> lmb_reserve l 0xA0002000 0x1000;
        r \<leftarrow> lmb_is_reserved l 0xA0002000;
        s \<leftarrow> lmb_is_reserved l 0xA0001000;
        Some (ret, r, s) } = Some (0, 0, 1)"
  by (simp add: blank_lmb_def lmb_init_def lmb_reserve_def lmb_add_region_def get_def put_def lmb_free_def
      free_scan.simps lmb_remove_region_def remove_loop.simps add_scan.simps lmb_regions_adjacent_def
      lmb_addrs_adjacent_def MAX_LMB_REGIONS_def lmb_is_reserved_def reserved_loop.simps Let_def
      replicate_9 unsigned_minus_1_eq_mask mask_eq_exp_minus_1)

definition volkh_lmb :: lmb where
  "volkh_lmb = blank_lmb\<lparr>memory := \<lparr>cnt = 1, tsize = 0, region =
       \<lparr>base = 0xA0000000, psize = 0x4000000\<rparr> # replicate 8 \<lparr>base = 0, psize = 0\<rparr>\<rparr>,
     reserved := \<lparr>cnt = 1, tsize = 0, region =
       \<lparr>base = 0xA0008000, psize = 0x300000\<rparr> # replicate 8 \<lparr>base = 0, psize = 0\<rparr>\<rparr>\<rparr>"

lemma volkh_lmb_ok:
  "region_ok (reserved volkh_lmb)" "region_ok (memory volkh_lmb)" "cnt (reserved volkh_lmb) = 1"
  "regs (memory volkh_lmb) = [\<lparr>base = 0xA0000000, psize = 0x4000000\<rparr>]"
  "regs (reserved volkh_lmb) = [\<lparr>base = 0xA0008000, psize = 0x300000\<rparr>]"
  by (simp_all add: volkh_lmb_def regs_def region_ok_def MAX_LMB_REGIONS_def table_ok_def proper_def pend_def)

theorem lmb_alloc_highest_witness:
  "\<exists>a l'. lmb_alloc_base volkh_lmb 0x1234 (2 ^ 12) 0 = Some (a, l')
    \<and> (\<forall>p c. p \<in> set (regs (memory volkh_lmb)) \<and> cand volkh_lmb 0x1234 12 0 p c \<longrightarrow> c \<le> a)
    \<and> (if a = 0 then l' = volkh_lmb
       else (\<exists>p \<in> set (regs (memory volkh_lmb)). cand volkh_lmb 0x1234 12 0 p a)
         \<and> memory l' = memory volkh_lmb \<and> region_ok (reserved l')
         \<and> region_set (reserved l') = region_set (reserved volkh_lmb) \<union> block a (lmb_align_up 0x1234 (2 ^ 12)))"
  by (rule lmb_alloc_highest [OF volkh_lmb_ok(1) _ volkh_lmb_ok(2)])
    (simp_all add: volkh_lmb_ok roundable_def pend_def)

theorem lmb_reserve_all_witness:
  "\<exists>l'. reserve_all (lmb_init blank_lmb) [(0xA0008000, 0x300000), (0xA0000000, 0x8000), (0xA3FFF000, 0x1000)]
      = Some l' \<and> region_ok (reserved l')
    \<and> (\<forall>a. lmb_is_reserved l' a = Some (if unat a \<in>
        blocks [(0xA0008000, 0x300000), (0xA0000000, 0x8000), (0xA3FFF000, 0x1000)] then 1 else 0))"
  by (rule lmb_reserve_all) (auto simp: blank_lmb_def Let_def block_def)

end
