(* ===== verification/Image.thy ===== *)
theory Image
  imports CString Crc32 Command
begin

text \<open>
  Legacy images (\<^verbatim>\<open>include/image.h\<close>, the legacy half of \<^verbatim>\<open>common/image.c\<close>): the header fields, the
  checks of the magic number and of both checksums, the components of multi-file images, the
  tables that translate the codes, and the printed description.

  A header is an address in the byte store; the fields are stored in network byte order.  The
  local copy of the header that \<^verbatim>\<open>image_check_hcrc\<close> makes is a store of its own.  The main result
  is that taking a multi-file image apart gives back the files it was built from.
\<close>

section \<open>Byte order\<close>

definition be32_to_cpu :: "u32 \<Rightarrow> u32" where
  "be32_to_cpu x = push_bit 24 (x AND 0xff) OR push_bit 8 (x AND 0xff00)
     OR drop_bit 8 (x AND 0xff0000) OR drop_bit 24 (x AND 0xff000000)"

definition uimage_to_cpu :: "u32 \<Rightarrow> u32" where "uimage_to_cpu x = be32_to_cpu x"
definition cpu_to_uimage :: "u32 \<Rightarrow> u32" where "cpu_to_uimage x = be32_to_cpu x"

section \<open>The header\<close>

abbreviation (input) IH_MAGIC :: u32 where "IH_MAGIC \<equiv> 0x27051956"
abbreviation (input) IH_NMLEN :: nat where "IH_NMLEN \<equiv> 32"
abbreviation (input) CHUNKSZ_CRC32 :: nat where "CHUNKSZ_CRC32 \<equiv> 65536"

text \<open>The codes the board's image uses.\<close>

abbreviation (input) IH_OS_NETBSD :: u8 where "IH_OS_NETBSD \<equiv> 2"
abbreviation (input) IH_OS_LINUX :: u8 where "IH_OS_LINUX \<equiv> 5"
abbreviation (input) IH_OS_RTEMS :: u8 where "IH_OS_RTEMS \<equiv> 18"
abbreviation (input) IH_ARCH_ARM :: u8 where "IH_ARCH_ARM \<equiv> 2"
abbreviation (input) IH_TYPE_STANDALONE :: u8 where "IH_TYPE_STANDALONE \<equiv> 1"
abbreviation (input) IH_TYPE_KERNEL :: u8 where "IH_TYPE_KERNEL \<equiv> 2"
abbreviation (input) IH_TYPE_RAMDISK :: u8 where "IH_TYPE_RAMDISK \<equiv> 3"
abbreviation (input) IH_TYPE_MULTI :: u8 where "IH_TYPE_MULTI \<equiv> 4"
abbreviation (input) IH_TYPE_SCRIPT :: u8 where "IH_TYPE_SCRIPT \<equiv> 6"
abbreviation (input) IH_COMP_NONE :: u8 where "IH_COMP_NONE \<equiv> 0"
abbreviation (input) IH_COMP_GZIP :: u8 where "IH_COMP_GZIP \<equiv> 1"

definition image_get_header_size :: u32 where "image_get_header_size = 64"

definition image_get_magic :: "mem \<Rightarrow> u32 \<Rightarrow> u32" where
  "image_get_magic m hdr = uimage_to_cpu (load32 m (unat hdr))"
definition image_get_hcrc :: "mem \<Rightarrow> u32 \<Rightarrow> u32" where
  "image_get_hcrc m hdr = uimage_to_cpu (load32 m (unat hdr + 4))"
definition image_get_time :: "mem \<Rightarrow> u32 \<Rightarrow> u32" where
  "image_get_time m hdr = uimage_to_cpu (load32 m (unat hdr + 8))"
definition image_get_size :: "mem \<Rightarrow> u32 \<Rightarrow> u32" where
  "image_get_size m hdr = uimage_to_cpu (load32 m (unat hdr + 12))"
definition image_get_load :: "mem \<Rightarrow> u32 \<Rightarrow> u32" where
  "image_get_load m hdr = uimage_to_cpu (load32 m (unat hdr + 16))"
definition image_get_ep :: "mem \<Rightarrow> u32 \<Rightarrow> u32" where
  "image_get_ep m hdr = uimage_to_cpu (load32 m (unat hdr + 20))"
definition image_get_dcrc :: "mem \<Rightarrow> u32 \<Rightarrow> u32" where
  "image_get_dcrc m hdr = uimage_to_cpu (load32 m (unat hdr + 24))"
definition image_get_os :: "mem \<Rightarrow> u32 \<Rightarrow> u8" where "image_get_os m hdr = m (unat hdr + 28)"
definition image_get_arch :: "mem \<Rightarrow> u32 \<Rightarrow> u8" where "image_get_arch m hdr = m (unat hdr + 29)"
definition image_get_type :: "mem \<Rightarrow> u32 \<Rightarrow> u8" where "image_get_type m hdr = m (unat hdr + 30)"
definition image_get_comp :: "mem \<Rightarrow> u32 \<Rightarrow> u8" where "image_get_comp m hdr = m (unat hdr + 31)"
definition image_get_name :: "u32 \<Rightarrow> u32" where "image_get_name hdr = hdr + 32"

definition image_set_hcrc :: "mem \<Rightarrow> u32 \<Rightarrow> u32 \<Rightarrow> mem" where
  "image_set_hcrc m hdr val = store32 m (unat hdr + 4) (cpu_to_uimage val)"

definition image_get_data_size :: "mem \<Rightarrow> u32 \<Rightarrow> u32" where
  "image_get_data_size m hdr = image_get_size m hdr"
definition image_get_data :: "u32 \<Rightarrow> u32" where
  "image_get_data hdr = hdr + image_get_header_size"
definition image_get_image_size :: "mem \<Rightarrow> u32 \<Rightarrow> u32" where
  "image_get_image_size m hdr = image_get_size m hdr + image_get_header_size"
definition image_get_image_end :: "mem \<Rightarrow> u32 \<Rightarrow> u32" where
  "image_get_image_end m hdr = hdr + image_get_image_size m hdr"

definition image_check_magic :: "mem \<Rightarrow> u32 \<Rightarrow> bool" where
  "image_check_magic m hdr \<longleftrightarrow> image_get_magic m hdr = IH_MAGIC"
definition image_check_type :: "mem \<Rightarrow> u32 \<Rightarrow> u8 \<Rightarrow> bool" where
  "image_check_type m hdr type \<longleftrightarrow> image_get_type m hdr = type"
definition image_check_arch :: "mem \<Rightarrow> u32 \<Rightarrow> u8 \<Rightarrow> bool" where
  "image_check_arch m hdr arch \<longleftrightarrow> image_get_arch m hdr = arch"
definition image_check_os :: "mem \<Rightarrow> u32 \<Rightarrow> u8 \<Rightarrow> bool" where
  "image_check_os m hdr os \<longleftrightarrow> image_get_os m hdr = os"
definition image_check_target_arch :: "mem \<Rightarrow> u32 \<Rightarrow> bool" where
  "image_check_target_arch m hdr \<longleftrightarrow> image_check_arch m hdr IH_ARCH_ARM"

text \<open>\<open>header_copy\<close>: a struct of 64 bytes that \<^verbatim>\<open>memmove\<close> fills from the header.\<close>

definition header_copy :: "mem \<Rightarrow> u32 \<Rightarrow> mem" where
  "header_copy m hdr = (\<lambda>i. if i < unat image_get_header_size then m (unat hdr + i) else 0)"

definition image_check_hcrc :: "mem \<Rightarrow> u32 \<Rightarrow> bool" where
  "image_check_hcrc m hdr = (let
     len = image_get_header_size;
     header = header_copy m hdr;
     header = image_set_hcrc header 0 0;
     hcrc = crc32 header 0 0 (unat len)
   in hcrc = image_get_hcrc m hdr)"

definition image_check_dcrc :: "mem \<Rightarrow> u32 \<Rightarrow> bool" where
  "image_check_dcrc m hdr = (let
     data = image_get_data hdr;
     len = image_get_data_size m hdr;
     dcrc = crc32_wd m 0 (unat data) (unat len) CHUNKSZ_CRC32
   in dcrc = image_get_dcrc m hdr)"

section \<open>Multi-file images\<close>

partial_function (option) count_loop :: "mem \<Rightarrow> addr \<Rightarrow> u32 \<Rightarrow> u32 \<Rightarrow> u32 option" where
  "count_loop m tab i cnt = (if load32 m (tab + 4 * unat i) \<noteq> 0
     then count_loop m tab (i + 1) (cnt + 1) else Some cnt)"

definition image_multi_count :: "mem \<Rightarrow> u32 \<Rightarrow> u32 option" where
  "image_multi_count m hdr = count_loop m (unat (image_get_data hdr)) 0 0"

primrec offset_loop :: "mem \<Rightarrow> addr \<Rightarrow> nat \<Rightarrow> u32" where
  "offset_loop m tab 0 = 0"
| "offset_loop m tab (Suc i) = offset_loop m tab i
     + ((uimage_to_cpu (load32 m (tab + 4 * i)) + 3) AND NOT 3)"

definition image_multi_getimg :: "mem \<Rightarrow> u32 \<Rightarrow> u32 \<Rightarrow> (u32 \<times> u32) option" where
  "image_multi_getimg m hdr idx = do {
     cnt \<leftarrow> image_multi_count m hdr;
     let tab = unat (image_get_data hdr);
     let img_data = image_get_data hdr + (cnt + 1) * 4;
     Some (if idx < cnt
       then (img_data + offset_loop m tab (unat idx), uimage_to_cpu (load32 m (tab + 4 * unat idx)))
       else (0, 0))
   }"

section \<open>Tables and messages\<close>

record table_entry =
  tid :: int
  sname :: "string option"
  lname :: string

definition entry_of :: "int \<Rightarrow> string \<Rightarrow> string \<Rightarrow> table_entry" where
  "entry_of i s l = \<lparr>tid = i, sname = Some s, lname = l\<rparr>"

definition uimage_arch :: "table_entry list" where
  "uimage_arch = [\<lparr>tid = 0, sname = None, lname = ''Invalid ARCH''\<rparr>,
     entry_of 1 ''alpha'' ''Alpha'', entry_of 2 ''arm'' ''ARM'', entry_of 3 ''x86'' ''Intel x86'',
     entry_of 4 ''ia64'' ''IA64'', entry_of 12 ''m68k'' ''M68K'', entry_of 14 ''microblaze'' ''MicroBlaze'',
     entry_of 5 ''mips'' ''MIPS'', entry_of 6 ''mips64'' ''MIPS 64 Bit'', entry_of 13 ''nios'' ''NIOS'',
     entry_of 15 ''nios2'' ''NIOS II'', entry_of 7 ''powerpc'' ''PowerPC'', entry_of 7 ''ppc'' ''PowerPC'',
     entry_of 8 ''s390'' ''IBM S390'', entry_of 9 ''sh'' ''SuperH'', entry_of 10 ''sparc'' ''SPARC'',
     entry_of 11 ''sparc64'' ''SPARC 64 Bit'', entry_of 16 ''blackfin'' ''Blackfin'',
     entry_of 17 ''avr32'' ''AVR32'', entry_of (- 1) [] []]"

definition uimage_os :: "table_entry list" where
  "uimage_os = [\<lparr>tid = 0, sname = None, lname = ''Invalid OS''\<rparr>,
     entry_of 5 ''linux'' ''Linux'', entry_of 2 ''netbsd'' ''NetBSD'', entry_of 18 ''rtems'' ''RTEMS'',
     entry_of 17 ''u-boot'' ''U-Boot'', entry_of (- 1) [] []]"

definition uimage_type :: "table_entry list" where
  "uimage_type = [\<lparr>tid = 0, sname = None, lname = ''Invalid Image''\<rparr>,
     entry_of 7 ''filesystem'' ''Filesystem Image'', entry_of 5 ''firmware'' ''Firmware'',
     entry_of 2 ''kernel'' ''Kernel Image'', entry_of 4 ''multi'' ''Multi-File Image'',
     entry_of 3 ''ramdisk'' ''RAMDisk Image'', entry_of 6 ''script'' ''Script'',
     entry_of 1 ''standalone'' ''Standalone Program'', entry_of 8 ''flat_dt'' ''Flat Device Tree'',
     entry_of 9 ''kwbimage'' ''Kirkwood Boot Image'', entry_of 10 ''imximage'' ''Freescale i.MX Boot Image'',
     entry_of (- 1) [] []]"

definition uimage_comp :: "table_entry list" where
  "uimage_comp = [entry_of 0 ''none'' ''uncompressed'', entry_of 2 ''bzip2'' ''bzip2 compressed'',
     entry_of 1 ''gzip'' ''gzip compressed'', entry_of 3 ''lzma'' ''lzma compressed'',
     entry_of 4 ''lzo'' ''lzo compressed'', entry_of (- 1) [] []]"

fun get_table_entry_name :: "table_entry list \<Rightarrow> string \<Rightarrow> int \<Rightarrow> string" where
  "get_table_entry_name [] msg i = msg"
| "get_table_entry_name (e # table) msg i =
     (if tid e \<ge> 0 then (if tid e = i then lname e else get_table_entry_name table msg i) else msg)"

fun get_table_entry_id :: "table_entry list \<Rightarrow> string \<Rightarrow> int" where
  "get_table_entry_id [] name = - 1"
| "get_table_entry_id (t # table) name =
     (if tid t \<ge> 0 then
        (case sname t of
           Some s \<Rightarrow> if strcmp_s s name = 0 then tid t else get_table_entry_id table name
         | None \<Rightarrow> get_table_entry_id table name)
      else - 1)"

definition genimg_get_os_name :: "u8 \<Rightarrow> string" where
  "genimg_get_os_name os = get_table_entry_name uimage_os ''Unknown OS'' (uint os)"
definition genimg_get_arch_name :: "u8 \<Rightarrow> string" where
  "genimg_get_arch_name arch = get_table_entry_name uimage_arch ''Unknown Architecture'' (uint arch)"
definition genimg_get_type_name :: "u8 \<Rightarrow> string" where
  "genimg_get_type_name type = get_table_entry_name uimage_type ''Unknown Image'' (uint type)"
definition genimg_get_comp_name :: "u8 \<Rightarrow> string" where
  "genimg_get_comp_name cmp = get_table_entry_name uimage_comp ''Unknown Compression'' (uint cmp)"
definition genimg_get_os_id :: "string \<Rightarrow> int" where
  "genimg_get_os_id name = get_table_entry_id uimage_os name"
definition genimg_get_arch_id :: "string \<Rightarrow> int" where
  "genimg_get_arch_id name = get_table_entry_id uimage_arch name"
definition genimg_get_type_id :: "string \<Rightarrow> int" where
  "genimg_get_type_id name = get_table_entry_id uimage_type name"
definition genimg_get_comp_id :: "string \<Rightarrow> int" where
  "genimg_get_comp_id name = get_table_entry_id uimage_comp name"

text \<open>\<^verbatim>\<open>display_options.c\<close>: the unit, the whole part and one rounded digit.\<close>

definition print_size :: "u32 \<Rightarrow> string \<Rightarrow> string option" where
  "print_size sz s = (let
     (c, d) = (if sz < push_bit 30 1 then
         (if sz < push_bit 20 1 then (CHR ''k'', push_bit 10 1) else (CHR ''M'', push_bit 20 1))
       else (CHR ''G'', push_bit 30 1));
     n = sz div d;
     (m, n) = (if sz mod d \<noteq> 0 then
         (let m = (10 * (sz - n * d) + d div 2) div d in
          if 10 \<le> m then (m - 10, n + 1) else (m, n))
       else (0, n))
   in do {
     t \<leftarrow> sprintf ''%2ld'' [VInt n];
     u \<leftarrow> (if m \<noteq> 0 then sprintf ''.%ld'' [VInt m] else Some []);
     v \<leftarrow> sprintf '' %cB%s'' [VInt (of_char c), VStr (Some s)];
     Some (t @ u @ v)
   })"

definition genimg_print_size :: "u32 \<Rightarrow> string option" where
  "genimg_print_size sz = do {
     s \<leftarrow> sprintf ''%d Bytes = '' [VInt sz];
     t \<leftarrow> print_size sz nl;
     Some (s @ t)
   }"

definition image_print_type :: "mem \<Rightarrow> u32 \<Rightarrow> string option" where
  "image_print_type m hdr = (let
     os = genimg_get_os_name (image_get_os m hdr);
     arch = genimg_get_arch_name (image_get_arch m hdr);
     type = genimg_get_type_name (image_get_type m hdr);
     cmp = genimg_get_comp_name (image_get_comp m hdr)
   in sprintf (''%s %s %s (%s)'' @ nl)
        [VStr (Some arch), VStr (Some os), VStr (Some type), VStr (Some cmp)])"

text \<open>The text at an address, of at most \<open>n\<close> characters.\<close>

definition text_upto :: "mem \<Rightarrow> addr \<Rightarrow> nat \<Rightarrow> string" where
  "text_upto m a n = map (char_of \<circ> unat) (takeWhile (\<lambda>b. b \<noteq> 0) (bytes_at m a n))"

primrec print_contents_loop :: "mem \<Rightarrow> u32 \<Rightarrow> nat \<Rightarrow> u32 \<Rightarrow> string option" where
  "print_contents_loop m hdr 0 i = Some []"
| "print_contents_loop m hdr (Suc n) i = do {
     (data, len) \<leftarrow> image_multi_getimg m hdr i;
     s \<leftarrow> sprintf ''%s   Image %d: '' [VStr (Some ''   ''), VInt i];
     t \<leftarrow> genimg_print_size len;
     u \<leftarrow> (if image_check_type m hdr IH_TYPE_SCRIPT \<and> 0 < i
        then sprintf (''%s    Offset = 0x%08lx'' @ nl) [VStr (Some ''   ''), VInt data] else Some []);
     r \<leftarrow> print_contents_loop m hdr n (i + 1);
     Some (s @ t @ u @ r)
   }"

definition image_print_contents :: "mem \<Rightarrow> u32 \<Rightarrow> string option" where
  "image_print_contents m hdr = (let p = VStr (Some ''   '') in do {
     a \<leftarrow> sprintf (''%sImage Name:   %.*s'' @ nl)
       [p, VInt 32, VStr (Some (text_upto m (unat (image_get_name hdr)) IH_NMLEN))];
     b \<leftarrow> sprintf ''%sImage Type:   '' [p];
     c \<leftarrow> image_print_type m hdr;
     d \<leftarrow> sprintf ''%sData Size:    '' [p];
     e \<leftarrow> genimg_print_size (image_get_data_size m hdr);
     f \<leftarrow> sprintf (''%sLoad Address: %08x'' @ nl) [p, VInt (image_get_load m hdr)];
     g \<leftarrow> sprintf (''%sEntry Point:  %08x'' @ nl) [p, VInt (image_get_ep m hdr)];
     h \<leftarrow> (if image_check_type m hdr IH_TYPE_MULTI \<or> image_check_type m hdr IH_TYPE_SCRIPT then do {
         cnt \<leftarrow> image_multi_count m hdr;
         s \<leftarrow> sprintf (''%sContents:'' @ nl) [p];
         t \<leftarrow> print_contents_loop m hdr (unat cnt) 0;
         Some (s @ t)
       } else Some []);
     Some (a @ b @ c @ d @ e @ f @ g @ h)
   })"

definition IMAGE_FORMAT_INVALID :: int where "IMAGE_FORMAT_INVALID = 0"
definition IMAGE_FORMAT_LEGACY :: int where "IMAGE_FORMAT_LEGACY = 1"

definition genimg_get_format :: "mem \<Rightarrow> u32 \<Rightarrow> int" where
  "genimg_get_format m img_addr =
     (if image_check_magic m img_addr then IMAGE_FORMAT_LEGACY else IMAGE_FORMAT_INVALID)"

definition genimg_get_image :: "u32 \<Rightarrow> u32" where "genimg_get_image img_addr = img_addr"

section \<open>How \<open>mkimage\<close> builds an image\<close>

text \<open>The host tool (\<^verbatim>\<open>tools/mkimage.c\<close>, \<^verbatim>\<open>tools/default_image.c\<close>) writes an empty header, the
  table of sizes of a multi-file image, and the files, all but the last padded to words; then
  it maps the file and fills in the header.  The file is a store that begins at 0; the host is
  taken to be little-endian like the target.  The header is the one of the default image format: the
  formats with a \<^verbatim>\<open>set_header\<close> of their own (kwbimage, imximage, FIT) are not modelled.\<close>

record mkimage_params =
  p_addr :: u32
  p_ep :: u32
  p_os :: u8
  p_arch :: u8
  p_type :: u8
  p_comp :: u8
  imagename :: "u8 list"
  st_mtime :: u32

definition set_l :: "mem \<Rightarrow> u32 \<Rightarrow> nat \<Rightarrow> u32 \<Rightarrow> mem" where
  "set_l m hdr off val = store32 m (unat hdr + off) (cpu_to_uimage val)"

definition image_set_name :: "mem \<Rightarrow> u32 \<Rightarrow> u8 list \<Rightarrow> mem" where
  "image_set_name m hdr name = (\<lambda>a. if unat hdr + 32 \<le> a \<and> a < unat hdr + 32 + IH_NMLEN
     then (name @ replicate IH_NMLEN 0) ! (a - (unat hdr + 32)) else m a)"

definition image_set_header :: "mem \<Rightarrow> u32 \<Rightarrow> u32 \<Rightarrow> mkimage_params \<Rightarrow> mem" where
  "image_set_header m hdr st_size par = (let
     checksum = crc32 m 0 (unat hdr + 64) (unat (st_size - 64));
     m = set_l m hdr 0 IH_MAGIC;
     m = set_l m hdr 8 (st_mtime par);
     m = set_l m hdr 12 (st_size - 64);
     m = set_l m hdr 16 (p_addr par);
     m = set_l m hdr 20 (p_ep par);
     m = set_l m hdr 24 checksum;
     m = m(unat hdr + 28 := p_os par);
     m = m(unat hdr + 29 := p_arch par);
     m = m(unat hdr + 30 := p_type par);
     m = m(unat hdr + 31 := p_comp par);
     m = image_set_name m hdr (imagename par);
     checksum = crc32 m 0 (unat hdr) 64
   in set_l m hdr 4 checksum)"

definition copy_file :: "u8 list \<Rightarrow> bool \<Rightarrow> u8 list" where
  "copy_file data pad = (let tail = length data mod 4 in
     data @ (if pad \<and> tail \<noteq> 0 then replicate (4 - tail) 0 else []))"

definition word_bytes :: "u32 \<Rightarrow> u8 list" where
  "word_bytes w = [byte_of 0 w, byte_of 1 w, byte_of 2 w, byte_of 3 w]"

fun size_table :: "u8 list list \<Rightarrow> u8 list" where
  "size_table [] = word_bytes 0"
| "size_table (file # files) = word_bytes (cpu_to_uimage (of_nat (length file))) @ size_table files"

fun copy_files :: "u8 list list \<Rightarrow> u8 list" where
  "copy_files [] = []"
| "copy_files [file] = copy_file file False"
| "copy_files (file # files) = copy_file file True @ copy_files files"

definition mkimage :: "mkimage_params \<Rightarrow> u8 list list \<Rightarrow> u8 list" where
  "mkimage par files = (let
     payload = (if p_type par = IH_TYPE_MULTI \<or> p_type par = IH_TYPE_SCRIPT
       then size_table files @ copy_files files else copy_file (hd files) False);
     ifd = replicate 64 0 @ payload;
     st_size = length ifd;
     ptr = image_set_header (\<lambda>i. if i < st_size then ifd ! i else 0) 0 (of_nat st_size) par
   in bytes_at ptr 0 st_size)"

text \<open>The check \<^verbatim>\<open>mkimage -l\<close> makes: 0 or a negative code.\<close>

definition image_verify_header :: "mem \<Rightarrow> u32 \<Rightarrow> u32 \<Rightarrow> int" where
  "image_verify_header m ptr image_size = (let header = header_copy m ptr in
     if be32_to_cpu (load32 header 0) \<noteq> IH_MAGIC then - 9
     else let checksum = be32_to_cpu (load32 header 4);
              header' = store32 header 4 (be32_to_cpu 0) in
       if crc32 header' 0 0 64 \<noteq> checksum then - 7
       else let len = image_size - 64;
                checksum = be32_to_cpu (load32 header' 24) in
         if crc32 m 0 (unat ptr + 64) (unat len) \<noteq> checksum then - 11 else 0)"

section \<open>Fields\<close>

lemma byte_of_be32:
  "byte_of 0 (be32_to_cpu w) = byte_of 3 w" "byte_of 1 (be32_to_cpu w) = byte_of 2 w"
  "byte_of 2 (be32_to_cpu w) = byte_of 1 w" "byte_of 3 (be32_to_cpu w) = byte_of 0 w"
proof -
  have m: "(0xff::u32) = mask 8" "(0xff00::u32) = push_bit 8 (mask 8)"
    "(0xff0000::u32) = push_bit 16 (mask 8)" "(0xff000000::u32) = push_bit 24 (mask 8)"
    by (simp_all add: mask_eq_exp_minus_1 push_bit_eq_mult)
  show "byte_of 0 (be32_to_cpu w) = byte_of 3 w" "byte_of 1 (be32_to_cpu w) = byte_of 2 w"
    "byte_of 2 (be32_to_cpu w) = byte_of 1 w" "byte_of 3 (be32_to_cpu w) = byte_of 0 w"
    unfolding be32_to_cpu_def m byte_of_def
    by (rule bit_word_eqI; auto simp: bit_simps)+
qed

lemma word_eq_bytes:
  "byte_of 0 v = byte_of 0 w \<Longrightarrow> byte_of 1 v = byte_of 1 w \<Longrightarrow> byte_of 2 v = byte_of 2 w
   \<Longrightarrow> byte_of 3 v = byte_of 3 w \<Longrightarrow> v = w"
  using load32_bytes [of "store32 (\<lambda>_. 0) 0 w" 0 v] load32_bytes [of "store32 (\<lambda>_. 0) 0 w" 0 w]
  by (simp add: store32_def)

lemma be32_be32 [simp]: "be32_to_cpu (be32_to_cpu w) = w"
  by (rule word_eq_bytes) (simp_all add: byte_of_be32 del: One_nat_def)

lemma uimage_inverse [simp]: "uimage_to_cpu (cpu_to_uimage w) = w"
  by (simp add: uimage_to_cpu_def cpu_to_uimage_def)

lemma length_word_bytes [simp]: "length (word_bytes w) = 4"
  by (simp add: word_bytes_def)

lemma load32_stored:
  "bytes_at m a 4 = word_bytes w \<Longrightarrow> load32 m a = w"
  by (rule load32_bytes) (auto simp: bytes_at_def word_bytes_def upt_rec eval_nat_numeral)

text \<open>The image as bytes.\<close>

definition crc_of :: "u8 list \<Rightarrow> u32" where
  "crc_of bs = foldl crc_byte 0xffffffff bs XOR 0xffffffff"

lemma crc32_crc_of: "crc32 m 0 p n = crc_of (bytes_at m p n)"
  by (simp add: crc32_foldl crc_of_def)

definition header_bytes :: "mkimage_params \<Rightarrow> u32 \<Rightarrow> u32 \<Rightarrow> u32 \<Rightarrow> u8 list" where
  "header_bytes par dsize dcrc hcrc =
     word_bytes (cpu_to_uimage IH_MAGIC) @ word_bytes (cpu_to_uimage hcrc)
     @ word_bytes (cpu_to_uimage (st_mtime par)) @ word_bytes (cpu_to_uimage dsize)
     @ word_bytes (cpu_to_uimage (p_addr par)) @ word_bytes (cpu_to_uimage (p_ep par))
     @ word_bytes (cpu_to_uimage dcrc) @ [p_os par, p_arch par, p_type par, p_comp par]
     @ take 32 (imagename par @ replicate 32 0)"

lemma length_header [simp]: "length (header_bytes par d c h) = 64"
  by (simp add: header_bytes_def word_bytes_def)

lemma bytes_at_store32:
  "bytes_at (store32 m a w) a 4 = word_bytes w"
  "b + n \<le> a \<or> a + 4 \<le> b \<Longrightarrow> bytes_at (store32 m a w) b n = bytes_at m b n"
  "c < a \<or> a + 4 \<le> c \<Longrightarrow> store32 m a w c = m c"
proof -
  have "[a..<a + 4] = [a, a + 1, a + 2, a + 3]" by (simp add: upt_rec)
  then show "bytes_at (store32 m a w) a 4 = word_bytes w"
    by (simp add: store32_def word_bytes_def bytes_at_def)
qed (auto simp: store32_def bytes_at_eq_iff)

lemma bytes_at_upd: "c < b \<or> b + n \<le> c \<Longrightarrow> bytes_at (m(c := x)) b n = bytes_at m b n"
  by (auto simp: bytes_at_def)

lemma bytes_at_set_name:
  "bytes_at (image_set_name m hdr name) (unat hdr + 32) 32 = take 32 (name @ replicate 32 0)"
  "b + n \<le> unat hdr + 32 \<or> unat hdr + 64 \<le> b \<Longrightarrow> bytes_at (image_set_name m hdr name) b n = bytes_at m b n"
  "a < unat hdr + 32 \<Longrightarrow> image_set_name m hdr name a = m a"
proof -
  have "bytes_at (image_set_name m hdr name) (unat hdr + 32) 32 ! i = take 32 (name @ replicate 32 0) ! i"
    if "i < 32" for i using that by (simp add: image_set_name_def del: take_append)
  then show "bytes_at (image_set_name m hdr name) (unat hdr + 32) 32 = take 32 (name @ replicate 32 0)"
    by (intro nth_equalityI) simp_all
qed (auto simp: image_set_name_def intro!: bytes_at_cong)

lemma header_split:
  "bytes_at m a 64 = bytes_at m a 4 @ bytes_at m (a + 4) 4 @ bytes_at m (a + 8) 4 @ bytes_at m (a + 12) 4
     @ bytes_at m (a + 16) 4 @ bytes_at m (a + 20) 4 @ bytes_at m (a + 24) 4
     @ [m (a + 28), m (a + 29), m (a + 30), m (a + 31)] @ bytes_at m (a + 32) 32"
proof -
  have "[a + 28..<a + 28 + 4] = [a + 28, a + 29, a + 30, a + 31]" by (simp add: upt_rec)
  then have "bytes_at m (a + 28) 4 = [m (a + 28), m (a + 29), m (a + 30), m (a + 31)]"
    by (simp add: bytes_at_def)
  then show ?thesis
    using bytes_at_append [of m a 4 60] bytes_at_append [of m "a + 4" 4 56] bytes_at_append [of m "a + 8" 4 52]
      bytes_at_append [of m "a + 12" 4 48] bytes_at_append [of m "a + 16" 4 44]
      bytes_at_append [of m "a + 20" 4 40] bytes_at_append [of m "a + 24" 4 36]
      bytes_at_append [of m "a + 28" 4 32] by (simp add: add.commute [of _ a])
qed

lemma word_bytes_0: "word_bytes (cpu_to_uimage 0) = [0, 0, 0, 0]"
  by (simp add: word_bytes_def cpu_to_uimage_def be32_to_cpu_def byte_of_def)

lemma set_header_bytes:
  assumes z: "bytes_at f 0 64 = replicate 64 0" and d: "d = st - 64" and c: "c = crc32 f 0 64 (unat d)"
  shows "bytes_at (image_set_header f 0 st par) 0 64 = header_bytes par d c (crc_of (header_bytes par d c 0))
    \<and> bytes_at (image_set_header f 0 st par) 64 n = bytes_at f 64 n"
proof -
  define g where "g = image_set_name ((set_l (set_l (set_l (set_l (set_l (set_l f 0 0 IH_MAGIC) 0 8 (st_mtime par))
    0 12 d) 0 16 (p_addr par)) 0 20 (p_ep par)) 0 24 c)
    (28 := p_os par, 29 := p_arch par, 30 := p_type par, 31 := p_comp par)) 0 (imagename par)"
  have h: "image_set_header f 0 st par = set_l g 0 4 (crc32 g 0 0 64)"
    by (simp add: image_set_header_def g_def Let_def d c)
  note bs = bytes_at_set_name [where hdr = 0, simplified] bytes_at_upd set_l_def bytes_at_store32
  have "bytes_at f 4 4 = [0, 0, 0, 0]"
  proof -
    have "bytes_at f 4 4 ! i = 0" if "i < 4" for i
      using arg_cong [OF z, of "\<lambda>xs. xs ! (4 + i)"] that by simp
    then have "bytes_at f 4 4 = replicate 4 0" by (intro nth_equalityI) simp_all
    then show ?thesis by (simp add: eval_nat_numeral)
  qed
  then have g: "bytes_at g 0 64 = header_bytes par d c 0"
    unfolding header_split [of g 0] header_bytes_def word_bytes_0
    by (simp add: g_def bs)
  have "bytes_at (set_l g 0 4 v) 0 64 = header_bytes par d c v" for v
    unfolding header_split [of "set_l g 0 4 v" 0] header_bytes_def
    by (simp add: g_def bs)
  moreover have "bytes_at (set_l g 0 4 v) 64 n = bytes_at f 64 n" for v
    by (simp add: g_def bs)
  ultimately show ?thesis by (simp add: h crc32_crc_of g)
qed

definition payload :: "mkimage_params \<Rightarrow> u8 list list \<Rightarrow> u8 list" where
  "payload par files = (if p_type par = IH_TYPE_MULTI \<or> p_type par = IH_TYPE_SCRIPT
     then size_table files @ copy_files files else copy_file (hd files) False)"

definition built_header :: "mkimage_params \<Rightarrow> u8 list \<Rightarrow> u8 list" where
  "built_header par pl = (let d = of_nat (length pl); c = crc_of pl
     in header_bytes par d c (crc_of (header_bytes par d c 0)))"

lemma mkimage_bytes:
  assumes n: "64 + length (payload par files) < 2 ^ 32"
  shows "mkimage par files = built_header par (payload par files) @ payload par files"
proof -
  let ?p = "payload par files" and ?n = "64 + length (payload par files)"
  define f :: mem where "f = (\<lambda>i. if i < ?n then (replicate 64 0 @ ?p) ! i else 0)"
  have f: "bytes_at f 0 64 = replicate 64 0" "bytes_at f 64 (length ?p) = ?p"
    by (auto simp: f_def nth_append intro!: nth_equalityI)
  have d: "of_nat ?n - 64 = (of_nat (length ?p) :: u32)" by simp
  then have u: "unat (of_nat ?n - 64 :: u32) = length ?p" using n by (simp add: unat_of_nat_u32)
  have e: "mkimage par files = bytes_at (image_set_header f 0 (of_nat ?n) par) 0 ?n"
    by (simp add: mkimage_def payload_def [symmetric] f_def Let_def)
  show ?thesis
    using set_header_bytes [OF f(1) refl refl, of "of_nat ?n" par "length ?p"] u d
    by (simp add: e bytes_at_append f(2) crc32_crc_of built_header_def Let_def)
qed

text \<open>An image in memory, as the loader sees it.\<close>

lemma header_copy_bytes: "b + n \<le> 64 \<Longrightarrow> bytes_at (header_copy m hdr) b n = bytes_at m (unat hdr + b) n"
  by (auto simp: header_copy_def image_get_header_size_def bytes_at_eq_iff add.assoc)

lemma header_fields:
  assumes "bytes_at m (unat a) 64 = header_bytes par d c h"
  shows "image_get_magic m a = IH_MAGIC" "image_get_hcrc m a = h" "image_get_time m a = st_mtime par"
    "image_get_size m a = d" "image_get_load m a = p_addr par" "image_get_ep m a = p_ep par"
    "image_get_dcrc m a = c" "image_get_os m a = p_os par" "image_get_arch m a = p_arch par"
    "image_get_type m a = p_type par" "image_get_comp m a = p_comp par"
  using assms [unfolded header_split]
  by (simp_all add: header_bytes_def image_get_magic_def image_get_hcrc_def image_get_time_def
      image_get_size_def image_get_load_def image_get_ep_def image_get_dcrc_def image_get_os_def
      image_get_arch_def image_get_type_def image_get_comp_def load32_stored)

lemma header_name:
  assumes "bytes_at m (unat a) 64 = header_bytes par d c h" "unat a + 64 < 2 ^ 32"
  shows "bytes_at m (unat (image_get_name a)) IH_NMLEN = take IH_NMLEN (imagename par @ replicate IH_NMLEN 0)"
proof -
  have "unat (image_get_name a) = unat a + 32" using assms(2) by (simp add: image_get_name_def unat_word_ariths)
  then show ?thesis using assms(1) [unfolded header_split] by (simp add: header_bytes_def)
qed

lemma header_hcrc:
  assumes "bytes_at m (unat a) 64 = header_bytes par d c h"
  shows "image_check_hcrc m a \<longleftrightarrow> h = crc_of (header_bytes par d c 0)"
proof -
  have "bytes_at (image_set_hcrc (header_copy m a) 0 0) 0 64 = header_bytes par d c 0"
    using assms [unfolded header_split]
    unfolding header_split [of "image_set_hcrc (header_copy m a) 0 0" 0]
    by (simp add: header_bytes_def image_set_hcrc_def bytes_at_store32 header_copy_bytes)
      (simp add: header_copy_def image_get_header_size_def)
  then show ?thesis
    using header_fields(2) [OF assms]
    by (auto simp: image_check_hcrc_def crc32_crc_of image_get_header_size_def Let_def)
qed

lemma unat_data: "unat a + 64 < 2 ^ 32 \<Longrightarrow> unat (image_get_data a) = unat a + 64"
  by (simp add: image_get_data_def image_get_header_size_def unat_word_ariths)

section \<open>Taking a multi-file image apart\<close>

lemma length_size_table [simp]: "length (size_table fs) = 4 * length fs + 4"
  by (induction fs rule: size_table.induct) simp_all

lemma size_table_words:
  assumes "bytes_at m tab (4 * length fs + 4) = size_table fs"
  shows "i < length fs \<Longrightarrow> load32 m (tab + 4 * i) = cpu_to_uimage (of_nat (length (fs ! i)))"
    "load32 m (tab + 4 * length fs) = 0"
proof -
  have "(i < length fs \<longrightarrow> load32 m (tab + 4 * i) = cpu_to_uimage (of_nat (length (fs ! i))))
      \<and> load32 m (tab + 4 * length fs) = 0" using assms
  proof (induction fs arbitrary: tab i)
    case Nil
    then show ?case by (simp add: load32_stored)
  next
    case (Cons f fs)
    have w: "bytes_at m tab 4 = word_bytes (cpu_to_uimage (of_nat (length f)))"
      "bytes_at m (tab + 4) (4 * length fs + 4) = size_table fs"
      using Cons.prems bytes_at_append [of m tab 4 "4 * length fs + 4"] by (simp_all add: add.commute)
    show ?case
    proof (cases i)
      case 0
      then show ?thesis using load32_stored [OF w(1)] Cons.IH [OF w(2)] by (simp add: add.assoc)
    next
      case (Suc j)
      then show ?thesis using Cons.IH [OF w(2), of j] by (simp add: add.assoc)
    qed
  qed
  then show "i < length fs \<Longrightarrow> load32 m (tab + 4 * i) = cpu_to_uimage (of_nat (length (fs ! i)))"
    "load32 m (tab + 4 * length fs) = 0" by simp_all
qed

definition rounded :: "nat \<Rightarrow> nat" where "rounded n = (n + 3) div 4 * 4"

definition file_offset :: "u8 list list \<Rightarrow> nat \<Rightarrow> nat" where
  "file_offset fs i = sum_list (map (rounded \<circ> length) (take i fs))"

lemma rounded_mod: "rounded n = n + (if n mod 4 = 0 then 0 else 4 - n mod 4)"
proof -
  define q where "q = n div 4"
  have n: "n = 4 * q + n mod 4" by (simp add: q_def)
  have "n mod 4 < 4" by simp
  then consider "n mod 4 = 0" | "n mod 4 = 1" | "n mod 4 = 2" | "n mod 4 = 3" by linarith
  then show ?thesis
  proof cases
    case 1
    then have "n = 4 * q + 0" using n by simp
    then have "n + 3 = 4 * q + 3" by simp
    then show ?thesis using n 1 by (simp add: rounded_def)
  next
    case 2
    then have "n = 4 * q + 1" using n by simp
    then have "n + 3 = 4 * (q + 1)" by simp
    then show ?thesis using n 2 by (simp add: rounded_def)
  next
    case 3
    then have "n = 4 * q + 2" using n by simp
    then have "n + 3 = 4 * (q + 1) + 1" by simp
    then show ?thesis using n 3 by (simp add: rounded_def)
  next
    case 4
    then have "n = 4 * q + 3" using n by simp
    then have "n + 3 = 4 * (q + 1) + 2" by simp
    then show ?thesis using n 4 by (simp add: rounded_def)
  qed
qed

lemma copy_file_padded: "length (copy_file f True) = rounded (length f)" "take (length f) (copy_file f b) = f"
  by (simp_all add: copy_file_def rounded_mod Let_def)

lemma copy_files_at:
  assumes "bytes_at m p (length (copy_files fs)) = copy_files fs" "i < length fs"
  shows "bytes_at m (p + file_offset fs i) (length (fs ! i)) = fs ! i \<and>
    file_offset fs i + length (fs ! i) \<le> length (copy_files fs)"
  using assms
proof (induction fs arbitrary: p i rule: copy_files.induct)
  case 1
  then show ?case by simp
next
  case (2 f)
  then show ?case by (simp add: file_offset_def copy_file_def Let_def)
next
  case (3 f g fs)
  let ?l = "length (copy_file f True)"
  have s: "bytes_at m p ?l = copy_file f True" "bytes_at m (p + ?l) (length (copy_files (g # fs))) = copy_files (g # fs)"
    using 3(2) bytes_at_append [of m p ?l "length (copy_files (g # fs))"] by simp_all
  show ?case
  proof (cases i)
    case 0
    have "length f \<le> ?l" by (simp add: copy_file_def Let_def)
    then have "bytes_at m p (length f) = take (length f) (bytes_at m p ?l)"
      by (simp add: bytes_at_def take_map)
    then show ?thesis using 0 s(1) copy_file_padded(2) [of f True] \<open>length f \<le> ?l\<close>
      by (simp add: file_offset_def)
  next
    case (Suc j)
    then show ?thesis using 3(1) [OF s(2), of j] 3(3)
      by (simp add: file_offset_def copy_file_padded add.assoc)
  qed
qed

lemma rounded_word: "n + 3 < 2 ^ 32 \<Longrightarrow> (of_nat n + 3 :: u32) AND - 4 = of_nat (rounded n)"
proof -
  assume n: "n + 3 < 2 ^ 32"
  have "(- 4 :: u32) = NOT (mask 2)" by (simp add: mask_eq_exp_minus_1)
  then have "(of_nat n + 3 :: u32) AND - 4 = push_bit 2 (drop_bit 2 (of_nat (n + 3)))"
    by (simp only: and_not_mask of_nat_add of_nat_numeral)
  also have "\<dots> = of_nat ((n + 3) div 2 ^ 2) * 2 ^ 2"
    using n by (simp only: drop_bit_of_nat_u32 push_bit_eq_mult)
  finally show ?thesis by (simp add: rounded_def)
qed

lemma offset_loop_eq:
  assumes "bytes_at m tab (4 * length fs + 4) = size_table fs" "\<forall>f \<in> set fs. length f + 3 < 2 ^ 32" "i \<le> length fs"
  shows "offset_loop m tab i = of_nat (file_offset fs i)"
  using assms(3)
proof (induction i)
  case (Suc i)
  then show ?case
    using size_table_words(1) [OF assms(1), of i] assms(2)
    by (simp add: rounded_word file_offset_def take_Suc_conv_app_nth)
qed (simp add: file_offset_def)

lemma count_loop_eq:
  assumes t: "bytes_at m tab (4 * length fs + 4) = size_table fs" and f: "\<forall>f \<in> set fs. f \<noteq> [] \<and> length f < 2 ^ 32"
    and n: "length fs < 2 ^ 32" and i: "i \<le> length fs"
  shows "count_loop m tab (of_nat i) c = Some (c + of_nat (length fs - i))"
  using i
proof (induction "length fs - i" arbitrary: i c)
  case 0
  then have "i = length fs" by simp
  then show ?case using size_table_words(2) [OF t] n by (subst count_loop.simps) (simp add: unat_of_nat_u32)
next
  case (Suc k)
  then have i: "i < length fs" by simp
  let ?l = "of_nat (length (fs ! i)) :: u32"
  have "length (fs ! i) < 2 ^ 32" "length (fs ! i) \<noteq> 0" using f i by auto
  then have "unat ?l \<noteq> 0" by (simp add: unat_of_nat_u32)
  then have "?l \<noteq> 0" by auto
  then have "cpu_to_uimage ?l \<noteq> 0"
    using uimage_inverse [of ?l] by (auto simp: uimage_to_cpu_def be32_to_cpu_def simp del: uimage_inverse)
  moreover have "unat (of_nat i :: u32) = i" using i n by (simp add: unat_of_nat_u32)
  ultimately have "count_loop m tab (of_nat i) c = count_loop m tab (of_nat (i + 1)) (c + 1)"
    using size_table_words(1) [OF t i] by (subst count_loop.simps) (simp add: add.commute)
  also have "\<dots> = Some (c + 1 + of_nat (length fs - (i + 1)))" using Suc i by (intro Suc(1)) auto
  also have "\<dots> = Some (c + of_nat (length fs - i))" using i by (simp add: of_nat_diff)
  finally show ?case .
qed

lemma multi_getimg_eq:
  assumes pl: "bytes_at m (unat a + 64) (length (size_table files @ copy_files files)) = size_table files @ copy_files files"
    and f: "\<forall>f \<in> set files. f \<noteq> []" and n: "unat a + 64 + length (size_table files @ copy_files files) + 3 < 2 ^ 32"
  shows "image_multi_count m a = Some (of_nat (length files)) \<and> (\<forall>i < length files. \<exists>data.
      image_multi_getimg m a (of_nat i) = Some (data, of_nat (length (files ! i)))
      \<and> bytes_at m (unat data) (length (files ! i)) = files ! i)"
proof -
  let ?t = "unat a + 64" and ?n = "length files"
  have t: "bytes_at m ?t (4 * ?n + 4) = size_table files"
    "bytes_at m (?t + (4 * ?n + 4)) (length (copy_files files)) = copy_files files"
    using pl bytes_at_append [of m ?t "4 * ?n + 4" "length (copy_files files)"] by simp_all
  have small: "length f + 3 < 2 ^ 32" if mem: "f \<in> set files" for f
  proof -
    obtain i where "i < ?n" "f = files ! i" using mem by (auto simp: in_set_conv_nth)
    then show ?thesis using copy_files_at [OF t(2), of i] n by simp
  qed
  have ft: "\<forall>f \<in> set files. f \<noteq> [] \<and> length f < 2 ^ 32" using f small by fastforce
  have nn: "?n < 2 ^ 32" "unat (image_get_data a) = ?t" using n by (simp_all add: unat_data)
  have cnt: "image_multi_count m a = Some (of_nat ?n)"
    using count_loop_eq [OF t(1) ft nn(1), of 0 0] nn(2) by (simp add: image_multi_count_def)
  moreover have "\<exists>data. image_multi_getimg m a (of_nat i) = Some (data, of_nat (length (files ! i)))
      \<and> bytes_at m (unat data) (length (files ! i)) = files ! i" if i: "i < ?n" for i
  proof -
    note ca = copy_files_at [OF t(2) i]
    have "unat (of_nat i :: u32) = i" using i nn(1) by (simp add: unat_of_nat_u32)
    moreover have "(of_nat i :: u32) < of_nat ?n" using i nn(1) by (simp add: word_less_nat_alt unat_of_nat_u32)
    moreover have "image_get_data a + (of_nat ?n + 1) * 4 + of_nat (file_offset files i)
        = of_nat (?t + (4 * ?n + 4) + file_offset files i)"
    proof -
      have "image_get_data a = of_nat ?t" by (simp flip: nn(2))
      then show ?thesis by (simp add: algebra_simps)
    qed
    moreover have "unat (of_nat (?t + (4 * ?n + 4) + file_offset files i) :: u32) = ?t + (4 * ?n + 4) + file_offset files i"
      using ca n i by (intro unat_of_nat_u32) simp
    ultimately show ?thesis
      using cnt nn(2) size_table_words(1) [OF t(1) i] offset_loop_eq [OF t(1), of i] small i ca
      by (simp add: image_multi_getimg_def Let_def mult.commute)
  qed
  ultimately show ?thesis by blast
qed

section \<open>Properties\<close>

lemma mkimage_correct:
  assumes img: "bytes_at m (unat a) (length (mkimage par files)) = mkimage par files"
    and n: "unat a + 64 + length (payload par files) + 3 < 2 ^ 32"
    and f: "files \<noteq> [] \<and> (\<forall>f \<in> set files. f \<noteq> [])"
  shows "image_check_magic m a \<and> image_check_hcrc m a \<and> image_check_dcrc m a
    \<and> image_verify_header m a (of_nat (length (mkimage par files))) = 0
    \<and> image_get_load m a = p_addr par \<and> image_get_ep m a = p_ep par \<and> image_get_os m a = p_os par
    \<and> image_get_arch m a = p_arch par \<and> image_get_type m a = p_type par \<and> image_get_comp m a = p_comp par
    \<and> image_get_time m a = st_mtime par \<and> image_get_size m a = of_nat (length (payload par files))
    \<and> bytes_at m (unat (image_get_name a)) IH_NMLEN = take IH_NMLEN (imagename par @ replicate IH_NMLEN 0)
    \<and> (if p_type par = IH_TYPE_MULTI \<or> p_type par = IH_TYPE_SCRIPT
       then image_multi_count m a = Some (of_nat (length files)) \<and> (\<forall>i < length files. \<exists>data.
           image_multi_getimg m a (of_nat i) = Some (data, of_nat (length (files ! i)))
           \<and> bytes_at m (unat data) (length (files ! i)) = files ! i)
       else bytes_at m (unat (image_get_data a)) (unat (image_get_data_size m a)) = hd files)"
proof -
  let ?pl = "payload par files" and ?d = "of_nat (length (payload par files)) :: u32"
  let ?h = "crc_of (header_bytes par ?d (crc_of ?pl) 0)"
  have e: "mkimage par files = header_bytes par ?d (crc_of ?pl) ?h @ ?pl"
    using mkimage_bytes [of par files] n by (simp add: built_header_def Let_def)
  have m: "bytes_at m (unat a) 64 = header_bytes par ?d (crc_of ?pl) ?h"
    "bytes_at m (unat a + 64) (length ?pl) = ?pl"
    using img bytes_at_append [of m "unat a" 64 "length ?pl"] by (simp_all add: e)
  note hf = header_fields [OF m(1)]
  have u: "unat ?d = length ?pl" "unat (image_get_data a) = unat a + 64"
    using n by (simp_all add: unat_of_nat_u32 unat_data)
  have dcrc: "image_check_dcrc m a"
    using hf u m(2) by (simp add: image_check_dcrc_def crc32_wd_def crc32_crc_of image_get_data_size_def)
  have hcrc: "image_check_hcrc m a" using header_hcrc [OF m(1)] by simp
  have "image_verify_header m a (of_nat (length (mkimage par files))) = 0"
  proof -
    have "bytes_at (header_copy m a) 0 64 = header_bytes par ?d (crc_of ?pl) ?h"
      using m(1) by (simp add: header_copy_bytes)
    note hc = header_fields(1,2,7) [where a = 0, simplified, OF this, unfolded image_get_magic_def image_get_hcrc_def
        image_get_dcrc_def uimage_to_cpu_def, simplified]
    have "load32 (store32 (header_copy m a) 4 v) 24 = load32 (header_copy m a) 24" for v
      by (simp add: load32_def store32_def)
    moreover have "crc32 (store32 (header_copy m a) 4 (be32_to_cpu 0)) 0 0 64 = ?h"
      using hcrc hf(2) by (simp add: image_check_hcrc_def image_set_hcrc_def cpu_to_uimage_def image_get_header_size_def)
    moreover have "unat (of_nat (length (mkimage par files)) - 64 :: u32) = length ?pl"
      using u(1) by (simp add: e)
    ultimately show ?thesis using hc m(2) by (simp add: image_verify_header_def crc32_crc_of Let_def)
  qed
  moreover have "if p_type par = IH_TYPE_MULTI \<or> p_type par = IH_TYPE_SCRIPT
       then image_multi_count m a = Some (of_nat (length files)) \<and> (\<forall>i < length files. \<exists>data.
           image_multi_getimg m a (of_nat i) = Some (data, of_nat (length (files ! i)))
           \<and> bytes_at m (unat data) (length (files ! i)) = files ! i)
       else bytes_at m (unat (image_get_data a)) (unat (image_get_data_size m a)) = hd files"
  proof (cases "p_type par = IH_TYPE_MULTI \<or> p_type par = IH_TYPE_SCRIPT")
    case True
    then have "?pl = size_table files @ copy_files files" by (simp add: payload_def)
    then show ?thesis using True multi_getimg_eq [of m a files] m(2) n f by simp
  next
    case False
    then have "?pl = hd files" by (simp add: payload_def copy_file_def Let_def)
    then show ?thesis using False m(2) u hf(4) by (simp add: image_get_data_size_def)
  qed
  moreover have "bytes_at m (unat (image_get_name a)) IH_NMLEN = take IH_NMLEN (imagename par @ replicate IH_NMLEN 0)"
    using header_name [OF m(1)] n by simp
  ultimately show ?thesis using hf hcrc dcrc by (simp add: image_check_magic_def)
qed

text \<open>C7: what \<open>mkimage\<close> builds, the loader accepts at any address: magic number, header checksum
  and data checksum are right and every field reads back, the time, the size of the data and the
  name (cut off at 32 bytes and padded with zeros) as well; the files of a multi-file image or
  script come out as they went in, one by one; a single file is the whole payload.\<close>

theorem mkimage_roundtrip:
  assumes "bytes_at m (unat a) (length (mkimage par files)) = mkimage par files"
    and "unat a + 64 + length (payload par files) + 3 < 2 ^ 32"
    and "files \<noteq> [] \<and> (\<forall>f \<in> set files. f \<noteq> [])"
  shows "image_check_magic m a \<and> image_check_hcrc m a \<and> image_check_dcrc m a
    \<and> image_verify_header m a (of_nat (length (mkimage par files))) = 0
    \<and> image_get_load m a = p_addr par \<and> image_get_ep m a = p_ep par \<and> image_get_os m a = p_os par
    \<and> image_get_arch m a = p_arch par \<and> image_get_type m a = p_type par \<and> image_get_comp m a = p_comp par
    \<and> image_get_time m a = st_mtime par \<and> image_get_size m a = of_nat (length (payload par files))
    \<and> bytes_at m (unat (image_get_name a)) IH_NMLEN = take IH_NMLEN (imagename par @ replicate IH_NMLEN 0)
    \<and> (if p_type par = IH_TYPE_MULTI \<or> p_type par = IH_TYPE_SCRIPT
       then image_multi_count m a = Some (of_nat (length files)) \<and> (\<forall>i < length files. \<exists>data.
           image_multi_getimg m a (of_nat i) = Some (data, of_nat (length (files ! i)))
           \<and> bytes_at m (unat data) (length (files ! i)) = files ! i)
       else bytes_at m (unat (image_get_data a)) (unat (image_get_data_size m a)) = hd files)"
  by (rule mkimage_correct [OF assms])

definition sample_params :: mkimage_params where
  "sample_params = \<lparr>p_addr = 0xA0008000, p_ep = 0xA0008001, p_os = IH_OS_LINUX, p_arch = IH_ARCH_ARM,
     p_type = IH_TYPE_MULTI, p_comp = IH_COMP_NONE, imagename = [76, 105, 110, 117, 120, 0], st_mtime = 0\<rparr>"

definition image_at :: "nat \<Rightarrow> u8 list \<Rightarrow> mem" where
  "image_at a img = (\<lambda>i. if a \<le> i \<and> i < a + length img then img ! (i - a) else 0)"

lemma bytes_at_image_at: "bytes_at (image_at a img) a (length img) = img"
  by (auto simp: image_at_def intro!: nth_equalityI)

theorem mkimage_roundtrip_witness:
  "let files = [[1, 2, 3, 4, 5], [6, 7]]; m = image_at 0xA0007FC0 (mkimage sample_params files) in
     image_check_magic m 0xA0007FC0 \<and> image_check_hcrc m 0xA0007FC0 \<and> image_check_dcrc m 0xA0007FC0
     \<and> image_get_ep m 0xA0007FC0 = 0xA0008001 \<and> image_get_size m 0xA0007FC0 = 22
     \<and> bytes_at m 0xA0007FE0 32 = [76, 105, 110, 117, 120, 0] @ replicate 26 0 \<and> image_multi_count m 0xA0007FC0 = Some 2
     \<and> (\<exists>data. image_multi_getimg m 0xA0007FC0 1 = Some (data, 2) \<and> bytes_at m (unat data) 2 = [6, 7])"
proof -
  let ?files = "[[1, 2, 3, 4, 5], [6, 7]] :: u8 list list" and ?a = "0xA0007FC0 :: u32"
  let ?m = "image_at 0xA0007FC0 (mkimage sample_params ?files)"
  have t: "p_type sample_params = IH_TYPE_MULTI" by (simp add: sample_params_def)
  have n: "unat ?a + 64 + length (payload sample_params ?files) + 3 < 2 ^ 32"
    by (simp add: payload_def t copy_file_def)
  have "bytes_at ?m (unat ?a) (length (mkimage sample_params ?files)) = mkimage sample_params ?files"
    using bytes_at_image_at [of "0xA0007FC0"] by simp
  note r = mkimage_roundtrip [OF this n]
  have "\<exists>data. image_multi_getimg ?m ?a (of_nat 1) = Some (data, of_nat (length (?files ! 1)))
      \<and> bytes_at ?m (unat data) (length (?files ! 1)) = ?files ! 1"
    using r t by (metis (no_types, lifting) One_nat_def length_Cons lessI list.distinct(1) list.size(3) set_ConsD empty_iff empty_set)
  then have ex: "\<exists>data. image_multi_getimg ?m ?a 1 = Some (data, 2) \<and> bytes_at ?m (unat data) 2 = [6, 7]"
    by (simp add: numeral_2_eq_2)
  have ep: "p_ep sample_params = 0xA0008001" by (simp add: sample_params_def)
  have len: "length (payload sample_params ?files) = 22" by (simp add: payload_def t copy_file_def)
  have name: "take 32 (imagename sample_params @ replicate 32 0) = [76, 105, 110, 117, 120, 0] @ replicate 26 0"
    "unat (image_get_name ?a) = 0xA0007FE0" by (simp_all add: sample_params_def image_get_name_def)
  show ?thesis unfolding Let_def using r [unfolded len name] t ex ep by simp
qed

section \<open>A corrupted byte is detected\<close>

lemma crc_shift_inj: "crc_shift c = crc_shift d \<Longrightarrow> c = d"
proof -
  assume e: "crc_shift c = crc_shift d"
  have top: "bit (crc_shift w) 31 \<longleftrightarrow> bit w 0" for w
    by (auto simp: crc_shift_bit crc_poly_def bit_simps dest: bit_imp_le_length)
  then have b: "bit c 0 = bit d 0" using e by metis
  then have s: "drop_bit 1 c = drop_bit 1 d"
  proof (cases "bit d 0")
    case True
    then have "crc_poly XOR drop_bit 1 c = crc_poly XOR drop_bit 1 d" using e b unfolding crc_shift_bit by simp
    then have "crc_poly XOR (crc_poly XOR drop_bit 1 c) = crc_poly XOR (crc_poly XOR drop_bit 1 d)" by simp
    then show ?thesis by (simp flip: xor.assoc)
  next
    case False
    then show ?thesis using e b unfolding crc_shift_bit by simp
  qed
  show "c = d"
  proof (rule bit_word_eqI)
    fix n assume "n < LENGTH(32)"
    show "bit c n = bit d n"
    proof (cases n)
      case (Suc k)
      have "bit (drop_bit 1 c) k = bit (drop_bit 1 d) k" by (simp only: s)
      then show ?thesis by (simp add: Suc bit_drop_bit_eq)
    qed (use b in simp)
  qed
qed

lemma crc_byte_inj: "crc_byte c x = crc_byte d x \<Longrightarrow> c = d" "crc_byte c x = crc_byte c y \<Longrightarrow> x = y"
proof -
  have sh: "(crc_shift ^^ k) c = (crc_shift ^^ k) d \<Longrightarrow> c = d" for k c d
    by (induction k) (auto dest: crc_shift_inj)
  have x: "a XOR b = a XOR c \<longleftrightarrow> b = c" for a b c :: u32
    by (metis xor.left_commute xor_self_eq xor.right_neutral)
  show "crc_byte c x = crc_byte d x \<Longrightarrow> c = d"
    using sh x by (simp add: crc_byte_def) (metis xor.commute)
  assume "crc_byte c x = crc_byte c y"
  then have "ucast x = (ucast y :: u32)" using sh x by (simp add: crc_byte_def) metis
  then have "unat (ucast x :: u32) = unat (ucast y :: u32)" by simp
  moreover have "unat (ucast w :: u32) = unat w" for w :: u8
  proof -
    have "unat w < 2 ^ LENGTH(8)" by (rule unsigned_less)
    then show ?thesis by (simp add: unsigned_ucast_eq take_bit_nat_eq_self)
  qed
  ultimately show "x = y" by (simp add: word_unat_eq_iff)
qed

lemma foldl_crc_inj: "foldl crc_byte c xs = foldl crc_byte d xs \<Longrightarrow> c = d"
  by (induction xs arbitrary: c d) (auto dest: crc_byte_inj(1))

lemma crc_of_byte: "x \<noteq> y \<Longrightarrow> crc_of (xs @ x # ys) \<noteq> crc_of (xs @ y # ys)"
proof
  assume "x \<noteq> y" "crc_of (xs @ x # ys) = crc_of (xs @ y # ys)"
  let ?c = "foldl crc_byte 0xffffffff xs"
  have "v = w" if "v XOR u = w XOR u" for u v w :: u32
  proof -
    have "(v XOR u) XOR u = (w XOR u) XOR u" by (simp only: that)
    then show ?thesis by (simp add: xor.assoc)
  qed
  then have "foldl crc_byte (crc_byte ?c x) ys = foldl crc_byte (crc_byte ?c y) ys"
    using \<open>crc_of (xs @ x # ys) = crc_of (xs @ y # ys)\<close> unfolding crc_of_def by force
  then show False using \<open>x \<noteq> y\<close> by (blast dest: foldl_crc_inj crc_byte_inj(2))
qed

text \<open>C38: an image whose data differ from a good one in a single byte is refused: no change of one
  byte of the payload, wherever it is, can leave the data checksum right.\<close>

theorem dcrc_detects_byte:
  assumes ok: "image_check_dcrc m a" and p: "unat a + 64 \<le> p" "p < unat a + 64 + unat (image_get_size m a)"
    and n: "unat a + 64 + unat (image_get_size m a) < 2 ^ 32" and x: "x \<noteq> m p"
  shows "\<not> image_check_dcrc (m(p := x)) a"
proof -
  let ?m = "m(p := x)" and ?s = "unat a + 64" and ?l = "unat (image_get_size m a)"
  have g: "image_get_size ?m a = image_get_size m a" "image_get_dcrc ?m a = image_get_dcrc m a"
    using p by (simp_all add: image_get_size_def image_get_dcrc_def load32_def)
  have d: "unat (image_get_data a) = ?s" using n by (simp add: unat_data)
  obtain k where k: "p = ?s + k" "k < ?l" using p by (metis le_Suc_ex nat_add_left_cancel_less)
  have sp: "bytes_at w ?s ?l = bytes_at w ?s k @ w p # bytes_at w (p + 1) (?l - (k + 1))" for w
  proof -
    have "bytes_at w ?s (k + (1 + (?l - (k + 1)))) = bytes_at w ?s k @ w p # bytes_at w (p + 1) (?l - (k + 1))"
      unfolding bytes_at_append k(1) by (simp add: bytes_at_Suc add.assoc)
    then show ?thesis using k(2) by simp
  qed
  have "bytes_at ?m ?s k = bytes_at m ?s k" "bytes_at ?m (p + 1) (?l - (k + 1)) = bytes_at m (p + 1) (?l - (k + 1))"
    by (simp_all add: bytes_at_upd k(1))
  then have "crc_of (bytes_at ?m ?s ?l) \<noteq> crc_of (bytes_at m ?s ?l)"
    unfolding sp [of m] sp [of ?m] using crc_of_byte [OF x] by simp
  then show ?thesis
    using ok g d by (simp add: image_check_dcrc_def crc32_wd_def crc32_crc_of image_get_data_size_def)
qed

theorem dcrc_detects_byte_witness:
  "let m = (\<lambda>_. 0)(15 := 1, 24 := 0xD2, 25 := 0x02, 26 := 0xEF, 27 := 0x8D) in
     image_check_dcrc m 0 \<and> (\<forall>x. x \<noteq> 0 \<longrightarrow> \<not> image_check_dcrc (m(64 := x)) 0)"
proof -
  let ?m = "(\<lambda>_. 0)(15 := 1, 24 := 0xD2, 25 := 0x02, 26 := 0xEF, 27 := 0x8D) :: mem"
  have s: "image_get_size ?m 0 = 1" by code_simp
  have c: "crc_of [0] = 0xD202EF8D" by code_simp
  have "image_get_dcrc ?m 0 = 0xD202EF8D" by code_simp
  then have ok: "image_check_dcrc ?m 0"
    using c s by (simp add: image_check_dcrc_def crc32_wd_def crc32_crc_of image_get_data_size_def bytes_at_def
        image_get_data_def image_get_header_size_def)
  have "\<not> image_check_dcrc (?m(64 := x)) 0" if "x \<noteq> 0" for x
    using that s by (intro dcrc_detects_byte [OF ok]) simp_all
  with ok show ?thesis by (simp add: Let_def)
qed

end
