(* ===== verification/Bootm.thy ===== *)
theory Bootm
  imports Volkh Lmb Image
begin

text \<open>
  Booting an image: the legacy half of \<^verbatim>\<open>common/cmd_bootm.c\<close> with its state machine of
  sub-commands, the ramdisk handling of \<^verbatim>\<open>common/image.c\<close>, the ARM Linux start of
  \<^verbatim>\<open>lib_arm/bootm.c\<close> with the tag list, and \<^verbatim>\<open>gunzip.c\<close> around zlib.

  What happens after control was passed to an image is not part of the program: \<open>Enters\<close> is the
  end of a run, with the entry point and the arguments.  zlib's \<^verbatim>\<open>inflate\<close> (whose set-up is taken to succeed), the standalone
  application and the stack pointer are fields of a record of parameters.  \<^verbatim>\<open>malloc\<close> for the
  NetBSD command line is taken to succeed.  Interrupts are never enabled on this board
  (\<^verbatim>\<open>disable_interrupts\<close> returns 0), so they are left out.  Progress messages are left out as
  well, but the description of an image is computed, because counting the files of a broken
  multi-file image may never end.
\<close>

section \<open>State\<close>

record image_info =
  os_start :: u32
  os_end :: u32
  image_start :: u32
  image_len :: u32
  os_load :: u32
  os_comp :: u8
  os_type :: u8
  os_os :: u8

record bootm_headers =
  legacy_hdr_os :: u32
  legacy_hdr_os_copy :: mem
  legacy_hdr_valid :: bool
  os :: image_info
  ep :: u32
  rd_start :: u32
  rd_end :: u32
  initrd_start :: u32
  initrd_end :: u32
  verify :: int
  state :: int
  hlmb :: lmb

record boot_state =
  bmem :: mem
  benv :: ubenv
  images :: bootm_headers

record board =
  bi_dram_start :: u32
  bi_dram_size :: u32
  bi_arch_number :: u32
  bi_boot_params :: u32
  get_sp :: u32
  inflate :: "mem \<Rightarrow> u32 \<Rightarrow> u32 \<Rightarrow> u32 \<Rightarrow> u32 \<Rightarrow> bool \<times> u32 \<times> mem"
  appl :: "u32 \<Rightarrow> string list \<Rightarrow> boot_state \<Rightarrow> boot_state"

datatype entry_args = Linux_args u32 u32 | Netbsd_args u32 string string | Rtems_args

datatype outcome = Returns int | Enters u32 entry_args | Resets

section \<open>Environment variables\<close>

definition getenv_yesno :: "env_cfg \<Rightarrow> ubenv \<Rightarrow> string \<Rightarrow> int option" where
  "getenv_yesno cfg e var = do {
     s \<leftarrow> getenv_str cfg e var;
     Some (case s of Some (CHR ''n'' # _) \<Rightarrow> 0 | _ \<Rightarrow> 1)
   }"

definition getenv_bootm_low :: "env_cfg \<Rightarrow> board \<Rightarrow> ubenv \<Rightarrow> u32 option" where
  "getenv_bootm_low cfg bd e = do {
     s \<leftarrow> getenv_str cfg e ''bootm_low'';
     Some (case s of Some s \<Rightarrow> fst (simple_strtoul s 16) | None \<Rightarrow> bi_dram_start bd)
   }"

definition getenv_bootm_size :: "env_cfg \<Rightarrow> board \<Rightarrow> ubenv \<Rightarrow> u32 option" where
  "getenv_bootm_size cfg bd e = do {
     s \<leftarrow> getenv_str cfg e ''bootm_size'';
     Some (case s of Some s \<Rightarrow> ucast (fst (simple_strtoull s 16)) | None \<Rightarrow> bi_dram_size bd)
   }"

definition memmove_wd :: "mem \<Rightarrow> u32 \<Rightarrow> u32 \<Rightarrow> u32 \<Rightarrow> mem" where
  "memmove_wd m dst src len = fst (memmove m (unat dst) (unat src) (unat len))"

section \<open>The kernel image\<close>

definition image_get_kernel :: "mem \<Rightarrow> u32 \<Rightarrow> int \<Rightarrow> u32 option" where
  "image_get_kernel m img_addr ver = (let hdr = img_addr in
     if \<not> image_check_magic m hdr then Some 0
     else if \<not> image_check_hcrc m hdr then Some 0
     else do {
       _ \<leftarrow> image_print_contents m hdr;
       if ver \<noteq> 0 \<and> \<not> image_check_dcrc m hdr then Some 0
       else if \<not> image_check_target_arch m hdr then Some 0
       else Some hdr
     })"

text \<open>The result is the address of the image, or 0; start and length of the kernel data are
  stored in \<open>images.os\<close>, which \<^verbatim>\<open>bootm_start\<close> has cleared.\<close>

definition boot_get_kernel :: "env_cfg \<Rightarrow> boot_state \<Rightarrow> string list \<Rightarrow> (u32 \<times> boot_state) option" where
  "boot_get_kernel cfg st argv = (let
     m = bmem st;
     img_addr = (if length argv < 2 then load_addr (benv st) else fst (simple_strtoul (argv ! 1) 16));
     img_addr = genimg_get_image img_addr;
     set_os = (\<lambda>st data len. st\<lparr>images := (images st)\<lparr>os := (os (images st))
       \<lparr>image_start := data, image_len := len\<rparr>\<rparr>\<rparr>);
     st = set_os st 0 0
   in if genimg_get_format m img_addr = IMAGE_FORMAT_LEGACY then do {
     hdr \<leftarrow> image_get_kernel m img_addr (verify (images st));
     if hdr = 0 then Some (0, st)
     else do {
       r \<leftarrow> (if image_get_type m hdr = IH_TYPE_KERNEL \<or> image_get_type m hdr = IH_TYPE_STANDALONE
           then Some (Some (image_get_data hdr, image_get_data_size m hdr))
         else if image_get_type m hdr = IH_TYPE_MULTI
           then do { x \<leftarrow> image_multi_getimg m hdr 0; Some (Some x) }
         else Some None);
       case r of None \<Rightarrow> Some (0, st)
       | Some (data, len) \<Rightarrow>
           let st = set_os st data len
           in Some (img_addr, st\<lparr>images := (images st)\<lparr>legacy_hdr_os_copy := header_copy m hdr,
                legacy_hdr_os := hdr, legacy_hdr_valid := True\<rparr>\<rparr>)
     }
   } else Some (0, st))"

section \<open>The ramdisk\<close>

definition image_get_ramdisk :: "mem \<Rightarrow> u32 \<Rightarrow> u8 \<Rightarrow> int \<Rightarrow> u32 option" where
  "image_get_ramdisk m rd_addr arch ver = (let rd_hdr = rd_addr in
     if \<not> image_check_magic m rd_hdr then Some 0
     else if \<not> image_check_hcrc m rd_hdr then Some 0
     else do {
       _ \<leftarrow> image_print_contents m rd_hdr;
       if ver \<noteq> 0 \<and> \<not> image_check_dcrc m rd_hdr then Some 0
       else if \<not> image_check_os m rd_hdr IH_OS_LINUX \<or> \<not> image_check_arch m rd_hdr arch
         \<or> \<not> image_check_type m rd_hdr IH_TYPE_RAMDISK then Some 0
       else Some rd_hdr
     })"

text \<open>The return value, \<open>rd_start\<close> and \<open>rd_end\<close>.\<close>

definition boot_get_ramdisk :: "mem \<Rightarrow> string list \<Rightarrow> bootm_headers \<Rightarrow> u8 \<Rightarrow> (int \<times> u32 \<times> u32) option" where
  "boot_get_ramdisk m argv im arch = do {
     let multi = legacy_hdr_valid im \<and> image_check_type (legacy_hdr_os_copy im) 0 IH_TYPE_MULTI;
     let dash = 3 \<le> length argv \<and> strcmp_s (argv ! 2) ''-'' = 0;
     two \<leftarrow> (if \<not> dash \<and> multi then do {
         c \<leftarrow> image_multi_count m (legacy_hdr_os im);
         Some (c = 2)
       } else Some False);
     r \<leftarrow> (if dash \<or> two then Some (Some (0, 0))
       else if 3 \<le> length argv then (let
           rd_addr = fst (simple_strtoul (argv ! 2) 16);
           rd_addr = genimg_get_image rd_addr
         in if genimg_get_format m rd_addr = IMAGE_FORMAT_LEGACY then do {
             rd_hdr \<leftarrow> image_get_ramdisk m rd_addr arch (verify im);
             if rd_hdr = 0 then Some None
             else Some (Some (image_get_data rd_hdr, image_get_data_size m rd_hdr))
           } else Some None)
       else if multi then do { x \<leftarrow> image_multi_getimg m (legacy_hdr_os im) 1; Some (Some x) }
       else Some (Some (0, 0)));
     Some (case r of None \<Rightarrow> (1, 0, 0)
       | Some (rd_data, rd_len) \<Rightarrow>
           if rd_data = 0 then (0, 0, 0) else (0, rd_data, rd_data + rd_len))
   }"

text \<open>Moving the ramdisk: return value and the state with \<open>initrd_start\<close> and \<open>initrd_end\<close>.\<close>

definition boot_ramdisk_high :: "env_cfg \<Rightarrow> boot_state \<Rightarrow> u32 \<Rightarrow> u32 \<Rightarrow> (int \<times> boot_state) option" where
  "boot_ramdisk_high cfg st rd_data rd_len = do {
     s \<leftarrow> getenv_str cfg (benv st) ''initrd_high'';
     let initrd_high = (case s of Some s \<Rightarrow> fst (simple_strtoul s 16) | None \<Rightarrow> 0xffffffff);
     let initrd_copy_to_ram = \<not> (s \<noteq> None \<and> initrd_high = 0xffffffff);
     let im = images st;
     if rd_data = 0 then Some (0, st\<lparr>images := im\<lparr>initrd_start := 0, initrd_end := 0\<rparr>\<rparr>)
     else if \<not> initrd_copy_to_ram then do {
       (_, l) \<leftarrow> lmb_reserve (hlmb im) rd_data rd_len;
       Some (0, st\<lparr>images := im\<lparr>initrd_start := rd_data, initrd_end := rd_data + rd_len, hlmb := l\<rparr>\<rparr>)
     } else do {
       (a, l) \<leftarrow> (if initrd_high \<noteq> 0 then lmb_alloc_base (hlmb im) rd_len 0x1000 initrd_high
         else lmb_alloc (hlmb im) rd_len 0x1000);
       let st = st\<lparr>images := im\<lparr>initrd_start := a, hlmb := l\<rparr>\<rparr>;
       if a = 0 then Some (- 1, st)
       else Some (0, st\<lparr>images := (images st)\<lparr>initrd_end := a + rd_len\<rparr>,
              bmem := memmove_wd (bmem st) a rd_data rd_len\<rparr>)
     }
   }"

section \<open>Decompression\<close>

text \<open>\<^verbatim>\<open>gunzip\<close> skips the header; a loop over the name or the comment ends at a NUL.\<close>

partial_function (option) skip_text :: "mem \<Rightarrow> addr \<Rightarrow> nat \<Rightarrow> nat option" where
  "skip_text m src i = (if m (src + i) \<noteq> 0 then skip_text m src (i + 1) else Some (i + 1))"

text \<open>The parameter \<open>inflate\<close> is zlib's decoder of raw blocks: whether it reached the end of the
  stream, the end of the output and the store.\<close>

definition zunzip :: "board \<Rightarrow> mem \<Rightarrow> u32 \<Rightarrow> u32 \<Rightarrow> u32 \<Rightarrow> u32 \<Rightarrow> bool \<Rightarrow> u32 \<Rightarrow> int \<times> u32 \<times> mem" where
  "zunzip bd m dst dstlen src len stoponerr offset = (let
     (stream_end, next_out, m) = inflate bd m (src + offset) (len - offset) dst dstlen
   in if \<not> stream_end \<and> stoponerr then (- 1, len, m) else (0, next_out - dst, m))"

definition gunzip :: "board \<Rightarrow> mem \<Rightarrow> u32 \<Rightarrow> u32 \<Rightarrow> u32 \<Rightarrow> u32 \<Rightarrow> (int \<times> u32 \<times> mem) option" where
  "gunzip bd m dst dstlen src len = (let s = unat src; flags = m (s + 3) in
     if m (s + 2) \<noteq> 8 \<or> flags AND 0xe0 \<noteq> 0 then Some (- 1, len, m)
     else do {
       let i = (if flags AND 4 \<noteq> 0 then 12 + unat (m (s + 10)) + unat (m (s + 11)) * 256 else 10);
       i \<leftarrow> (if flags AND 8 \<noteq> 0 then skip_text m s i else Some i);
       i \<leftarrow> (if flags AND 0x10 \<noteq> 0 then skip_text m s i else Some i);
       let i = (if flags AND 2 \<noteq> 0 then i + 2 else i);
       if unat len \<le> i then Some (- 1, len, m)
       else Some (zunzip bd m dst dstlen src len True (of_nat i))
     })"

section \<open>Loading\<close>

abbreviation (input) CONFIG_SYS_BOOTM_LEN :: u32 where "CONFIG_SYS_BOOTM_LEN \<equiv> 0x800000"
abbreviation (input) BOOTM_ERR_RESET :: int where "BOOTM_ERR_RESET \<equiv> - 1"
abbreviation (input) BOOTM_ERR_OVERLAP :: int where "BOOTM_ERR_OVERLAP \<equiv> - 2"
abbreviation (input) BOOTM_ERR_UNIMPLEMENTED :: int where "BOOTM_ERR_UNIMPLEMENTED \<equiv> - 3"

text \<open>The return value, \<open>load_end\<close> and the store; \<open>load_end0\<close> is the value before the call.\<close>

definition bootm_load_os :: "board \<Rightarrow> mem \<Rightarrow> image_info \<Rightarrow> u32 \<Rightarrow> (int \<times> u32 \<times> mem) option" where
  "bootm_load_os bd m oi load_end0 = (let
     load = os_load oi;
     blob_start = os_start oi;
     blob_end = os_end oi;
     start = image_start oi;
     len = image_len oi;
     overlap = (\<lambda>load_end. if load < blob_end \<and> blob_start < load_end
         \<and> (load < start \<or> start + len < load_end) then BOOTM_ERR_OVERLAP else 0)
   in if os_comp oi = IH_COMP_NONE then (let
         m = (if load \<noteq> blob_start \<and> load \<noteq> start then memmove_wd m load start len else m);
         load_end = load + len
       in Some (overlap load_end, load_end, m))
     else if os_comp oi = IH_COMP_GZIP then do {
       (ret, unc_len, m) \<leftarrow> gunzip bd m load CONFIG_SYS_BOOTM_LEN start len;
       if ret \<noteq> 0 then Some (BOOTM_ERR_RESET, load_end0, m)
       else let load_end = load + unc_len in Some (overlap load_end, load_end, m)
     }
     else Some (BOOTM_ERR_UNIMPLEMENTED, load_end0, m))"

definition IH_INITRD_ARCH :: u8 where "IH_INITRD_ARCH = IH_ARCH_ARM"

section \<open>Starting\<close>

text \<open>\<^verbatim>\<open>arch_lmb_reserve\<close> keeps the memory above the stack, if the stack is in external RAM.\<close>

definition arch_lmb_reserve :: "board \<Rightarrow> lmb \<Rightarrow> lmb option" where
  "arch_lmb_reserve bd l = (let sp = get_sp bd - 1024 in
     if bi_dram_start bd \<le> sp \<and> sp < bi_dram_start bd + bi_dram_size bd
     then map_option snd (lmb_reserve l sp (bi_dram_start bd + bi_dram_size bd - sp))
     else Some l)"

definition bootm_start_lmb :: "env_cfg \<Rightarrow> board \<Rightarrow> boot_state \<Rightarrow> boot_state option" where
  "bootm_start_lmb cfg bd st = do {
     let l = lmb_init (hlmb (images st));
     mem_start \<leftarrow> getenv_bootm_low cfg bd (benv st);
     mem_size \<leftarrow> getenv_bootm_size cfg bd (benv st);
     (_, l) \<leftarrow> lmb_add l mem_start mem_size;
     l \<leftarrow> arch_lmb_reserve bd l;
     Some (st\<lparr>images := (images st)\<lparr>hlmb := l\<rparr>\<rparr>)
   }"

text \<open>\<open>memset (&images, 0, sizeof (images))\<close>\<close>

definition cleared_images :: bootm_headers where
  "cleared_images = \<lparr>legacy_hdr_os = 0, legacy_hdr_os_copy = (\<lambda>_. 0), legacy_hdr_valid = False,
     os = \<lparr>os_start = 0, os_end = 0, image_start = 0, image_len = 0, os_load = 0, os_comp = 0,
       os_type = 0, os_os = 0\<rparr>,
     ep = 0, rd_start = 0, rd_end = 0, initrd_start = 0, initrd_end = 0, verify = 0, state = 0,
     hlmb = (let r = \<lparr>cnt = 0, tsize = 0, region = replicate 9 \<lparr>base = 0, psize = 0\<rparr>\<rparr>
       in \<lparr>memory = r, reserved = r\<rparr>)\<rparr>"

definition BOOTM_STATE_START :: int where "BOOTM_STATE_START = 1"
definition BOOTM_STATE_LOADOS :: int where "BOOTM_STATE_LOADOS = 2"
definition BOOTM_STATE_RAMDISK :: int where "BOOTM_STATE_RAMDISK = 4"
definition BOOTM_STATE_OS_CMDLINE :: int where "BOOTM_STATE_OS_CMDLINE = 0x10"
definition BOOTM_STATE_OS_BD_T :: int where "BOOTM_STATE_OS_BD_T = 0x20"
definition BOOTM_STATE_OS_PREP :: int where "BOOTM_STATE_OS_PREP = 0x40"
definition BOOTM_STATE_OS_GO :: int where "BOOTM_STATE_OS_GO = 0x80"

definition bootm_start :: "env_cfg \<Rightarrow> board \<Rightarrow> boot_state \<Rightarrow> string list \<Rightarrow> (int \<times> boot_state) option" where
  "bootm_start cfg bd st argv = do {
     v \<leftarrow> getenv_yesno cfg (benv st) ''verify'';
     let st = st\<lparr>images := cleared_images\<lparr>verify := v\<rparr>\<rparr>;
     st \<leftarrow> bootm_start_lmb cfg bd st;
     (os_hdr, st) \<leftarrow> boot_get_kernel cfg st argv;
     let m = bmem st;
     let im = images st;
     if image_len (os im) = 0 then Some (1, st)
     else if genimg_get_format m os_hdr \<noteq> IMAGE_FORMAT_LEGACY then Some (1, st)
     else do {
       let im = im\<lparr>os := (os im)\<lparr>os_type := image_get_type m os_hdr, os_comp := image_get_comp m os_hdr,
         os_os := image_get_os m os_hdr, os_end := image_get_image_end m os_hdr,
         os_load := image_get_load m os_hdr\<rparr>\<rparr>;
       if \<not> legacy_hdr_valid im then Some (1, st\<lparr>images := im\<rparr>)
       else do {
         let im = im\<lparr>ep := image_get_ep (legacy_hdr_os_copy im) 0\<rparr>;
         (ret, im) \<leftarrow> (if (os_type (os im) = IH_TYPE_KERNEL \<or> os_type (os im) = IH_TYPE_MULTI)
               \<and> os_os (os im) = IH_OS_LINUX
             then do {
               (ret, rs, re) \<leftarrow> boot_get_ramdisk m argv im IH_INITRD_ARCH;
               Some (ret, im\<lparr>rd_start := rs, rd_end := re\<rparr>)
             } else Some (0, im));
         if ret \<noteq> 0 then Some (1, st\<lparr>images := im\<rparr>)
         else Some (0, st\<lparr>images := im\<lparr>os := (os im)\<lparr>os_start := os_hdr\<rparr>, state := BOOTM_STATE_START\<rparr>\<rparr>)
       }
     }
   }"

text \<open>A standalone application is called at \<open>ntohl (images.ep)\<close>; it may return.\<close>

definition bootm_start_standalone :: "env_cfg \<Rightarrow> board \<Rightarrow> boot_state \<Rightarrow> string list \<Rightarrow> (int \<times> boot_state) option" where
  "bootm_start_standalone cfg bd st argv = do {
     s \<leftarrow> getenv_str cfg (benv st) ''autostart'';
     if (case s of Some s \<Rightarrow> strcmp_s s ''no'' = 0 | None \<Rightarrow> False) then do {
       buf \<leftarrow> sprintf ''%lX'' [VInt (image_len (os (images st)))];
       (_, e) \<leftarrow> setenv cfg (benv st) ''filesize'' (Some buf);
       Some (0, st\<lparr>benv := e\<rparr>)
     } else Some (0, appl bd (be32_to_cpu (ep (images st))) (tl argv) st)
   }"

section \<open>The operating systems\<close>

text \<open>The tag list of Linux: \<open>params\<close> is the address of the current tag, \<^verbatim>\<open>CONFIG_NR_DRAM_BANKS\<close> is
  1, and there are no initrd, serial or revision tags.\<close>

abbreviation (input) ATAG_NONE :: u32 where "ATAG_NONE \<equiv> 0"
abbreviation (input) ATAG_CORE :: u32 where "ATAG_CORE \<equiv> 0x54410001"
abbreviation (input) ATAG_MEM :: u32 where "ATAG_MEM \<equiv> 0x54410002"
abbreviation (input) ATAG_CMDLINE :: u32 where "ATAG_CMDLINE \<equiv> 0x54410009"

definition tag_next :: "mem \<Rightarrow> u32 \<Rightarrow> u32" where
  "tag_next m params = params + 4 * load32 m (unat params)"

definition set_hdr :: "mem \<Rightarrow> u32 \<Rightarrow> u32 \<Rightarrow> u32 \<Rightarrow> mem" where
  "set_hdr m params tag sz = store32 (store32 m (unat params + 4) tag) (unat params) sz"

definition setup_start_tag :: "board \<Rightarrow> mem \<Rightarrow> mem \<times> u32" where
  "setup_start_tag bd m = (let
     params = bi_boot_params bd;
     m = set_hdr m params ATAG_CORE 5;
     m = store32 m (unat params + 8) 0;
     m = store32 m (unat params + 12) 0;
     m = store32 m (unat params + 16) 0
   in (m, tag_next m params))"

definition setup_memory_tags :: "board \<Rightarrow> mem \<times> u32 \<Rightarrow> mem \<times> u32" where
  "setup_memory_tags bd = (\<lambda>(m, params). let
     m = set_hdr m params ATAG_MEM 4;
     m = store32 m (unat params + 12) (bi_dram_start bd);
     m = store32 m (unat params + 8) (bi_dram_size bd)
   in (m, tag_next m params))"

definition write_string :: "mem \<Rightarrow> addr \<Rightarrow> string \<Rightarrow> mem" where
  "write_string m a s = (\<lambda>i. if a \<le> i \<and> i < a + length s then byte (s ! (i - a))
     else if i = a + length s then 0 else m i)"

fun strstr_s :: "string \<Rightarrow> string \<Rightarrow> bool" where
  "strstr_s s1 s2 = (take (length s2) s1 = s2 \<or> (case s1 of [] \<Rightarrow> False | _ # s \<Rightarrow> strstr_s s s2))"

definition setup_commandline_tag ::
    "env_cfg \<Rightarrow> ubenv \<Rightarrow> string option \<Rightarrow> mem \<times> u32 \<Rightarrow> (mem \<times> u32) option" where
  "setup_commandline_tag cfg e commandline = (\<lambda>(m, params).
     case commandline of None \<Rightarrow> Some (m, params)
     | Some commandline \<Rightarrow>
         let p = dropWhile (\<lambda>c. c = CHR '' '') commandline;
             cmdline = unat params + 8;
             cmdline_size = (\<lambda>n. drop_bit 2 (8 + of_nat n + 1 + 4))
         in if p = [] then Some (m, params)
         else do {
           let m = set_hdr m params ATAG_CMDLINE (cmdline_size (length p));
           let m = write_string m cmdline p;
           eth \<leftarrow> (if strstr_s p ''ethaddr='' then Some None else getenv_str cfg e ''ethaddr'');
           m \<leftarrow> (case eth of None \<Rightarrow> Some m
             | Some v \<Rightarrow> do {
                 s \<leftarrow> sprintf '' ethaddr=%s'' [VStr (Some v)];
                 let m = write_string m (cmdline + length p) s;
                 Some (store32 m (unat params) (cmdline_size (length p + length s)))
               });
           Some (m, tag_next m params)
         })"

definition setup_end_tag :: "mem \<times> u32 \<Rightarrow> mem" where
  "setup_end_tag = (\<lambda>(m, params). set_hdr m params ATAG_NONE 0)"

type_synonym os_fn = "env_cfg \<Rightarrow> board \<Rightarrow> int \<Rightarrow> string list \<Rightarrow> boot_state \<Rightarrow> (outcome \<times> boot_state) option"

definition do_bootm_linux :: os_fn where
  "do_bootm_linux cfg bd flag argv st = do {
     commandline \<leftarrow> getenv_str cfg (benv st) ''bootargs'';
     if flag \<noteq> 0 \<and> flag \<noteq> BOOTM_STATE_OS_GO then Some (Returns 1, st)
     else do {
       s \<leftarrow> getenv_str cfg (benv st) ''machid'';
       let machid = (case s of Some s \<Rightarrow> fst (simple_strtoul s 16) | None \<Rightarrow> bi_arch_number bd);
       let kernel_entry = ep (images st);
       let t = setup_start_tag bd (bmem st);
       let t = setup_memory_tags bd t;
       t \<leftarrow> setup_commandline_tag cfg (benv st) commandline t;
       let m = setup_end_tag t;
       Some (Enters kernel_entry (Linux_args machid (bi_boot_params bd)), st\<lparr>bmem := m\<rparr>)
     }
   }"

fun join_argv :: "string list \<Rightarrow> string" where
  "join_argv [] = []"
| "join_argv [a] = a"
| "join_argv (a # argv) = a @ '' '' @ join_argv argv"

definition do_bootm_netbsd :: os_fn where
  "do_bootm_netbsd cfg bd flag argv st = (
     if flag \<noteq> 0 \<and> flag \<noteq> BOOTM_STATE_OS_GO then Some (Returns 1, st)
     else do {
       let im = images st;
       let hdr = legacy_hdr_os im;
       os_hdr \<leftarrow> (if image_check_type (legacy_hdr_os_copy im) 0 IH_TYPE_MULTI
         then do {
           (_, kernel_len) \<leftarrow> image_multi_getimg (bmem st) hdr 1;
           Some (if kernel_len \<noteq> 0 then hdr else 0)
         } else Some 0);
       cmdline \<leftarrow> (if 2 < length argv then Some (join_argv (drop 2 argv))
         else do {
           s \<leftarrow> getenv_str cfg (benv st) ''bootargs'';
           Some (case s of Some s \<Rightarrow> s | None \<Rightarrow> [])
         });
       Some (Enters (ep im) (Netbsd_args os_hdr [] cmdline), st)
     })"

definition do_bootm_rtems :: os_fn where
  "do_bootm_rtems cfg bd flag argv st = (
     if flag \<noteq> 0 \<and> flag \<noteq> BOOTM_STATE_OS_GO then Some (Returns 1, st)
     else Some (Enters (ep (images st)) Rtems_args, st))"

text \<open>The table \<open>boot_os\<close> has 19 entries: nothing behind its end, \<open>Some None\<close> where it holds NULL.\<close>

definition boot_os :: "u8 \<Rightarrow> os_fn option option" where
  "boot_os i = (if i = IH_OS_LINUX then Some (Some do_bootm_linux)
     else if i = IH_OS_NETBSD then Some (Some do_bootm_netbsd)
     else if i = IH_OS_RTEMS then Some (Some do_bootm_rtems)
     else if i < 19 then Some None else None)"

section \<open>The sub-commands\<close>

definition bootm_sub :: "string \<Rightarrow> int \<Rightarrow> int cmd_tbl" where
  "bootm_sub n s = \<lparr>cmd_name = n, maxargs = 0, repeatable = 1, cmd = s, usage = Some [], cmd_help = Some []\<rparr>"

definition cmd_bootm_sub :: "int cmd_tbl list" where
  "cmd_bootm_sub = [
     bootm_sub ''start'' BOOTM_STATE_START,
     bootm_sub ''loados'' BOOTM_STATE_LOADOS,
     bootm_sub ''ramdisk'' BOOTM_STATE_RAMDISK,
     bootm_sub ''cmdline'' BOOTM_STATE_OS_CMDLINE,
     bootm_sub ''bdt'' BOOTM_STATE_OS_BD_T,
     bootm_sub ''prep'' BOOTM_STATE_OS_PREP,
     bootm_sub ''go'' BOOTM_STATE_OS_GO]"

definition bootm_loados :: "board \<Rightarrow> boot_state \<Rightarrow> (int \<times> boot_state) option" where
  "bootm_loados bd st = do {
     let im = images st;
     (ret, load_end, m) \<leftarrow> bootm_load_os bd (bmem st) (os im) 0;
     let st = st\<lparr>bmem := m\<rparr>;
     if ret \<noteq> 0 then Some (ret, st)
     else do {
       (_, l) \<leftarrow> lmb_reserve (hlmb im) (os_load (os im)) (load_end - os_load (os im));
       Some (0, st\<lparr>images := im\<lparr>hlmb := l\<rparr>\<rparr>)
     }
   }"

definition bootm_ramdisk :: "env_cfg \<Rightarrow> boot_state \<Rightarrow> (int \<times> boot_state) option" where
  "bootm_ramdisk cfg st = do {
     let rd_len = rd_end (images st) - rd_start (images st);
     (ret, st) \<leftarrow> boot_ramdisk_high cfg st (rd_start (images st)) rd_len;
     if ret \<noteq> 0 then Some (ret, st)
     else do {
       str \<leftarrow> sprintf ''%lx'' [VInt (initrd_start (images st))];
       (_, e) \<leftarrow> setenv cfg (benv st) ''initrd_start'' (Some str);
       str \<leftarrow> sprintf ''%lx'' [VInt (initrd_end (images st))];
       (_, e) \<leftarrow> setenv cfg e ''initrd_end'' (Some str);
       Some (0, st\<lparr>benv := e\<rparr>)
     }
   }"

text \<open>A call through NULL, or through what lies behind \<open>boot_os\<close>, is \<open>None\<close>.\<close>

definition do_bootm_subcommand ::
    "env_cfg \<Rightarrow> board \<Rightarrow> boot_state \<Rightarrow> string list \<Rightarrow> (outcome \<times> boot_state) option" where
  "do_bootm_subcommand cfg bd st argv = (
     case find_cmd_tbl (argv ! 1) cmd_bootm_sub of
       None \<Rightarrow> Some (Returns 1, st)
     | Some c \<Rightarrow>
         if cmd c = BOOTM_STATE_START then do {
           (ret, st) \<leftarrow> bootm_start cfg bd st (tl argv);
           Some (Returns ret, st)
         }
         else if state (images st) \<ge> cmd c then Some (Returns 1, st)
         else let
           st = st\<lparr>images := (images st)\<lparr>state := or (state (images st)) (cmd c)\<rparr>\<rparr>
         in if cmd c = BOOTM_STATE_LOADOS then do {
             (ret, st) \<leftarrow> bootm_loados bd st;
             Some (Returns ret, st)
           }
         else if cmd c = BOOTM_STATE_RAMDISK then do {
             (ret, st) \<leftarrow> bootm_ramdisk cfg st;
             Some (Returns ret, st)
           }
         else do {
             f \<leftarrow> boot_os (os_os (os (images st)));
             boot_fn \<leftarrow> f;
             (r, st) \<leftarrow> boot_fn cfg bd (cmd c) argv st;
             Some (case r of Returns _ \<Rightarrow> if cmd c = BOOTM_STATE_OS_GO then Returns 0 else r | _ \<Rightarrow> r, st)
           })"

section \<open>The command\<close>

text \<open>With an \<open>argv[1]\<close> that is not a number the sub-commands are tried.\<close>

definition do_bootm :: "env_cfg \<Rightarrow> board \<Rightarrow> boot_state \<Rightarrow> string list \<Rightarrow> (outcome \<times> boot_state) option" where
  "do_bootm cfg bd st argv = (let
     sub = (1 < length argv \<and> (case snd (simple_strtoul (argv ! 1) 16) of [] \<Rightarrow> False
       | c # _ \<Rightarrow> c \<noteq> CHR '':'' \<and> c \<noteq> CHR ''#''))
   in if sub then do_bootm_subcommand cfg bd st argv
   else do {
     (ret, st) \<leftarrow> bootm_start cfg bd st argv;
     if ret \<noteq> 0 then Some (Returns 1, st)
     else do {
       let im = images st;
       (ret, load_end, m) \<leftarrow> bootm_load_os bd (bmem st) (os im) 0;
       let st = st\<lparr>bmem := m\<rparr>;
       if ret = BOOTM_ERR_RESET then Some (Resets, st)
       else if ret = BOOTM_ERR_OVERLAP \<and> \<not> legacy_hdr_valid im then Some (Resets, st)
       else if ret = BOOTM_ERR_UNIMPLEMENTED then Some (Returns 1, st)
       else do {
         (_, l) \<leftarrow> lmb_reserve (hlmb im) (os_load (os im)) (load_end - os_load (os im));
         let st = st\<lparr>images := im\<lparr>hlmb := l\<rparr>\<rparr>;
         if os_type (os im) = IH_TYPE_STANDALONE then do {
           (_, st) \<leftarrow> bootm_start_standalone cfg bd st argv;
           Some (Returns 0, st)
         }
         else do {
           f \<leftarrow> boot_os (os_os (os im));
           case f of None \<Rightarrow> Some (Returns 1, st)
           | Some boot_fn \<Rightarrow> do {
               (r, st) \<leftarrow> boot_fn cfg bd 0 argv st;
               Some (case r of Returns _ \<Rightarrow> Resets | _ \<Rightarrow> r, st)
             }
         }
       }
     }
   })"

section \<open>Checking images\<close>

definition image_info_of :: "mem \<Rightarrow> u32 \<Rightarrow> int option" where
  "image_info_of m addr = (let hdr = addr in
     if genimg_get_format m hdr = IMAGE_FORMAT_LEGACY then
       if \<not> image_check_magic m hdr then Some 1
       else if \<not> image_check_hcrc m hdr then Some 1
       else do {
         _ \<leftarrow> image_print_contents m hdr;
         if \<not> image_check_dcrc m hdr then Some 1 else Some 0
       }
     else Some 1)"

fun iminfo_loop :: "mem \<Rightarrow> string list \<Rightarrow> int \<Rightarrow> int option" where
  "iminfo_loop m [] rcode = Some rcode"
| "iminfo_loop m (a # argv) rcode = do {
     let addr = fst (simple_strtoul a 16);
     r \<leftarrow> image_info_of m addr;
     iminfo_loop m argv (if r \<noteq> 0 then 1 else rcode)
   }"

definition do_iminfo :: "mem \<Rightarrow> u32 \<Rightarrow> string list \<Rightarrow> int option" where
  "do_iminfo m laddr argv = (if length argv < 2 then image_info_of m laddr
     else iminfo_loop m (tl argv) 0)"

section \<open>What a started image went through\<close>

definition kernel_addr :: "ubenv \<Rightarrow> string list \<Rightarrow> u32" where
  "kernel_addr e argv = (if length argv < 2 then load_addr e else fst (simple_strtoul (argv ! 1) 16))"

definition image_good :: "mem \<Rightarrow> u32 \<Rightarrow> int \<Rightarrow> bool" where
  "image_good m hdr ver \<longleftrightarrow> image_check_magic m hdr \<and> image_check_hcrc m hdr
     \<and> image_check_target_arch m hdr \<and> (ver = 0 \<or> image_check_dcrc m hdr)"

lemma image_get_kernel_good:
  "image_get_kernel m a ver = Some h \<Longrightarrow> h \<noteq> 0 \<Longrightarrow> h = a \<and> image_good m a ver"
  by (auto simp: image_get_kernel_def image_good_def bind_eq_Some_conv Let_def split: if_splits)

lemma header_copy_at: "i < 64 \<Longrightarrow> header_copy m hdr i = m (unat hdr + i)"
  by (simp add: header_copy_def image_get_header_size_def)

lemma header_copy_ep: "image_get_ep (header_copy m hdr) 0 = image_get_ep m hdr"
  by (simp add: image_get_ep_def load32_def header_copy_at ac_simps)

lemma header_copy_type: "image_get_type (header_copy m hdr) 0 = image_get_type m hdr"
  by (simp add: image_get_type_def header_copy_at)

lemma boot_get_kernel_good:
  assumes "boot_get_kernel cfg st argv = Some (h, st')" and "image_len (os (images st')) \<noteq> 0"
  shows "h = kernel_addr (benv st) argv \<and> image_good (bmem st) h (verify (images st))
    \<and> legacy_hdr_os_copy (images st') = header_copy (bmem st) h
    \<and> bmem st' = bmem st \<and> benv st' = benv st"
  using assms
  by (auto simp: boot_get_kernel_def Let_def bind_eq_Some_conv kernel_addr_def genimg_get_image_def
      dest!: image_get_kernel_good split: if_splits option.splits)


lemma bootm_start_lmb_frame:
  "bootm_start_lmb cfg bd st = Some st' \<Longrightarrow> \<exists>l. st' = st\<lparr>images := (images st)\<lparr>hlmb := l\<rparr>\<rparr>"
  by (auto simp: bootm_start_lmb_def bind_eq_Some_conv)

lemma bootm_start_good:
  assumes "bootm_start cfg bd st argv = Some (0, st')"
  shows "\<exists>v. getenv_yesno cfg (benv st) ''verify'' = Some v \<and> (let h = kernel_addr (benv st) argv; m = bmem st; im = images st' in
    image_good m h v \<and> bmem st' = m \<and> benv st' = benv st \<and> ep im = image_get_ep m h
    \<and> os_type (os im) = image_get_type m h \<and> os_os (os im) = image_get_os m h
    \<and> os_comp (os im) = image_get_comp m h \<and> os_load (os im) = image_get_load m h
    \<and> os_start (os im) = h \<and> state im = BOOTM_STATE_START)"
  using assms
  by (auto simp: bootm_start_def Let_def bind_eq_Some_conv header_copy_ep
      dest!: bootm_start_lmb_frame boot_get_kernel_good split: if_splits)

lemma do_bootm_linux_enters:
  "do_bootm_linux cfg bd fl argv st = Some (r, st') \<Longrightarrow>
    images st' = images st \<and> benv st' = benv st
    \<and> (if fl = 0 \<or> fl = BOOTM_STATE_OS_GO
       then \<exists>machid. r = Enters (ep (images st)) (Linux_args machid (bi_boot_params bd)) else r = Returns 1 \<and> st' = st)"
  by (auto simp: do_bootm_linux_def Let_def bind_eq_Some_conv split: if_splits)

lemma do_bootm_netbsd_enters:
  "do_bootm_netbsd cfg bd fl argv st = Some (r, st') \<Longrightarrow> st' = st
    \<and> (if fl = 0 \<or> fl = BOOTM_STATE_OS_GO
       then \<exists>h c. r = Enters (ep (images st)) (Netbsd_args h [] c) else r = Returns 1)"
  by (auto simp: do_bootm_netbsd_def Let_def bind_eq_Some_conv split: if_splits)

lemma do_bootm_rtems_enters:
  "do_bootm_rtems cfg bd fl argv st = Some (r, st') \<Longrightarrow> st' = st
    \<and> (if fl = 0 \<or> fl = BOOTM_STATE_OS_GO then r = Enters (ep (images st)) Rtems_args else r = Returns 1)"
  by (auto simp: do_bootm_rtems_def split: if_splits)

definition args_os :: "entry_args \<Rightarrow> u8" where
  "args_os a = (case a of Linux_args _ _ \<Rightarrow> IH_OS_LINUX | Netbsd_args _ _ _ \<Rightarrow> IH_OS_NETBSD | Rtems_args \<Rightarrow> IH_OS_RTEMS)"

lemma boot_os_entry:
  assumes "boot_os i = Some (Some f)" "f cfg bd fl argv st = Some (r, st')"
  shows "images st' = images st \<and> benv st' = benv st
    \<and> (if fl = 0 \<or> fl = BOOTM_STATE_OS_GO then \<exists>a. r = Enters (ep (images st)) a \<and> args_os a = i
       else r = Returns 1 \<and> st' = st)"
  using assms
  by (auto simp: boot_os_def args_os_def split: if_splits
      dest!: do_bootm_linux_enters do_bootm_netbsd_enters do_bootm_rtems_enters)

lemma reset_enters:
  "(case r of Returns x \<Rightarrow> Resets | Enters y z \<Rightarrow> r | Resets \<Rightarrow> r) = Enters e a \<longleftrightarrow> r = Enters e a"
  by (cases r) auto

lemma load_os_comp:
  "bootm_load_os bd m oi e = Some (r, x) \<Longrightarrow> r \<noteq> - 3 \<Longrightarrow> os_comp oi \<in> {IH_COMP_NONE, IH_COMP_GZIP}"
  by (auto simp: bootm_load_os_def Let_def split: if_splits)

section \<open>The order of sub-commands\<close>

lemma lmb_frame:
  assumes "boot_ramdisk_high cfg st d n = Some (r, st')"
  shows "state (images st') = state (images st) \<and> ep (images st') = ep (images st) \<and> os (images st') = os (images st)"
proof -
  obtain s where s: "getenv_str cfg (benv st) ''initrd_high'' = Some s"
    using assms by (auto simp: boot_ramdisk_high_def bind_eq_Some_conv)
  define high where "high = (case s of Some s \<Rightarrow> fst (simple_strtoul s 16) | None \<Rightarrow> (0xffffffff :: u32))"
  note d = assms [unfolded boot_ramdisk_high_def s bind.simps Let_def, folded high_def]
  show ?thesis
  proof (cases "d = 0 \<or> (s \<noteq> None \<and> high = 0xffffffff)")
    case True
    then show ?thesis using d by (auto simp: bind_eq_Some_conv split: if_split_asm)
  next
    case False
    with d obtain a l where "(let st1 = st\<lparr>images := images st\<lparr>initrd_start := a, hlmb := l\<rparr>\<rparr> in
      if a = 0 then Some (- 1, st1)
      else Some (0, st1\<lparr>images := (images st1)\<lparr>initrd_end := a + n\<rparr>, bmem := memmove_wd (bmem st1) a d n\<rparr>))
      = Some (r, st')"
      unfolding Let_def by (auto simp: bind_eq_Some_conv simp del: not_None_eq)
    then show ?thesis by (auto simp: Let_def split: if_split_asm)
  qed
qed

lemma bootm_loados_state:
  "bootm_loados bd st = Some (r, st') \<Longrightarrow> state (images st') = state (images st)"
  by (auto simp: bootm_loados_def Let_def bind_eq_Some_conv split: if_splits)

lemma bootm_ramdisk_state:
  "bootm_ramdisk cfg st = Some (r, st') \<Longrightarrow> state (images st') = state (images st)"
  by (auto simp: bootm_ramdisk_def Let_def bind_eq_Some_conv split: if_splits dest: lmb_frame)

lemma sub_reject:
  assumes "find_cmd_tbl (argv ! 1) cmd_bootm_sub = Some c" "cmd c \<noteq> BOOTM_STATE_START" "cmd c \<le> state (images st)"
  shows "do_bootm_subcommand cfg bd st argv = Some (Returns 1, st)"
  using assms by (simp add: do_bootm_subcommand_def)

lemma sub_accept:
  assumes "do_bootm_subcommand cfg bd st argv = Some (r, st')" "find_cmd_tbl (argv ! 1) cmd_bootm_sub = Some c"
    "cmd c \<noteq> BOOTM_STATE_START" "\<not> cmd c \<le> state (images st)"
  shows "state (images st') = or (state (images st)) (cmd c)"
proof -
  let ?st = "st\<lparr>images := (images st)\<lparr>state := or (state (images st)) (cmd c)\<rparr>\<rparr>"
  note d = assms(1) [unfolded do_bootm_subcommand_def assms(2) option.case if_not_P [OF assms(3)] if_not_P [OF assms(4)] Let_def]
  have "state (images st') = state (images ?st)"
  proof (cases "cmd c = BOOTM_STATE_LOADOS")
    case True
    with d show ?thesis by (auto simp: bind_eq_Some_conv dest: bootm_loados_state)
  next
    case L: False
    show ?thesis
    proof (cases "cmd c = BOOTM_STATE_RAMDISK")
      case True
      from d [unfolded if_not_P [OF L] if_P [OF True]] show ?thesis
        by (auto simp: bind_eq_Some_conv dest: bootm_ramdisk_state)
    next
      case False
      from d [unfolded if_not_P [OF L] if_not_P [OF False]] obtain f r2 where
        "boot_os (os_os (os (images ?st))) = Some (Some f)" "f cfg bd (cmd c) argv ?st = Some (r2, st')"
        by (auto simp: bind_eq_Some_conv)
      then show ?thesis by (auto dest: boot_os_entry)
    qed
  qed
  then show ?thesis by simp
qed

text \<open>A run of sub-commands, from the last \<open>start\<close> on, with the codes of those that had an effect: that
  did anything but return 1 with the state as it was.\<close>

inductive sub_run :: "env_cfg \<Rightarrow> board \<Rightarrow> boot_state \<Rightarrow> int list \<Rightarrow> bool" for cfg bd where
  start: "find_cmd_tbl (argv ! 1) cmd_bootm_sub = Some c \<Longrightarrow> cmd c = BOOTM_STATE_START
    \<Longrightarrow> do_bootm_subcommand cfg bd st argv = Some (r, st') \<Longrightarrow> sub_run cfg bd st' []"
| step: "sub_run cfg bd st cs \<Longrightarrow> find_cmd_tbl (argv ! 1) cmd_bootm_sub = Some c
    \<Longrightarrow> cmd c \<noteq> BOOTM_STATE_START
    \<Longrightarrow> do_bootm_subcommand cfg bd st argv = Some (r, st')
    \<Longrightarrow> sub_run cfg bd st' (if r = Returns 1 \<and> st' = st then cs else cs @ [cmd c])"

lemma sub_cmd_mem:
  "find_cmd_tbl s table = Some c \<Longrightarrow> c \<in> set table"
  using find_cmd_correct [of s table]
  by (auto simp: Let_def filter_eq_Cons_iff split: list.splits)

lemmas codes = BOOTM_STATE_START_def BOOTM_STATE_LOADOS_def BOOTM_STATE_RAMDISK_def BOOTM_STATE_OS_CMDLINE_def
  BOOTM_STATE_OS_BD_T_def BOOTM_STATE_OS_PREP_def BOOTM_STATE_OS_GO_def

lemma sub_codes: "find_cmd_tbl s cmd_bootm_sub = Some c \<Longrightarrow> cmd c \<in> {1, 2, 4, 0x10, 0x20, 0x40, 0x80}"
  by (drule sub_cmd_mem) (auto simp: cmd_bootm_sub_def bootm_sub_def codes)

lemma boot_get_kernel_state:
  assumes "boot_get_kernel cfg st argv = Some (h, st')"
  shows "state (images st') = state (images st)"
proof -
  define upd where "upd st d n = st\<lparr>images := (images st)\<lparr>os := (os (images st))\<lparr>image_start := d, image_len := n\<rparr>\<rparr>\<rparr>"
    for st :: boot_state and d n
  have st: "state (images (upd st d n)) = state (images st)" for st d n by (simp add: upd_def)
  define fin where "fin st c h = st\<lparr>images := (images st)\<lparr>legacy_hdr_os_copy := c, legacy_hdr_os := h, legacy_hdr_valid := True\<rparr>\<rparr>"
    for st :: boot_state and c h
  have fin: "state (images (fin st c h)) = state (images st)" for st c h by (simp add: fin_def)
  note d = assms [unfolded boot_get_kernel_def Let_def, folded upd_def fin_def]
  show ?thesis
    using d by (auto simp: bind_eq_Some_conv st fin split: if_split_asm option.split_asm)
qed

lemma bootm_start_state:
  assumes "bootm_start cfg bd st argv = Some (r, st')"
  shows "state (images st') = (if r = 0 then BOOTM_STATE_START else 0)"
proof -
  obtain v st1 h st2 where v: "getenv_yesno cfg (benv st) ''verify'' = Some v"
    and s1: "bootm_start_lmb cfg bd (st\<lparr>images := cleared_images\<lparr>verify := v\<rparr>\<rparr>) = Some st1"
    and s2: "boot_get_kernel cfg st1 argv = Some (h, st2)"
    using assms by (auto simp: bootm_start_def bind_eq_Some_conv)
  have "state (images st2) = 0"
    using bootm_start_lmb_frame [OF s1] boot_get_kernel_state [OF s2] by (auto simp: cleared_images_def)
  define im where "im = (images st2)\<lparr>os := (os (images st2))\<lparr>os_type := image_get_type (bmem st2) h,
    os_comp := image_get_comp (bmem st2) h, os_os := image_get_os (bmem st2) h,
    os_end := image_get_image_end (bmem st2) h, os_load := image_get_load (bmem st2) h\<rparr>\<rparr>"
  define im2 where "im2 = im\<lparr>ep := image_get_ep (legacy_hdr_os_copy im) 0\<rparr>"
  have im: "state im2 = 0" "state im = 0" using \<open>state (images st2) = 0\<close> by (simp_all add: im_def im2_def)
  note d = assms [unfolded bootm_start_def v bind.simps Let_def s1 s2 prod.case, folded im_def, folded im2_def]
  show ?thesis
    using d im \<open>state (images st2) = 0\<close> by (auto simp: bind_eq_Some_conv split: if_split_asm)
qed

lemma or_code:
  fixes s c :: int
  assumes "0 \<le> s" "0 \<le> c"
  shows "s \<le> or s c" "c \<le> or s c"
  using or_greater_eq [OF assms(2), of s] or_greater_eq [OF assms(1), of c] by (simp_all add: or.commute)

lemma sub_codes_not_start:
  "find_cmd_tbl s cmd_bootm_sub = Some c \<Longrightarrow> cmd c \<noteq> BOOTM_STATE_START \<Longrightarrow> 0 < cmd c
    \<and> cmd c \<in> {BOOTM_STATE_LOADOS, BOOTM_STATE_RAMDISK, BOOTM_STATE_OS_CMDLINE, BOOTM_STATE_OS_BD_T, BOOTM_STATE_OS_PREP, BOOTM_STATE_OS_GO}"
  by (drule sub_codes) (auto simp: codes)

text \<open>The bits of the state are those of the last \<open>start\<close>, if it succeeded, and of the sub-commands since.\<close>

lemma sub_run_state:
  assumes "sub_run cfg bd st cs"
  shows "\<exists>s0 \<in> {0, BOOTM_STATE_START}. state (images st) = fold (\<lambda>c s. or s c) cs s0 \<and> 0 \<le> state (images st)"
  using assms
proof induction
  case (start argv c st r st')
  then show ?case
    by (auto simp: do_bootm_subcommand_def bind_eq_Some_conv BOOTM_STATE_START_def dest!: bootm_start_state)
next
  case (step st cs argv c r st')
  show ?case
  proof (cases "cmd c \<le> state (images st)")
    case True
    with sub_reject [OF step.hyps(2,3)] step.hyps(4) have "st' = st" "r = Returns 1" by auto
    with step.IH show ?thesis by simp
  next
    case False
    with sub_accept [OF step.hyps(4,2,3)] have s: "state (images st') = or (state (images st)) (cmd c)" by blast
    then have "st' \<noteq> st" using or_code [of "state (images st)" "cmd c"] step.IH False by auto
    with step.IH s False show ?thesis by auto
  qed
qed

lemma fold_or_less:
  fixes s :: int
  assumes "0 \<le> s" "s < 2 ^ k" "\<forall>c \<in> set cs. 0 \<le> c \<and> c < 2 ^ k"
  shows "fold (\<lambda>c s. or s c) cs s < 2 ^ k"
  using assms
proof (induction cs arbitrary: s)
  case (Cons c cs)
  then show ?case using OR_upper [of s k c] by (simp add: Cons.IH)
qed simp

lemma sub_code_power: "find_cmd_tbl s cmd_bootm_sub = Some c \<Longrightarrow> \<exists>k. cmd c = 2 ^ k"
proof -
  assume "find_cmd_tbl s cmd_bootm_sub = Some c"
  then have "cmd c \<in> {2 ^ 0, 2 ^ 1, 2 ^ 2, 2 ^ 4, 2 ^ 5, 2 ^ 6, 2 ^ 7}" using sub_codes by fastforce
  then show ?thesis by blast
qed

section \<open>Only checked images\<close>

lemma bootm_loados_keeps:
  assumes "bootm_loados bd st = Some (r, st')"
  shows "ep (images st') = ep (images st) \<and> os (images st') = os (images st)"
proof -
  obtain ret le m where l: "bootm_load_os bd (bmem st) (os (images st)) 0 = Some (ret, le, m)"
    using assms by (auto simp: bootm_loados_def Let_def bind_eq_Some_conv)
  note d = assms [unfolded bootm_loados_def Let_def l bind.simps prod.case]
  show ?thesis
  proof (cases "ret = 0")
    case True
    with d obtain l where "st' = st\<lparr>bmem := m, images := (images st)\<lparr>hlmb := l\<rparr>\<rparr>" by (auto simp: bind_eq_Some_conv)
    then show ?thesis by simp
  next
    case False
    with d have "st' = st\<lparr>bmem := m\<rparr>" by simp
    then show ?thesis by simp
  qed
qed

lemma bootm_ramdisk_keeps:
  assumes "bootm_ramdisk cfg st = Some (r, st')"
  shows "ep (images st') = ep (images st) \<and> os (images st') = os (images st)"
proof -
  obtain st1 where 1: "boot_ramdisk_high cfg st (rd_start (images st)) (rd_end (images st) - rd_start (images st)) = Some (r, st1)"
    "images st' = images st1"
    using assms by (auto simp: bootm_ramdisk_def Let_def bind_eq_Some_conv split: if_splits)
  from lmb_frame [OF 1(1)] show ?thesis by (simp add: 1(2))
qed

text \<open>No sub-command but \<open>start\<close> changes the entry point and the operating system, and the one that enters a
  system enters it there.\<close>

lemma sub_keeps:
  assumes "do_bootm_subcommand cfg bd st argv = Some (r, st')" "find_cmd_tbl (argv ! 1) cmd_bootm_sub = Some c"
    "cmd c \<noteq> BOOTM_STATE_START"
  shows "ep (images st') = ep (images st) \<and> os_os (os (images st')) = os_os (os (images st))
    \<and> (\<forall>e a. r = Enters e a \<longrightarrow> e = ep (images st) \<and> args_os a = os_os (os (images st)))"
proof (cases "cmd c \<le> state (images st)")
  case True
  with sub_reject [OF assms(2,3)] assms(1) show ?thesis by auto
next
  case N: False
  let ?st = "st\<lparr>images := (images st)\<lparr>state := or (state (images st)) (cmd c)\<rparr>\<rparr>"
  note d = assms(1) [unfolded do_bootm_subcommand_def assms(2) option.case if_not_P [OF assms(3)] if_not_P [OF N] Let_def]
  show ?thesis
  proof (cases "cmd c = BOOTM_STATE_LOADOS")
    case True
    from d [unfolded if_P [OF True]] obtain ret where "bootm_loados bd ?st = Some (ret, st')" "r = Returns ret"
      by (auto simp: bind_eq_Some_conv)
    with bootm_loados_keeps [of bd ?st ret st'] show ?thesis by simp
  next
    case L: False
    show ?thesis
    proof (cases "cmd c = BOOTM_STATE_RAMDISK")
      case True
      from d [unfolded if_not_P [OF L] if_P [OF True]] obtain ret where "bootm_ramdisk cfg ?st = Some (ret, st')" "r = Returns ret"
        by (auto simp: bind_eq_Some_conv)
      with bootm_ramdisk_keeps [of cfg ?st ret st'] show ?thesis by simp
    next
      case False
      from d [unfolded if_not_P [OF L] if_not_P [OF False]] obtain f r2 where
        f: "boot_os (os_os (os (images ?st))) = Some (Some f)" "f cfg bd (cmd c) argv ?st = Some (r2, st')"
        and r: "r = (case r2 of Returns _ \<Rightarrow> if cmd c = BOOTM_STATE_OS_GO then Returns 0 else r2 | _ \<Rightarrow> r2)"
        by (auto simp: bind_eq_Some_conv)
      have "r = Enters e a \<Longrightarrow> r2 = Enters e a" for e a using r by (cases r2) (auto split: if_splits)
      then show ?thesis using boot_os_entry [OF f] by (auto split: if_splits)
    qed
  qed
qed

text \<open>The states after a \<open>start\<close> that succeeded, with the memory and the environment that it found and its
  arguments, and any sub-commands since.\<close>

inductive started :: "env_cfg \<Rightarrow> board \<Rightarrow> mem \<Rightarrow> ubenv \<Rightarrow> string list \<Rightarrow> boot_state \<Rightarrow> bool" for cfg bd where
  start: "find_cmd_tbl (argv ! 1) cmd_bootm_sub = Some c \<Longrightarrow> cmd c = BOOTM_STATE_START
    \<Longrightarrow> do_bootm_subcommand cfg bd st argv = Some (Returns 0, st') \<Longrightarrow> started cfg bd (bmem st) (benv st) (tl argv) st'"
| step: "started cfg bd m en args st \<Longrightarrow> find_cmd_tbl (argv ! 1) cmd_bootm_sub = Some c
    \<Longrightarrow> cmd c \<noteq> BOOTM_STATE_START \<Longrightarrow> do_bootm_subcommand cfg bd st argv = Some (r, st') \<Longrightarrow> started cfg bd m en args st'"

lemma started_good:
  assumes "started cfg bd m en args st"
  shows "\<exists>v. getenv_yesno cfg en ''verify'' = Some v \<and> image_good m (kernel_addr en args) v
    \<and> ep (images st) = image_get_ep m (kernel_addr en args) \<and> os_os (os (images st)) = image_get_os m (kernel_addr en args)"
  using assms
proof induction
  case (start argv c st st')
  then have "bootm_start cfg bd st (tl argv) = Some (0, st')" by (auto simp: do_bootm_subcommand_def bind_eq_Some_conv)
  from bootm_start_good [OF this] show ?case by (auto simp: Let_def)
next
  case (step m en args st argv c r st')
  from sub_keeps [OF step.hyps(4,2,3)] step.IH show ?case by metis
qed

text \<open>The arguments that name a sub-command, as \<open>do_bootm\<close> tells.\<close>

definition names_sub :: "string list \<Rightarrow> bool" where
  "names_sub argv \<longleftrightarrow> 1 < length argv \<and> (case snd (simple_strtoul (argv ! 1) 16) of [] \<Rightarrow> False
       | c # _ \<Rightarrow> c \<noteq> CHR '':'' \<and> c \<noteq> CHR ''#'')"

lemma direct_safe:
  assumes "do_bootm cfg bd st argv = Some (Enters e a, st')" "\<not> names_sub argv"
  shows "\<exists>v. getenv_yesno cfg (benv st) ''verify'' = Some v \<and> (let m = bmem st; h = kernel_addr (benv st) argv in
    image_good m h v \<and> image_get_type m h \<noteq> IH_TYPE_STANDALONE \<and> image_get_comp m h \<in> {IH_COMP_NONE, IH_COMP_GZIP}
    \<and> e = image_get_ep m h \<and> image_get_os m h = args_os a)"
proof -
  note b0 = assms(1) [unfolded do_bootm_def Let_def, folded names_sub_def, unfolded if_not_P [OF assms(2)]]
  obtain st1 where st1: "bootm_start cfg bd st argv = Some (0, st1)"
    using b0 by (auto simp: bind_eq_Some_conv split: if_splits)
  let ?oi = "os (images st1)"
  note b = b0 [unfolded st1 bind.simps]
  obtain r le m where l: "bootm_load_os bd (bmem st1) ?oi 0 = Some (r, le, m)" "r \<noteq> - 3"
    using b by (auto simp: bind_eq_Some_conv split: if_splits)
  from b l obtain f st2 where f:
      "os_type ?oi \<noteq> IH_TYPE_STANDALONE" "boot_os (os_os ?oi) = Some (Some f)" "f cfg bd 0 argv st2 = Some (Enters e a, st')"
      "ep (images st2) = ep (images st1)"
    by (fastforce simp: bind_eq_Some_conv reset_enters split: if_splits option.splits)
  define h where "h = kernel_addr (benv st) argv"
  obtain v where s: "getenv_yesno cfg (benv st) ''verify'' = Some v" "image_good (bmem st) h v"
      "ep (images st1) = image_get_ep (bmem st) h" "os_type ?oi = image_get_type (bmem st) h"
      "os_os ?oi = image_get_os (bmem st) h" "os_comp ?oi = image_get_comp (bmem st) h"
    using bootm_start_good [OF st1] unfolding Let_def h_def by blast
  have e: "e = ep (images st2)" "args_os a = os_os ?oi" using boot_os_entry [OF f(2,3)] by simp_all
  show ?thesis
    using s load_os_comp [OF l] e f(1,4) unfolding Let_def h_def [symmetric] by auto
qed

text \<open>C3: every way into an operating system, \<open>bootm\<close> with an address as well as the sub-command \<open>go\<close> after a
  \<open>start\<close> that succeeded and any other sub-commands, is for an image whose magic number, checksum of the header
  and architecture were right when it was started and, unless \<^verbatim>\<open>verify\<close> starts with \<^verbatim>\<open>n\<close>, the checksum of
  the data as well; the system is the one that the header names, entered at the entry point of the header.
  Without sub-commands the image is moreover not a standalone program, and not compressed or by gzip.\<close>

theorem bootm_safe:
  assumes "do_bootm cfg bd st argv = Some (Enters e a, st')"
    and "if names_sub argv then started cfg bd m en args st else m = bmem st \<and> en = benv st \<and> args = argv"
  shows "let h = kernel_addr en args in
    image_check_magic m h \<and> image_check_hcrc m h \<and> image_check_target_arch m h
    \<and> (image_check_dcrc m h \<or> getenv_yesno cfg en ''verify'' = Some 0)
    \<and> e = image_get_ep m h \<and> image_get_os m h = args_os a
    \<and> (if names_sub argv then True else image_get_type m h \<noteq> IH_TYPE_STANDALONE \<and> image_get_comp m h \<in> {IH_COMP_NONE, IH_COMP_GZIP})"
proof (cases "names_sub argv")
  case True
  then have st: "started cfg bd m en args st" using assms(2) by simp
  have d: "do_bootm_subcommand cfg bd st argv = Some (Enters e a, st')"
    using assms(1) [unfolded do_bootm_def Let_def, folded names_sub_def] True by simp
  obtain c where c: "find_cmd_tbl (argv ! 1) cmd_bootm_sub = Some c" "cmd c \<noteq> BOOTM_STATE_START"
    using d by (auto simp: do_bootm_subcommand_def bind_eq_Some_conv split: option.splits if_splits)
  from sub_keeps [OF d c] started_good [OF st] True show ?thesis by (auto simp: Let_def image_good_def)
next
  case False
  with assms(2) direct_safe [OF assms(1) False] show ?thesis by (auto simp: Let_def image_good_def)
qed

text \<open>C9: whatever sub-commands are given, those that have an effect after a \<open>start\<close> (that do more than
  return 1 with the state as it was) come in the order of the state machine, each at most once; and
  afterwards a sub-command that is behind all of these in the order is carried out: it enters the state.\<close>

theorem bootm_sub_order:
  assumes "sub_run cfg bd st cs"
  shows "sorted_wrt (<) cs \<and> set cs \<subseteq> {BOOTM_STATE_LOADOS, BOOTM_STATE_RAMDISK, BOOTM_STATE_OS_CMDLINE,
      BOOTM_STATE_OS_BD_T, BOOTM_STATE_OS_PREP, BOOTM_STATE_OS_GO}
    \<and> (\<forall>argv c r st'. find_cmd_tbl (argv ! 1) cmd_bootm_sub = Some c \<and> cmd c \<noteq> BOOTM_STATE_START
        \<and> do_bootm_subcommand cfg bd st argv = Some (r, st')
      \<longrightarrow> (if \<forall>d \<in> set cs. d < cmd c then state (images st') = or (state (images st)) (cmd c) \<and> st' \<noteq> st
        else r = Returns 1 \<and> st' = st))"
proof -
  have run: "sorted_wrt (<) cs \<and> set cs \<subseteq> {BOOTM_STATE_LOADOS, BOOTM_STATE_RAMDISK, BOOTM_STATE_OS_CMDLINE,
      BOOTM_STATE_OS_BD_T, BOOTM_STATE_OS_PREP, BOOTM_STATE_OS_GO} \<and> (\<forall>c \<in> set cs. c \<le> state (images st))"
    using assms
  proof induction
    case (start argv c st r st')
    then show ?case by simp
  next
    case (step st cs argv c r st')
    have z: "0 \<le> state (images st)" using sub_run_state [OF step.hyps(1)] by auto
    note c = sub_codes_not_start [OF step.hyps(2,3)]
    show ?case
    proof (cases "cmd c \<le> state (images st)")
      case True
      with sub_reject [OF step.hyps(2,3)] step.hyps(4) have "st' = st" "r = Returns 1" by auto
      with step.IH show ?thesis by simp
    next
      case False
      with sub_accept [OF step.hyps(4,2,3)] have s: "state (images st') = or (state (images st)) (cmd c)" by blast
      have le: "state (images st) \<le> state (images st')" "cmd c \<le> state (images st')"
        using or_code [OF z, of "cmd c"] c s by simp_all
      with False have "st' \<noteq> st" by auto
      then have t: "(if r = Returns 1 \<and> st' = st then cs else cs @ [cmd c]) = cs @ [cmd c]" by simp
      show ?thesis unfolding t using step.IH c False le by (auto simp: sorted_wrt_append)
    qed
  qed
  have "if \<forall>d \<in> set cs. d < cmd c then state (images st') = or (state (images st)) (cmd c) \<and> st' \<noteq> st
      else r = Returns 1 \<and> st' = st"
    if c: "find_cmd_tbl (argv ! 1) cmd_bootm_sub = Some c" "cmd c \<noteq> BOOTM_STATE_START"
      and d: "do_bootm_subcommand cfg bd st argv = Some (r, st')" for argv c r st'
  proof -
    obtain s0 where s0: "s0 \<in> {0, BOOTM_STATE_START}" "state (images st) = fold (\<lambda>c s. or s c) cs s0" "0 \<le> state (images st)"
      using sub_run_state [OF assms] by blast
    have "cmd c \<le> state (images st) \<longleftrightarrow> \<not> (\<forall>d \<in> set cs. d < cmd c)"
    proof
      assume le: "cmd c \<le> state (images st)"
      obtain k where k: "cmd c = 2 ^ k" using sub_code_power [OF c(1)] by blast
      have "\<not> (\<forall>d \<in> set cs. d < 2 ^ k)"
      proof
        assume lt: "\<forall>d \<in> set cs. d < 2 ^ k"
        have "2 \<le> cmd c" using sub_codes_not_start [OF c] by (auto simp: codes)
        then have "0 \<le> s0" "s0 < 2 ^ k" using s0(1) k by (auto simp: codes)
        moreover have "\<forall>d \<in> set cs. 0 \<le> d \<and> d < 2 ^ k" using run lt by (auto simp: codes)
        ultimately show False using fold_or_less [of s0 k cs] le s0(2) k by simp
      qed
      then show "\<not> (\<forall>d \<in> set cs. d < cmd c)" using k by simp
    next
      assume "\<not> (\<forall>d \<in> set cs. d < cmd c)"
      then show "cmd c \<le> state (images st)" using run by force
    qed
    then show ?thesis
      using sub_reject [OF c] sub_accept [OF d c] or_code [OF s0(3), of "cmd c"] sub_codes_not_start [OF c] d by auto
  qed
  then show ?thesis using run by blast
qed

text \<open>The order is all that is checked: \<open>go\<close> is accepted without a successful \<open>start\<close>.\<close>

lemma bootm_go_without_start:
  assumes "state (images st) < BOOTM_STATE_OS_GO" "os_os (os (images st)) = IH_OS_RTEMS"
  shows "\<exists>st'. do_bootm_subcommand cfg bd st [''bootm'', ''go''] = Some (Enters (ep (images st)) Rtems_args, st')"
proof -
  have "find_cmd_tbl ''go'' cmd_bootm_sub = Some (bootm_sub ''go'' BOOTM_STATE_OS_GO)" by code_simp
  then show ?thesis using assms
    by (simp add: do_bootm_subcommand_def bootm_sub_def boot_os_def do_bootm_rtems_def Let_def
      BOOTM_STATE_START_def BOOTM_STATE_LOADOS_def BOOTM_STATE_RAMDISK_def BOOTM_STATE_OS_GO_def)
qed

section \<open>The tag list\<close>

declare strstr_s.simps [simp del]

text \<open>What a kernel reads: a list of tags and the bytes each takes.\<close>

datatype atag = Core | Mem_tag u32 u32 | Cmdline_tag string

fun tag_len :: "atag \<Rightarrow> nat" where
  "tag_len Core = 20"
| "tag_len (Mem_tag _ _) = 16"
| "tag_len (Cmdline_tag s) = 4 * ((13 + length s) div 4)"

fun tag_id :: "atag \<Rightarrow> u32" where
  "tag_id Core = ATAG_CORE"
| "tag_id (Mem_tag _ _) = ATAG_MEM"
| "tag_id (Cmdline_tag _) = ATAG_CMDLINE"

fun tag_body :: "mem \<Rightarrow> addr \<Rightarrow> atag \<Rightarrow> bool" where
  "tag_body m p Core \<longleftrightarrow> load32 m (p + 8) = 0 \<and> load32 m (p + 12) = 0 \<and> load32 m (p + 16) = 0"
| "tag_body m p (Mem_tag sz bs) \<longleftrightarrow> load32 m (p + 8) = sz \<and> load32 m (p + 12) = bs"
| "tag_body m p (Cmdline_tag s) \<longleftrightarrow> cstr m (p + 8) (map byte s)"

definition tag_at :: "mem \<Rightarrow> addr \<Rightarrow> atag \<Rightarrow> bool" where
  "tag_at m p t \<longleftrightarrow> 4 * unat (load32 m p) = tag_len t \<and> load32 m (p + 4) = tag_id t \<and> tag_body m p t"

primrec tags_at :: "mem \<Rightarrow> addr \<Rightarrow> atag list \<Rightarrow> bool" where
  "tags_at m p [] \<longleftrightarrow> load32 m p = 0 \<and> load32 m (p + 4) = ATAG_NONE"
| "tags_at m p (t # ts) \<longleftrightarrow> tag_at m p t \<and> tags_at m (p + tag_len t) ts"

definition same_out :: "addr \<Rightarrow> addr \<Rightarrow> mem \<Rightarrow> mem \<Rightarrow> bool" where
  "same_out p q m m' \<longleftrightarrow> (\<forall>i. i < p \<or> q \<le> i \<longrightarrow> m' i = m i)"

lemma same_out_trans:
  "same_out p q m m' \<Longrightarrow> same_out r s m' m'' \<Longrightarrow> same_out (min p r) (max q s) m m''"
  by (auto simp: same_out_def)

lemma same_out_store32: "p \<le> a \<Longrightarrow> a + 4 \<le> q \<Longrightarrow> same_out p q m m' \<Longrightarrow> same_out p q m (store32 m' a w)"
  by (auto simp: same_out_def store32_def)

lemma cmdline_words: "9 + n \<le> 4 * ((13 + n) div 4)" for n :: nat
  by presburger

lemma tag_at_same:
  assumes "same_out (p + tag_len t) q m m'" "tag_at m p t"
  shows "tag_at m' p t"
proof -
  have e: "m' i = m i" if "i < p + tag_len t" for i using assms(1) that by (simp add: same_out_def)
  have l: "load32 m' (p + k) = load32 m (p + k)" if "k + 4 \<le> tag_len t" for k
    using that by (intro load32_cong e) simp
  show ?thesis
  proof (cases t)
    case Core
    then show ?thesis using assms(2) l [of 0] l [of 4] l [of 8] l [of 12] l [of 16] by (simp add: tag_at_def)
  next
    case (Mem_tag x y)
    then show ?thesis using assms(2) l [of 0] l [of 4] l [of 8] l [of 12] by (simp add: tag_at_def)
  next
    case (Cmdline_tag s)
    then have n: "8 \<le> tag_len t" "8 + length s < tag_len t" using cmdline_words [of "length s"] by simp_all
    have c: "cstr m (p + 8) (map byte s)" and i: "4 * unat (load32 m p) = tag_len t" "load32 m (p + 4) = tag_id t"
      using assms(2) Cmdline_tag by (simp_all add: tag_at_def)
    have "m' (p + 8 + i) = m (p + 8 + i)" if "i \<le> length (map byte s)" for i
    proof -
      have "p + 8 + i < p + tag_len t" using n(2) that unfolding length_map by linarith
      then show ?thesis by (rule e)
    qed
    then have "cstr m' (p + 8) (map byte s)" by (rule cstr_cong [OF c])
    then have "tag_body m' p t" using Cmdline_tag by simp
    then show ?thesis unfolding tag_at_def using i l [of 0] l [of 4] n(1) by (metis add.right_neutral add_0 add_leD1 numeral_Bit0)
  qed
qed

lemma read_str_no_nul: "read_str D i = Some s \<Longrightarrow> NUL \<notin> set s"
  by (rule read_str.raw_induct [where P = "\<lambda>_ _ s. NUL \<notin> set s"])
    (auto simp: bind_eq_Some_conv split: if_split_asm)

lemma getenv_str_no_nul: "getenv_str cfg e n = Some (Some s) \<Longrightarrow> NUL \<notin> set s"
  by (auto simp: getenv_str_def bind_eq_Some_conv dest: read_str_no_nul split: option.splits)


lemma tag_next_at:
  assumes "tag_at m (unat p) t" "unat p + tag_len t < 2 ^ 32"
  shows "unat (tag_next m p) = unat p + tag_len t"
proof -
  have "tag_next m p = of_nat (unat p + 4 * unat (load32 m (unat p)))"
    by (simp add: tag_next_def)
  also have "\<dots> = of_nat (unat p + tag_len t)" using assms(1) unfolding tag_at_def by metis
  finally show ?thesis using assms(2) by (simp only: unat_of_nat_u32)
qed

lemma setup_start_tag_at:
  assumes "setup_start_tag bd m = (m', p')" "unat (bi_boot_params bd) + 20 < 2 ^ 32"
  shows "tag_at m' (unat (bi_boot_params bd)) Core \<and> unat p' = unat (bi_boot_params bd) + 20
    \<and> same_out (unat (bi_boot_params bd)) (unat (bi_boot_params bd) + 20) m m'"
proof -
  let ?p = "bi_boot_params bd"
  have m: "tag_at m' (unat ?p) Core" "p' = tag_next m' ?p"
    using assms(1) by (auto simp: setup_start_tag_def set_hdr_def Let_def tag_at_def load32_store32)
  have "same_out (unat ?p) (unat ?p + 20) m m'"
    using assms(1) by (auto simp: setup_start_tag_def set_hdr_def Let_def intro!: same_out_store32) (simp add: same_out_def)
  with m tag_next_at [OF m(1)] assms(2) show ?thesis by simp
qed

lemma setup_memory_tags_at:
  assumes "setup_memory_tags bd (m, p) = (m', p')" "unat p + 16 < 2 ^ 32"
  shows "tag_at m' (unat p) (Mem_tag (bi_dram_size bd) (bi_dram_start bd)) \<and> unat p' = unat p + 16
    \<and> same_out (unat p) (unat p + 16) m m'"
proof -
  have m: "tag_at m' (unat p) (Mem_tag (bi_dram_size bd) (bi_dram_start bd))" "p' = tag_next m' p"
    using assms(1) by (auto simp: setup_memory_tags_def set_hdr_def Let_def tag_at_def load32_store32)
  have "same_out (unat p) (unat p + 16) m m'"
    using assms(1) by (auto simp: setup_memory_tags_def set_hdr_def Let_def intro!: same_out_store32) (simp add: same_out_def)
  with m tag_next_at [OF m(1)] assms(2) show ?thesis by simp
qed

text \<open>The command line a kernel gets.\<close>

definition kernel_cmdline :: "string option \<Rightarrow> string option \<Rightarrow> string" where
  "kernel_cmdline args eth = (let p = dropWhile (\<lambda>c. c = CHR '' '') (case args of None \<Rightarrow> [] | Some s \<Rightarrow> s) in
     if p = [] \<or> strstr_s p ''ethaddr='' then p
     else p @ (case eth of None \<Rightarrow> [] | Some e \<Rightarrow> '' ethaddr='' @ e))"

definition cmdline_tags :: "string \<Rightarrow> atag list" where
  "cmdline_tags s = (if s = [] then [] else [Cmdline_tag s])"

lemma sprintf_ethaddr: "sprintf '' ethaddr=%s'' [VStr (Some v)] = Some ('' ethaddr='' @ v)"
  by (simp add: sprintf_simps del: vsprintf_loop.simps(2))

lemma byte_0 [simp]: "byte c = 0 \<longleftrightarrow> c = NUL"
proof -
  have "byte NUL = 0" by (simp add: byte_def)
  then show ?thesis by (metis byte_inj)
qed

lemma write_string_cstr:
  "NUL \<notin> set s \<Longrightarrow> cstr (write_string m a s) a (map byte s)"
  by (auto simp: cstr_iff write_string_def)

lemma write_string_append:
  "write_string (write_string m a s) (a + length s) t = write_string m a (s @ t)"
  by (auto simp: write_string_def nth_append fun_eq_iff)

lemma same_out_write: "p \<le> a \<Longrightarrow> a + length s < q \<Longrightarrow> same_out p q m m' \<Longrightarrow> same_out p q m (write_string m' a s)"
  by (auto simp: same_out_def write_string_def)


lemma unat_cmdline_size:
  "n < 2 ^ 32 - 13 \<Longrightarrow> unat (drop_bit 2 (8 + of_nat n + 1 + 4 :: u32)) = (13 + n) div 4"
proof -
  assume n: "n < 2 ^ 32 - 13"
  have "(8 + of_nat n + 1 + 4 :: u32) = of_nat (13 + n)" by simp
  then show ?thesis
    using n by (simp add: drop_bit_of_nat_u32 unat_of_nat_u32 del: of_nat_add)
qed

lemma tag_at_cmdline:
  assumes "NUL \<notin> set s" "length s < 2 ^ 32 - 13" "s \<noteq> []"
    "load32 m p = drop_bit 2 (8 + of_nat (length s) + 1 + 4)" "load32 m (p + 4) = ATAG_CMDLINE"
    "\<And>i. p + 8 \<le> i \<Longrightarrow> m i = write_string m' (p + 8) s i"
  shows "tag_at m p (Cmdline_tag s)"
proof -
  have "cstr m (p + 8) (map byte s)"
    by (rule cstr_cong [OF write_string_cstr [OF assms(1), of m' "p + 8"]]) (simp add: assms(6))
  then show ?thesis using assms(4,5) unat_cmdline_size [OF assms(2)] by (simp add: tag_at_def)
qed

lemma setup_commandline_tag_at:
  assumes c: "setup_commandline_tag cfg e args (m, p) = Some (m', p')"
    and eth: "getenv_str cfg e ''ethaddr'' = Some eth"
    and nul: "\<And>s. args = Some s \<Longrightarrow> NUL \<notin> set s"
  defines "s \<equiv> kernel_cmdline args eth"
  assumes bound: "s \<noteq> [] \<Longrightarrow> unat p + 13 + length s < 2 ^ 32"
  shows "if s = [] then m' = m \<and> p' = p
    else tag_at m' (unat p) (Cmdline_tag s) \<and> unat p' = unat p + tag_len (Cmdline_tag s)
      \<and> same_out (unat p) (unat p + tag_len (Cmdline_tag s)) m m'"
proof -
  define a where "a = dropWhile (\<lambda>c. c = CHR '' '') (case args of None \<Rightarrow> [] | Some s \<Rightarrow> s)"
  show ?thesis
  proof (cases "a = []")
    case True
    then show ?thesis using c by (auto simp: s_def kernel_cmdline_def a_def setup_commandline_tag_def Let_def split: option.splits)
  next
    case False
    then obtain args' where args: "args = Some args'" "a = dropWhile (\<lambda>c. c = CHR '' '') args'"
      by (cases args) (auto simp: a_def)
    define m1 where "m1 = write_string (set_hdr m p ATAG_CMDLINE (drop_bit 2 (8 + of_nat (length a) + 1 + 4))) (unat p + 8) a"
    note d = c [unfolded setup_commandline_tag_def args(1) prod.case option.case Let_def, folded args(2), unfolded if_not_P [OF False], folded m1_def]
    have se: "s = (if strstr_s a ''ethaddr='' then a else a @ (case eth of None \<Rightarrow> [] | Some e \<Rightarrow> '' ethaddr='' @ e))"
      using False by (simp add: s_def kernel_cmdline_def a_def [symmetric])
    then have ne: "s \<noteq> []" using False by simp
    note n = bound [OF ne]
    have a: "NUL \<notin> set a"
      using nul [OF args(1)] args(2) by (metis set_dropWhileD)
    define m2 where "m2 = set_hdr m p ATAG_CMDLINE (drop_bit 2 (8 + of_nat (length a) + 1 + 4))"
    have m2: "load32 m2 (unat p) = drop_bit 2 (8 + of_nat (length a) + 1 + 4)" "load32 m2 (unat p + 4) = ATAG_CMDLINE"
      by (simp_all add: m2_def set_hdr_def load32_store32)
    have ws: "load32 (write_string x (unat p + 8) t) (unat p) = load32 x (unat p)"
      "load32 (write_string x (unat p + 8) t) (unat p + 4) = load32 x (unat p + 4)" for x t
      by (auto intro!: load32_cong simp: write_string_def)
    have st: "store32 x (unat p) w i = x i" if "unat p + 8 \<le> i" for x w i
      using that by (simp add: store32_def)
    have same: "same_out (unat p) (unat p + tag_len (Cmdline_tag s)) m (write_string m2 (unat p + 8) t)"
      if "length t \<le> length s" for t
      using that cmdline_words [of "length s"]
      by (intro same_out_write) (simp_all add: m2_def set_hdr_def same_out_store32 same_out_def, simp add: store32_def)
    have "tag_at m' (unat p) (Cmdline_tag s) \<and> p' = tag_next m' p
      \<and> same_out (unat p) (unat p + tag_len (Cmdline_tag s)) m m'"
    proof (cases "strstr_s a ''ethaddr='' \<or> eth = None")
      case True
      then have e: "s = a" "m' = write_string m2 (unat p + 8) s" "p' = tag_next m' p"
        using d eth by (cases "strstr_s a ''ethaddr=''"; auto simp: se m1_def m2_def)+
      have "tag_at m' (unat p) (Cmdline_tag s)"
        using a n False m2 ws by (intro tag_at_cmdline [where m' = m2]) (simp_all add: e(1,2))
      then show ?thesis using e same [of s] by simp
    next
      case N: False
      then obtain v where v: "eth = Some v" by auto
      have nv: "NUL \<notin> set v" using eth v by (auto dest: getenv_str_no_nul)
      define x where "x = '' ethaddr='' @ v"
      have sp: "sprintf '' ethaddr=%s'' [VStr (Some v)] = Some x" "NUL \<notin> set x" using nv
        by (simp_all only: sprintf_ethaddr x_def) simp
      have e1: "s = a @ x" using N v by (simp add: se x_def)
      have "m' = store32 (write_string m1 (unat p + 8 + length a) x) (unat p)
          (drop_bit 2 (8 + of_nat (length a + length x) + 1 + 4))" "p' = tag_next m' p"
        using d eth N v by (auto simp: sp(1) simp del: of_nat_add)
      then have e: "s = a @ x" "p' = tag_next m' p"
        "m' = store32 (write_string m2 (unat p + 8) s) (unat p) (drop_bit 2 (8 + of_nat (length s) + 1 + 4))"
        by (simp_all only: e1 m1_def m2_def [symmetric] write_string_append length_append)
      have "tag_at m' (unat p) (Cmdline_tag s)"
        using a sp(2) n False m2 ws st
        by (intro tag_at_cmdline [where m' = m2]) (simp_all add: e(1,3) load32_store32)
      moreover have "same_out (unat p) (unat p + tag_len (Cmdline_tag s)) m m'"
        unfolding e(3) using cmdline_words [of "length s"] by (intro same_out_store32 same) simp_all
      ultimately show ?thesis using e(2) by simp
    qed
    moreover have "tag_len (Cmdline_tag s) \<le> 13 + length s" by simp
    ultimately show ?thesis using n ne tag_next_at [of m' p "Cmdline_tag s"] by (auto simp del: tag_len.simps)
  qed
qed

definition linux_tags :: "board \<Rightarrow> string option \<Rightarrow> string option \<Rightarrow> atag list" where
  "linux_tags bd args eth = [Core, Mem_tag (bi_dram_size bd) (bi_dram_start bd)]
     @ cmdline_tags (kernel_cmdline args eth)"

definition tags_end :: "addr \<Rightarrow> atag list \<Rightarrow> addr" where
  "tags_end p ts = p + sum_list (map tag_len ts) + 8"

lemma do_bootm_linux_tags:
  assumes "getenv_str cfg (benv st) ''bootargs'' = Some args" "getenv_str cfg (benv st) ''ethaddr'' = Some eth"
    "getenv_str cfg (benv st) ''machid'' = Some mid"
    "tags_end (unat (bi_boot_params bd)) (linux_tags bd args eth) < 2 ^ 32"
  shows "\<exists>m. do_bootm_linux cfg bd 0 argv st = Some (Enters (ep (images st)) (Linux_args
        (case mid of Some s \<Rightarrow> fst (simple_strtoul s 16) | None \<Rightarrow> bi_arch_number bd) (bi_boot_params bd)),
      st\<lparr>bmem := m\<rparr>)
    \<and> tags_at m (unat (bi_boot_params bd)) (linux_tags bd args eth)
    \<and> same_out (unat (bi_boot_params bd)) (tags_end (unat (bi_boot_params bd)) (linux_tags bd args eth)) (bmem st) m"
proof -
  let ?p = "bi_boot_params bd" and ?s = "kernel_cmdline args eth"
  let ?cl = "sum_list (map tag_len (cmdline_tags ?s))"
  obtain m1 p1 where 1: "setup_start_tag bd (bmem st) = (m1, p1)" by fastforce
  obtain m2 p2 where 2: "setup_memory_tags bd (m1, p1) = (m2, p2)" by fastforce
  have n: "unat ?p + 36 + ?cl + 8 < 2 ^ 32" using assms(4) by (simp add: tags_end_def linux_tags_def)
  have a1: "tag_at m1 (unat ?p) Core" "unat p1 = unat ?p + 20" "same_out (unat ?p) (unat ?p + 20) (bmem st) m1"
    using setup_start_tag_at [OF 1] n by simp_all
  have a2: "tag_at m2 (unat ?p + 20) (Mem_tag (bi_dram_size bd) (bi_dram_start bd))" "unat p2 = unat ?p + 36"
      "same_out (unat ?p + 20) (unat ?p + 36) m1 m2"
    using setup_memory_tags_at [OF 2] n a1(2) by (simp_all add: ac_simps)
  have "\<exists>m3 p3. setup_commandline_tag cfg (benv st) args (m2, p2) = Some (m3, p3)"
    using assms(2) by (auto simp: setup_commandline_tag_def Let_def sprintf_ethaddr split: option.splits)
  then obtain m3 p3 where 3: "setup_commandline_tag cfg (benv st) args (m2, p2) = Some (m3, p3)" by blast
  have nul: "NUL \<notin> set s" if "args = Some s" for s using assms(1) that getenv_str_no_nul by blast
  have "unat p2 + 13 + length ?s < 2 ^ 32" if "?s \<noteq> []"
  proof -
    have "?cl = 4 * ((13 + length ?s) div 4)" using that by (simp add: cmdline_tags_def)
    then show ?thesis using n cmdline_words [of "length ?s"] a2(2) by linarith
  qed
  note c = setup_commandline_tag_at [OF 3 assms(2) nul this]
  have c': "unat p3 = unat p2 + ?cl" "same_out (unat p2) (unat p3) m2 m3"
      "?s \<noteq> [] \<Longrightarrow> tag_at m3 (unat p2) (Cmdline_tag ?s)"
    using c by (auto simp: cmdline_tags_def same_out_def simp del: tag_len.simps split: if_split_asm)
  define m where "m = setup_end_tag (m3, p3)"
  have m: "same_out (unat p3) (unat p3 + 8) m3 m" "load32 m (unat p3) = 0" "load32 m (unat p3 + 4) = ATAG_NONE"
    by (auto simp: m_def setup_end_tag_def set_hdr_def load32_store32 intro!: same_out_store32) (simp add: same_out_def)
  have s1: "same_out (unat ?p + 20) (unat p3 + 8) m1 m" and s2: "same_out (unat ?p + 36) (unat p3 + 8) m2 m"
    using a2 c' m(1) by (auto simp: same_out_def)
  have t0: "tag_at m (unat ?p) Core" "tag_at m (unat ?p + 20) (Mem_tag (bi_dram_size bd) (bi_dram_start bd))"
    using tag_at_same [OF _ a1(1)] tag_at_same [OF _ a2(1)] s1 s2 by (simp_all add: ac_simps)
  have t1: "?s \<noteq> [] \<Longrightarrow> tag_at m (unat p2) (Cmdline_tag ?s)"
    using tag_at_same [of "unat p2" "Cmdline_tag ?s" "unat p3 + 8" m3 m] c' m(1) by (simp add: cmdline_tags_def del: tag_len.simps)
  have "tags_at m (unat p2) (cmdline_tags ?s)"
    using t1 m(2,3) c'(1) by (cases "?s = []") (simp_all add: cmdline_tags_def del: tag_len.simps)
  then have "tags_at m (unat ?p) (linux_tags bd args eth)"
    using t0 a2(2) by (simp add: linux_tags_def ac_simps)
  moreover have "same_out (unat ?p) (tags_end (unat ?p) (linux_tags bd args eth)) (bmem st) m"
    using a1 a2 c' m(1) by (auto simp: same_out_def tags_end_def linux_tags_def)
  moreover have "do_bootm_linux cfg bd 0 argv st = Some (Enters (ep (images st)) (Linux_args
        (case mid of Some s \<Rightarrow> fst (simple_strtoul s 16) | None \<Rightarrow> bi_arch_number bd) ?p), st\<lparr>bmem := m\<rparr>)"
    using assms(1,3) 1 2 3 by (simp add: do_bootm_linux_def m_def)
  ultimately show ?thesis by blast
qed

section \<open>A good image boots\<close>

text \<open>The messages about an image never stop a boot, unless the files of a multi-file image have to
  be counted.\<close>

lemmas conv_simps = vs_conv_def vs_width_def vs_precision_def vs_qualifier_def is_digit_def vs_num_def
  skip_atoi_def

lemma print_size_total: "\<exists>s. print_size n t = Some s"
proof -
  have "\<exists>s. sprintf ''%2ld'' [VInt a] = Some s" "\<exists>s. sprintf ''.%ld'' [VInt a] = Some s"
    "\<exists>s. sprintf '' %cB%s'' [VInt a, VStr t] = Some s" for a t
    by (simp_all add: sprintf_def vsprintf_def conv_simps Let_def split: prod.splits)
  then obtain f g h where "\<And>a. sprintf ''%2ld'' [VInt a] = Some (f a)" "\<And>a. sprintf ''.%ld'' [VInt a] = Some (g a)"
    "\<And>a t. sprintf '' %cB%s'' [VInt a, VStr t] = Some (h a t)" by metis
  then show ?thesis unfolding print_size_def Let_def by (simp split: prod.split)
qed

lemma print_contents_total:
  assumes "image_get_type m hdr \<noteq> IH_TYPE_MULTI" "image_get_type m hdr \<noteq> IH_TYPE_SCRIPT"
  shows "\<exists>s. image_print_contents m hdr = Some s"
proof -
  have 1: "\<exists>s. sprintf (''%sImage Name:   %.*s'' @ nl) [VStr a, VInt b, VStr c] = Some s" for a b c
    by (simp add: sprintf_def vsprintf_def conv_simps Let_def split: prod.splits)
  have 2: "\<exists>s. sprintf ''%sImage Type:   '' [VStr a] = Some s" "\<exists>s. sprintf ''%sData Size:    '' [VStr a] = Some s" for a
    by (simp_all add: sprintf_simps del: vsprintf_loop.simps(2))
  have 3: "\<exists>s. sprintf (''%sLoad Address: %08x'' @ nl) [VStr a, VInt b] = Some s"
    "\<exists>s. sprintf (''%sEntry Point:  %08x'' @ nl) [VStr a, VInt b] = Some s" for a b
    by (simp_all add: sprintf_simps del: vsprintf_loop.simps(2))
  have 4: "\<exists>s. image_print_type m hdr = Some s"
    unfolding image_print_type_def Let_def by (simp add: sprintf_simps del: vsprintf_loop.simps(2))
  have "\<exists>s. sprintf ''%d Bytes = '' [VInt n] = Some s" for n
    by (simp add: sprintf_simps del: vsprintf_loop.simps(2))
  then have 5: "\<exists>s. genimg_print_size n = Some s" for n
    using print_size_total unfolding genimg_print_size_def by (metis bind.bind_lunit)
  from 1 [of "Some ''   ''" 32 "Some (text_upto m (unat (image_get_name hdr)) IH_NMLEN)"]
    2 [of "Some ''   ''"] 3(1) [of "Some ''   ''" "image_get_load m hdr"] 3(2) [of "Some ''   ''" "image_get_ep m hdr"]
    4 5 [of "image_get_data_size m hdr"]
  show ?thesis unfolding image_print_contents_def Let_def using assms by (auto simp: image_check_type_def)
qed

lemma add_region_first:
  assumes "length (region rgn) = 9" "cnt rgn = 1"
  shows "\<exists>ret rgn'. lmb_add_region rgn b sz = Some (ret, rgn') \<and> length (region rgn') = 9
    \<and> (psize (region rgn ! 0) = 0 \<longrightarrow> cnt rgn' = 1)"
proof (cases "psize (region rgn ! 0) = 0")
  case True
  then show ?thesis using assms by (simp add: lmb_add_region_def get_def put_def)
next
  case False
  let ?p = "region rgn ! 0"
  have g: "get rgn 0 = Some ?p" using assms by (simp add: get_def)
  have s1: "add_scan rgn b sz 1 = Some (Inr (1, 0, rgn))"
    using assms(2) by (subst add_scan.simps) simp
  have s0: "\<exists>x rgn'. add_scan rgn b sz 0 = Some x \<and> length (region rgn') = 9 \<and> cnt rgn' = 1
      \<and> (x = Inl () \<or> x = Inr (0, 1, rgn') \<or> x = Inr (1, 0, rgn'))"
    using assms g s1 by (subst add_scan.simps) (auto simp: put_def Let_def)
  have ins: "\<exists>rgn''. insert_down rgn' b sz 1 = Some rgn'' \<and> length (region rgn'') = 9"
    if "length (region rgn') = 9" for rgn'
    using that by (simp add: get_def put_def)
  have "\<exists>ret rgn'. lmb_add_region rgn b sz = Some (ret, rgn') \<and> length (region rgn') = 9"
    using s0
  proof (elim exE conjE disjE)
    fix x and rgn' :: lmb_region assume x: "add_scan rgn b sz 0 = Some x" "length (region rgn') = 9" "cnt rgn' = 1"
    { assume "x = Inl ()"
      then show ?thesis using x(1) g False assms by (simp add: lmb_add_region_def) }
    { assume "x = Inr (0, 1, rgn')"
      then show ?thesis using x g False by (simp add: lmb_add_region_def) }
    { assume "x = Inr (1, 0, rgn')"
      moreover obtain rgn'' where "insert_down rgn' b sz 1 = Some rgn''" "length (region rgn'') = 9"
        using ins [OF x(2)] by blast
      ultimately show ?thesis
        using x g False by (auto simp: lmb_add_region_def MAX_LMB_REGIONS_def get_def put_def simp del: insert_down.simps) }
  qed
  then show ?thesis using False by simp
qed

lemma bootm_start_lmb_total:
  assumes "env_rep cfg (benv st) defs" "images st = cleared_images\<lparr>verify := v\<rparr>"
  shows "\<exists>l. bootm_start_lmb cfg bd st = Some (st\<lparr>images := (images st)\<lparr>hlmb := l\<rparr>\<rparr>)
    \<and> length (region (reserved l)) = 9 \<and> cnt (reserved l) = 1"
proof -
  have "name_ok ''bootm_low''" "name_ok ''bootm_size''" by (simp_all add: name_ok_def)
  note env = getenv_str_map_of [OF assms(1) this(1)] getenv_str_map_of [OF assms(1) this(2)]
  obtain lo sz where lo: "getenv_bootm_low cfg bd (benv st) = Some lo" "getenv_bootm_size cfg bd (benv st) = Some sz"
    using env by (auto simp: getenv_bootm_low_def getenv_bootm_size_def)
  define l where "l = lmb_init (hlmb (images st))"
  have l: "length (region (memory l)) = 9" "cnt (memory l) = 1" "length (region (reserved l)) = 9" "cnt (reserved l) = 1"
      "psize (region (reserved l) ! 0) = 0"
    by (simp_all add: l_def lmb_init_def assms(2) cleared_images_def Let_def)
  obtain r rgn where m: "lmb_add_region (memory l) lo sz = Some (r, rgn)" using add_region_first [OF l(1,2)] by blast
  let ?l = "l\<lparr>memory := rgn\<rparr>"
  have "\<exists>l'. arch_lmb_reserve bd ?l = Some l' \<and> length (region (reserved l')) = 9 \<and> cnt (reserved l') = 1"
    using add_region_first [OF l(3,4), of "get_sp bd - 1024" "bi_dram_start bd + bi_dram_size bd - (get_sp bd - 1024)"] l
    by (auto simp: arch_lmb_reserve_def lmb_reserve_def Let_def)
  then show ?thesis using lo m by (auto simp: bootm_start_lmb_def l_def [symmetric] lmb_add_def)
qed

text \<open>An image that \<^verbatim>\<open>bootm\<close> can start: the checks succeed, and it is an uncompressed Linux kernel for
  ARM that is not executed in place.\<close>

definition bootable :: "mem \<Rightarrow> u32 \<Rightarrow> bool" where
  "bootable m h \<longleftrightarrow> h \<noteq> 0 \<and> image_check_magic m h \<and> image_check_hcrc m h \<and> image_check_dcrc m h
     \<and> image_check_target_arch m h \<and> image_get_type m h = IH_TYPE_KERNEL \<and> image_get_os m h = IH_OS_LINUX
     \<and> image_get_comp m h = IH_COMP_NONE \<and> image_get_data_size m h \<noteq> 0 \<and> image_get_load m h \<noteq> h"

lemma bootable_kernel: "bootable m h \<Longrightarrow> image_get_kernel m h v = Some h"
  using print_contents_total [of m h] by (auto simp: bootable_def image_get_kernel_def Let_def)

lemma bootable_format: "bootable m h \<Longrightarrow> genimg_get_format m h = IMAGE_FORMAT_LEGACY"
  by (simp add: bootable_def genimg_get_format_def image_check_magic_def)

lemma boot_get_kernel_boots:
  assumes "bootable (bmem st) h" "kernel_addr (benv st) argv = h"
  shows "boot_get_kernel cfg st argv = Some (h, st\<lparr>images := (images st)\<lparr>
      os := (os (images st))\<lparr>image_start := image_get_data h, image_len := image_get_data_size (bmem st) h\<rparr>,
      legacy_hdr_os_copy := header_copy (bmem st) h, legacy_hdr_os := h, legacy_hdr_valid := True\<rparr>\<rparr>)"
  using assms bootable_kernel [OF assms(1)] bootable_format [OF assms(1)]
  by (simp add: boot_get_kernel_def Let_def kernel_addr_def [symmetric] genimg_get_image_def) (simp add: bootable_def)

lemma bootm_start_boots:
  assumes b: "bootable (bmem st) h" "kernel_addr (benv st) argv = h"
    and a: "length argv < 3 \<or> strcmp_s (argv ! 2) ''-'' = 0"
    and e: "env_rep cfg (benv st) defs"
  defines "m \<equiv> bmem st"
  shows "\<exists>st'. bootm_start cfg bd st argv = Some (0, st') \<and> bmem st' = m \<and> benv st' = benv st
    \<and> ep (images st') = image_get_ep m h
    \<and> os (images st') = \<lparr>os_start = h, os_end = image_get_image_end m h, image_start = image_get_data h,
        image_len = image_get_data_size m h, os_load = image_get_load m h, os_comp = IH_COMP_NONE,
        os_type = IH_TYPE_KERNEL, os_os = IH_OS_LINUX\<rparr>
    \<and> legacy_hdr_valid (images st') \<and> length (region (reserved (hlmb (images st')))) = 9
    \<and> cnt (reserved (hlmb (images st'))) = 1"
proof -
  have "name_ok ''verify''" by (simp add: name_ok_def)
  then obtain v where v: "getenv_yesno cfg (benv st) ''verify'' = Some v"
    using getenv_str_map_of [OF e] by (auto simp: getenv_yesno_def)
  let ?st = "st\<lparr>images := cleared_images\<lparr>verify := v\<rparr>\<rparr>"
  obtain l where l: "bootm_start_lmb cfg bd ?st = Some (?st\<lparr>images := (images ?st)\<lparr>hlmb := l\<rparr>\<rparr>)"
      "length (region (reserved l)) = 9" "cnt (reserved l) = 1"
    using bootm_start_lmb_total [of cfg ?st defs v bd] e by auto
  let ?st2 = "?st\<lparr>images := (images ?st)\<lparr>hlmb := l\<rparr>\<rparr>"
  have k: "boot_get_kernel cfg ?st2 argv = Some (h, ?st2\<lparr>images := (images ?st2)\<lparr>
      os := (os (images ?st2))\<lparr>image_start := image_get_data h, image_len := image_get_data_size m h\<rparr>,
      legacy_hdr_os_copy := header_copy m h, legacy_hdr_os := h, legacy_hdr_valid := True\<rparr>\<rparr>)"
    using boot_get_kernel_boots [of ?st2 h argv cfg] b by (simp add: m_def)
  have rd: "boot_get_ramdisk m argv im arch = Some (0, 0, 0)"
    if "legacy_hdr_os_copy im = header_copy m h" for im arch
  proof -
    have "\<not> image_check_type (legacy_hdr_os_copy im) 0 IH_TYPE_MULTI"
      using b(1) that by (simp add: image_check_type_def header_copy_type bootable_def m_def)
    then show ?thesis using a by (auto simp: boot_get_ramdisk_def Let_def)
  qed
  show ?thesis
    using v l k b(1) bootable_format [OF b(1)] rd
    by (simp add: bootm_start_def Let_def m_def header_copy_ep cleared_images_def) (simp add: bootable_def)
qed

lemma bootm_boots_lemma:
  assumes b: "bootable (bmem st) h" "kernel_addr (benv st) argv = h"
    and a: "length argv < 2 \<or> snd (simple_strtoul (argv ! 1) 16) = []" "length argv < 3 \<or> strcmp_s (argv ! 2) ''-'' = 0"
    and e: "env_rep cfg (benv st) defs"
    and ts: "ts = linux_tags bd (map_of defs ''bootargs'') (map_of defs ''ethaddr'')"
      "tags_end (unat (bi_boot_params bd)) ts < 2 ^ 32"
    and load: "load = unat (image_get_load (bmem st) h)" "len = unat (image_get_data_size (bmem st) h)"
      "load + len \<le> unat (bi_boot_params bd) \<or> tags_end (unat (bi_boot_params bd)) ts \<le> load"
  shows "\<exists>machid st'. do_bootm cfg bd st argv = Some (Enters (image_get_ep (bmem st) h) (Linux_args machid (bi_boot_params bd)), st')
    \<and> bytes_at (bmem st') load len = bytes_at (bmem st) (unat (image_get_data h)) len
    \<and> tags_at (bmem st') (unat (bi_boot_params bd)) ts"
proof -
  let ?m = "bmem st"
  obtain st1 where 1: "bootm_start cfg bd st argv = Some (0, st1)" "bmem st1 = ?m" "benv st1 = benv st"
      "ep (images st1) = image_get_ep ?m h" "legacy_hdr_valid (images st1)"
      "length (region (reserved (hlmb (images st1)))) = 9" "cnt (reserved (hlmb (images st1))) = 1"
      "os (images st1) = \<lparr>os_start = h, os_end = image_get_image_end ?m h, image_start = image_get_data h,
        image_len = image_get_data_size ?m h, os_load = image_get_load ?m h, os_comp = IH_COMP_NONE,
        os_type = IH_TYPE_KERNEL, os_os = IH_OS_LINUX\<rparr>"
    using bootm_start_boots [OF b a(2) e] by blast
  have ne: "image_get_load ?m h \<noteq> h" using b(1) by (simp add: bootable_def)
  define m2 where "m2 = (if image_get_load ?m h \<noteq> image_get_data h
    then memmove_wd ?m (image_get_load ?m h) (image_get_data h) (image_get_data_size ?m h) else ?m)"
  have m2: "bytes_at m2 load len = bytes_at ?m (unat (image_get_data h)) len"
    using load(1,2) by (auto simp: m2_def memmove_wd_def memmove_blit bytes_at_blit)
  obtain r le where 2: "bootm_load_os bd ?m (os (images st1)) 0 = Some (r, le, m2)" "r \<in> {0, - 2}"
    using ne by (simp add: bootm_load_os_def 1(8) m2_def [symmetric] Let_def)
  obtain x l where 3: "lmb_reserve (hlmb (images st1)) (os_load (os (images st1))) (le - os_load (os (images st1))) = Some (x, l)"
    using add_region_first [OF 1(6,7), of "os_load (os (images st1))" "le - os_load (os (images st1))"]
    by (auto simp: lmb_reserve_def)
  define st3 where "st3 = st1\<lparr>bmem := m2, images := (images st1)\<lparr>hlmb := l\<rparr>\<rparr>"
  have st3: "bmem st3 = m2" "benv st3 = benv st" "ep (images st3) = image_get_ep ?m h"
    by (simp_all add: st3_def 1)
  have env: "getenv_str cfg (benv st3) n = Some (map_of defs n)" if "name_ok n" for n
    using getenv_str_map_of [OF e that] st3(2) by simp
  obtain m where 4: "do_bootm_linux cfg bd 0 argv st3 = Some (Enters (ep (images st3)) (Linux_args
        (case map_of defs ''machid'' of Some s \<Rightarrow> fst (simple_strtoul s 16) | None \<Rightarrow> bi_arch_number bd) (bi_boot_params bd)),
      st3\<lparr>bmem := m\<rparr>)" "tags_at m (unat (bi_boot_params bd)) ts"
      "same_out (unat (bi_boot_params bd)) (tags_end (unat (bi_boot_params bd)) ts) m2 m"
    using do_bootm_linux_tags [OF env env env, of bd argv] ts st3(1) by (auto simp: name_ok_def)
  have "bytes_at m load len = bytes_at m2 load len"
    using 4(3) load(3) by (auto simp: bytes_at_eq_iff same_out_def)
  moreover have "do_bootm cfg bd st argv = Some (Enters (ep (images st3)) (Linux_args
        (case map_of defs ''machid'' of Some s \<Rightarrow> fst (simple_strtoul s 16) | None \<Rightarrow> bi_arch_number bd) (bi_boot_params bd)),
      st3\<lparr>bmem := m\<rparr>)"
  proof -
    have bo: "boot_os IH_OS_LINUX = Some (Some do_bootm_linux)" by (simp add: boot_os_def)
    have nsub: "\<not> (1 < length argv \<and> (case snd (simple_strtoul (argv ! 1) 16) of [] \<Rightarrow> False
       | c # _ \<Rightarrow> c \<noteq> CHR '':'' \<and> c \<noteq> CHR ''#''))"
      using a(1) by auto
    then show ?thesis
      using 1 2 3 4(1) bo unfolding do_bootm_def Let_def if_not_P [OF nsub] st3_def
      by auto
  qed
  ultimately show ?thesis using m2 st3(3) 4(2) by auto
qed

section \<open>Examples\<close>

definition volkh_board :: board where
  "volkh_board = \<lparr>bi_dram_start = 0xA0000000, bi_dram_size = 0x4000000, bi_arch_number = 4446,
     bi_boot_params = 0xA0000000, get_sp = 0x20007F00, inflate = (\<lambda>m _ _ _ _. (False, 0, m)), appl = (\<lambda>_ _ st. st)\<rparr>"

definition volkh_env :: ubenv where
  "volkh_env = (set_default_env volkh_cfg ((sample_env [])\<lparr>env_default := bytes_of (default_environment volkh_cfg),
     load_addr := 0xA0007FC0\<rparr>))\<lparr>env_addr := In_env_ptr\<rparr>"

definition sample_kernel :: "u8 list" where "sample_kernel = [1, 2, 3, 4]"

definition sample_boot :: boot_state where
  "sample_boot = \<lparr>bmem = image_at 0xA0007FC0 (mkimage (sample_params\<lparr>p_type := IH_TYPE_KERNEL\<rparr>) [sample_kernel]),
     benv = volkh_env, images = cleared_images\<rparr>"

lemma volkh_env_rep: "env_rep volkh_cfg volkh_env volkh_defs" "load_addr volkh_env = 0xA0007FC0"
proof -
  show "env_rep volkh_cfg volkh_env volkh_defs"
    unfolding volkh_env_def by (rule set_default_env_volkh) simp
  show "load_addr volkh_env = 0xA0007FC0"
    by (simp add: volkh_env_def set_default_env_def env_crc_update_def)
qed

lemma sample_bootable: "bootable (bmem sample_boot) 0xA0007FC0"
    "image_get_load (bmem sample_boot) 0xA0007FC0 = 0xA0008000" "image_get_ep (bmem sample_boot) 0xA0007FC0 = 0xA0008001"
    "unat (image_get_data_size (bmem sample_boot) 0xA0007FC0) = 4"
    "bytes_at (bmem sample_boot) (unat (image_get_data 0xA0007FC0)) 4 = sample_kernel"
proof -
  let ?par = "sample_params\<lparr>p_type := IH_TYPE_KERNEL\<rparr>" and ?h = "0xA0007FC0 :: u32"
  let ?m = "bmem sample_boot"
  have i: "bytes_at ?m (unat ?h) (length (mkimage ?par [sample_kernel])) = mkimage ?par [sample_kernel]"
    using bytes_at_image_at [of "0xA0007FC0"] by (simp add: sample_boot_def)
  have n: "unat ?h + 64 + length (payload ?par [sample_kernel]) + 3 < 2 ^ 32"
    by (simp add: payload_def copy_file_def sample_kernel_def)
  note r = mkimage_correct [OF i n]
  have f: "[sample_kernel] \<noteq> [] \<and> (\<forall>f \<in> set [sample_kernel]. f \<noteq> [])" by (simp add: sample_kernel_def)
  note r = r [OF f]
  have k: "bytes_at ?m (unat (image_get_data ?h)) (unat (image_get_data_size ?m ?h)) = sample_kernel"
    using r by simp
  from arg_cong [OF this, of length] show len: "unat (image_get_data_size ?m ?h) = 4" by (simp add: sample_kernel_def)
  then show "bytes_at ?m (unat (image_get_data ?h)) 4 = sample_kernel" using k by simp
  show "image_get_load ?m ?h = 0xA0008000" "image_get_ep ?m ?h = 0xA0008001"
    using r by (simp_all add: sample_params_def)
  moreover have "image_get_data_size ?m ?h \<noteq> 0" using len by auto
  ultimately show "bootable ?m ?h"
    using r by (simp add: bootable_def sample_params_def image_check_target_arch_def image_check_arch_def)
qed

lemma sample_linux_tags:
  "linux_tags volkh_board (map_of volkh_defs ''bootargs'') e = [Core, Mem_tag 0x4000000 0xA0000000]"
  by (simp add: linux_tags_def volkh_board_def volkh_defs_def kernel_cmdline_def cmdline_tags_def)

lemma sample_premises:
  "kernel_addr (benv sample_boot) (''bootm'' # []) = 0xA0007FC0"
  "env_rep volkh_cfg (benv sample_boot) volkh_defs"
  "[Core, Mem_tag 0x4000000 0xA0000000]
     = linux_tags volkh_board (map_of volkh_defs ''bootargs'') (map_of volkh_defs ''ethaddr'')"
  "bi_boot_params volkh_board = 0xA0000000"
  "0xA0008000 = unat (image_get_load (bmem sample_boot) 0xA0007FC0)"
  "4 = unat (image_get_data_size (bmem sample_boot) 0xA0007FC0)"
  using volkh_env_rep sample_bootable(2,4)
  by (simp_all only: sample_linux_tags) (simp_all add: kernel_addr_def sample_boot_def volkh_board_def)

lemma sample_one_arg:
  "length [''bootm''] < 2 \<or> snd (simple_strtoul ([''bootm''] ! 1) 16) = []"
  "length [''bootm''] < 3 \<or> strcmp_s ([''bootm''] ! 2) ''-'' = 0" by simp_all

lemma sample_boots:
  "\<exists>machid st'. do_bootm volkh_cfg volkh_board sample_boot [''bootm'']
      = Some (Enters 0xA0008001 (Linux_args machid 0xA0000000), st')"
  using bootm_boots_lemma [OF sample_bootable(1) sample_premises(1) sample_one_arg sample_premises(2,3) _ sample_premises(5,6),
      unfolded sample_premises(4) sample_bootable(3)]
  by (auto simp: tags_end_def)

lemma sample_sub_run: "\<exists>st. sub_run volkh_cfg volkh_board st [0x10, 0x40] \<and> state (images st) = 0x51"
proof -
  have "kernel_addr (benv sample_boot) [''start''] = 0xA0007FC0"
    using sample_premises(1) by (simp add: kernel_addr_def)
  then obtain st1 where 1: "bootm_start volkh_cfg volkh_board sample_boot [''start''] = Some (0, st1)"
      "benv st1 = benv sample_boot" "os_os (os (images st1)) = IH_OS_LINUX"
    using bootm_start_boots [OF sample_bootable(1) _ _ sample_premises(2), of "[''start'']" volkh_board] by fastforce
  have s: "state (images st1) = 1" using bootm_start_state [OF 1(1)] by (simp add: codes)
  have f: "find_cmd_tbl ''start'' cmd_bootm_sub = Some (bootm_sub ''start'' 1)"
    "find_cmd_tbl ''cmdline'' cmd_bootm_sub = Some (bootm_sub ''cmdline'' 0x10)"
    "find_cmd_tbl ''prep'' cmd_bootm_sub = Some (bootm_sub ''prep'' 0x40)" by code_simp+
  have env: "getenv_str volkh_cfg (benv sample_boot) ''bootargs'' = Some (map_of volkh_defs ''bootargs'')"
    using getenv_str_map_of [OF sample_premises(2)] by (simp add: name_ok_def)
  have r0: "sub_run volkh_cfg volkh_board st1 []"
    using sub_run.start [of "[''bootm'', ''start'']" "bootm_sub ''start'' 1" volkh_cfg volkh_board sample_boot "Returns 0" st1]
    by (simp add: f do_bootm_subcommand_def bootm_sub_def codes 1)
  let ?st2 = "st1\<lparr>images := (images st1)\<lparr>state := 0x11\<rparr>\<rparr>"
  have d1: "do_bootm_subcommand volkh_cfg volkh_board st1 [''bootm'', ''cmdline''] = Some (Returns 1, ?st2)"
    by (simp add: f do_bootm_subcommand_def bootm_sub_def codes s boot_os_def 1 do_bootm_linux_def env)
  have "state (images ?st2) \<noteq> state (images st1)" using s by simp
  then have n1: "?st2 \<noteq> st1" by metis
  have r1: "sub_run volkh_cfg volkh_board ?st2 [0x10]"
    using sub_run.step [OF r0 _ _ d1, of "bootm_sub ''cmdline'' 0x10"] n1 by (simp add: f bootm_sub_def codes)
  let ?st3 = "st1\<lparr>images := (images st1)\<lparr>state := 0x51\<rparr>\<rparr>"
  have d2: "do_bootm_subcommand volkh_cfg volkh_board ?st2 [''bootm'', ''prep''] = Some (Returns 1, ?st3)"
    by (simp add: f do_bootm_subcommand_def bootm_sub_def codes s boot_os_def 1 do_bootm_linux_def env)
  have "state (images ?st3) \<noteq> state (images ?st2)" by simp
  then have n2: "?st3 \<noteq> ?st2" by metis
  have "sub_run volkh_cfg volkh_board ?st3 [0x10, 0x40]"
    using sub_run.step [OF r1 _ _ d2, of "bootm_sub ''prep'' 0x40"] n2 by (simp add: f bootm_sub_def codes)
  then show ?thesis by (intro exI [of _ ?st3]) simp
qed

text \<open>C2: an image that passes the checks, for Linux and uncompressed, does boot: \<open>bootm\<close> enters the
  kernel at its entry point with the data of the image at the load address and, at the address that
  it passes, the list of tags with the memory of the board and the command line of \<^verbatim>\<open>bootargs\<close>,
  \<^verbatim>\<open>ethaddr\<close> appended.\<close>

theorem bootm_boots:
  assumes "bootable (bmem st) h" "kernel_addr (benv st) argv = h"
    and "length argv < 2 \<or> snd (simple_strtoul (argv ! 1) 16) = []" "length argv < 3 \<or> strcmp_s (argv ! 2) ''-'' = 0"
    and "env_rep cfg (benv st) defs"
    and "ts = linux_tags bd (map_of defs ''bootargs'') (map_of defs ''ethaddr'')"
      "tags_end (unat (bi_boot_params bd)) ts < 2 ^ 32"
    and "load = unat (image_get_load (bmem st) h)" "len = unat (image_get_data_size (bmem st) h)"
      "load + len \<le> unat (bi_boot_params bd) \<or> tags_end (unat (bi_boot_params bd)) ts \<le> load"
  shows "\<exists>machid st'. do_bootm cfg bd st argv = Some (Enters (image_get_ep (bmem st) h) (Linux_args machid (bi_boot_params bd)), st')
    \<and> bytes_at (bmem st') load len = bytes_at (bmem st) (unat (image_get_data h)) len
    \<and> tags_at (bmem st') (unat (bi_boot_params bd)) ts"
  by (rule bootm_boots_lemma [OF assms])

theorem bootm_boots_witness:
  "\<exists>machid st'. do_bootm volkh_cfg volkh_board sample_boot [''bootm'']
      = Some (Enters 0xA0008001 (Linux_args machid 0xA0000000), st')
    \<and> bytes_at (bmem st') 0xA0008000 4 = [1, 2, 3, 4]
    \<and> tags_at (bmem st') 0xA0000000 [Core, Mem_tag 0x4000000 0xA0000000]"
  using bootm_boots [OF sample_bootable(1) sample_premises(1) sample_one_arg sample_premises(2,3) _ sample_premises(5,6),
      unfolded sample_premises(4) sample_bootable(3,5)]
  by (simp add: tags_end_def sample_kernel_def)

lemma go_like_direct: "do_bootm_linux cfg bd BOOTM_STATE_OS_GO argv st = do_bootm_linux cfg bd 0 argv st"
  by (simp add: do_bootm_linux_def)

lemma sample_go:
  "\<exists>st machid st'. started volkh_cfg volkh_board (bmem sample_boot) (benv sample_boot) [''start''] st
    \<and> do_bootm volkh_cfg volkh_board st [''bootm'', ''go''] = Some (Enters 0xA0008001 (Linux_args machid 0xA0000000), st')"
proof -
  have "kernel_addr (benv sample_boot) [''start''] = 0xA0007FC0"
    using sample_premises(1) by (simp add: kernel_addr_def)
  then obtain st1 where 1: "bootm_start volkh_cfg volkh_board sample_boot [''start''] = Some (0, st1)"
      "benv st1 = benv sample_boot" "os_os (os (images st1)) = IH_OS_LINUX"
      "ep (images st1) = image_get_ep (bmem sample_boot) 0xA0007FC0"
    using bootm_start_boots [OF sample_bootable(1) _ _ sample_premises(2), of "[''start'']" volkh_board] by fastforce
  have s: "state (images st1) = 1" using bootm_start_state [OF 1(1)] by (simp add: codes)
  have f: "find_cmd_tbl ''start'' cmd_bootm_sub = Some (bootm_sub ''start'' 1)"
    "find_cmd_tbl ''go'' cmd_bootm_sub = Some (bootm_sub ''go'' 0x80)" by code_simp+
  have st: "started volkh_cfg volkh_board (bmem sample_boot) (benv sample_boot) [''start''] st1"
    using started.start [of "[''bootm'', ''start'']" "bootm_sub ''start'' 1" volkh_cfg volkh_board sample_boot st1]
    by (simp add: f do_bootm_subcommand_def bootm_sub_def codes 1)
  let ?st = "st1\<lparr>images := (images st1)\<lparr>state := 0x81\<rparr>\<rparr>"
  have e: "getenv_str volkh_cfg (benv ?st) n = Some (map_of volkh_defs n)" if "name_ok n" for n
    using getenv_str_map_of [OF sample_premises(2) that] 1(2) by simp
  have n: "name_ok ''bootargs''" "name_ok ''ethaddr''" "name_ok ''machid''" by (simp_all add: name_ok_def)
  have t: "tags_end (unat (bi_boot_params volkh_board)) (linux_tags volkh_board (map_of volkh_defs ''bootargs'') (map_of volkh_defs ''ethaddr'')) < 2 ^ 32"
    using sample_premises(4) by (simp add: sample_premises(3) [symmetric] tags_end_def)
  obtain machid st' where l: "do_bootm_linux volkh_cfg volkh_board 0 [''bootm'', ''go''] ?st = Some (Enters (ep (images ?st)) (Linux_args machid 0xA0000000), st')"
    using do_bootm_linux_tags [OF e [OF n(1)] e [OF n(2)] e [OF n(3)] t, of "[''bootm'', ''go'']"]
    unfolding sample_premises(4) by blast
  have "snd (simple_strtoul ''go'' 16) = ''go''" by code_simp
  then have "do_bootm volkh_cfg volkh_board st1 [''bootm'', ''go''] = do_bootm_subcommand volkh_cfg volkh_board st1 [''bootm'', ''go'']"
    by (simp add: do_bootm_def)
  also have "\<dots> = Some (Enters 0xA0008001 (Linux_args machid 0xA0000000), st')"
    using l 1(3,4) s sample_bootable(3)
    by (simp add: f do_bootm_subcommand_def bootm_sub_def codes boot_os_def go_like_direct [unfolded codes])
  finally show ?thesis using st by blast
qed

theorem bootm_safe_witness:
  "(\<exists>e a st'. do_bootm volkh_cfg volkh_board sample_boot [''bootm''] = Some (Enters e a, st')
    \<and> image_check_hcrc (bmem sample_boot) 0xA0007FC0 \<and> e = image_get_ep (bmem sample_boot) 0xA0007FC0)
  \<and> (\<exists>st e a st'. do_bootm volkh_cfg volkh_board st [''bootm'', ''go''] = Some (Enters e a, st')
    \<and> image_check_hcrc (bmem sample_boot) 0xA0007FC0 \<and> e = image_get_ep (bmem sample_boot) 0xA0007FC0)"
proof -
  obtain machid st' where r: "do_bootm volkh_cfg volkh_board sample_boot [''bootm'']
      = Some (Enters 0xA0008001 (Linux_args machid 0xA0000000), st')" using sample_boots by blast
  have k: "kernel_addr (benv sample_boot) [''start''] = 0xA0007FC0" using sample_premises(1) by (simp add: kernel_addr_def)
  have 1: "image_check_hcrc (bmem sample_boot) 0xA0007FC0 \<and> 0xA0008001 = image_get_ep (bmem sample_boot) 0xA0007FC0"
    using bootm_safe [OF r, of "bmem sample_boot" "benv sample_boot" "[''bootm'']"] sample_premises(1)
    by (simp add: names_sub_def Let_def)
  obtain st machid' st2 where g: "started volkh_cfg volkh_board (bmem sample_boot) (benv sample_boot) [''start''] st"
    "do_bootm volkh_cfg volkh_board st [''bootm'', ''go''] = Some (Enters 0xA0008001 (Linux_args machid' 0xA0000000), st2)"
    using sample_go by blast
  have "snd (simple_strtoul ''go'' 16) = ''go''" by code_simp
  then have "names_sub [''bootm'', ''go'']" by (simp add: names_sub_def)
  from bootm_safe [OF g(2), of "bmem sample_boot" "benv sample_boot" "[''start'']"] this g(1) k
  have "image_check_hcrc (bmem sample_boot) 0xA0007FC0 \<and> 0xA0008001 = image_get_ep (bmem sample_boot) 0xA0007FC0"
    by (simp add: Let_def)
  with r g(2) 1 show ?thesis by blast
qed

theorem bootm_sub_order_witness:
  "\<exists>st. sub_run volkh_cfg volkh_board st [0x10, 0x40]
    \<and> do_bootm_subcommand volkh_cfg volkh_board st [''bootm'', ''cmdline''] = Some (Returns 1, st)"
proof -
  obtain st where st: "sub_run volkh_cfg volkh_board st [0x10, 0x40]" "state (images st) = 0x51" using sample_sub_run by blast
  have f: "find_cmd_tbl ''cmdline'' cmd_bootm_sub = Some (bootm_sub ''cmdline'' 0x10)" by code_simp
  then obtain r st' where d: "do_bootm_subcommand volkh_cfg volkh_board st [''bootm'', ''cmdline''] = Some (r, st')"
    using st(2) by (simp add: do_bootm_subcommand_def bootm_sub_def codes)
  have "r = Returns 1 \<and> st' = st"
    using bootm_sub_order [OF st(1), THEN conjunct2, THEN conjunct2, rule_format, of "[''bootm'', ''cmdline'']" "bootm_sub ''cmdline'' 0x10" r st'] f d
    by (simp add: bootm_sub_def codes)
  then show ?thesis using st(1) d by blast
qed

text \<open>\<^verbatim>\<open>iminfo\<close> reports what the checks say.\<close>

lemma image_info_checks:
  assumes "image_get_type m a \<noteq> IH_TYPE_MULTI" "image_get_type m a \<noteq> IH_TYPE_SCRIPT"
  shows "image_info_of m a = Some (if image_check_magic m a \<and> image_check_hcrc m a \<and> image_check_dcrc m a then 0 else 1)"
  using print_contents_total [OF assms]
  by (auto simp: image_info_of_def Let_def genimg_get_format_def image_check_magic_def
      IMAGE_FORMAT_LEGACY_def IMAGE_FORMAT_INVALID_def)

end
