(* ===== verification/Eth.thy ===== *)
theory Eth
  imports Command Volkh
begin

text \<open>
  The network interfaces: \<^verbatim>\<open>net/eth.c\<close> as built with \<^verbatim>\<open>CONFIG_NET_MULTI\<close>, and the address checks of
  \<^verbatim>\<open>include/net.h\<close>.

  The ring of interfaces that \<^verbatim>\<open>eth_devices\<close> and the \<^verbatim>\<open>next\<close> pointers form is a list, in which the
  last is followed by the first; \<^verbatim>\<open>eth_current\<close> is an index.  The drivers are outside of the model: a
  frame that is sent is appended to \<open>frames\<close>, and the results of the calls of \<^verbatim>\<open>init\<close> are the values
  of a stream, so that everything shown holds for all of them; \<open>inits\<close> is the list of the interfaces on
  which it was called.
\<close>

section \<open>State\<close>

datatype eth_state_t = ETH_STATE_INIT | ETH_STATE_PASSIVE | ETH_STATE_ACTIVE

record eth_device =
  dev_name :: string
  enetaddr :: "u8 list"
  dev_state :: eth_state_t

record eth =
  eth_devices :: "eth_device list"
  eth_current :: "nat option"
  first_failed :: "nat option"
  act :: "string option"
  act_changed_id :: u32
  NetRestartWrap :: bool
  eenv :: ubenv
  frames :: "u8 list list"
  init_ret :: "nat \<Rightarrow> int"
  inits :: "nat list"

section \<open>Addresses\<close>

fun parse_enetaddr_loop :: "nat \<Rightarrow> string option \<Rightarrow> u8 list" where
  "parse_enetaddr_loop 0 addr = []"
| "parse_enetaddr_loop (Suc n) addr = (case addr of
       None \<Rightarrow> 0 # parse_enetaddr_loop n None
     | Some s \<Rightarrow> let (v, e) = simple_strtoul s 16
                 in ucast v # parse_enetaddr_loop n (Some (if e \<noteq> [] then tl e else e)))"

definition eth_parse_enetaddr :: "string option \<Rightarrow> u8 list" where
  "eth_parse_enetaddr addr = parse_enetaddr_loop 6 addr"

definition is_zero_ether_addr :: "u8 list \<Rightarrow> bool" where
  "is_zero_ether_addr a \<longleftrightarrow> (a ! 0 OR a ! 1 OR a ! 2 OR a ! 3 OR a ! 4 OR a ! 5) = 0"

definition is_multicast_ether_addr :: "u8 list \<Rightarrow> bool" where
  "is_multicast_ether_addr a \<longleftrightarrow> 0x01 AND a ! 0 \<noteq> 0"

definition is_valid_ether_addr :: "u8 list \<Rightarrow> bool" where
  "is_valid_ether_addr a \<longleftrightarrow> \<not> is_multicast_ether_addr a \<and> \<not> is_zero_ether_addr a"

text \<open>The return value and the address that is stored.\<close>

definition eth_getenv_enetaddr :: "env_cfg \<Rightarrow> ubenv \<Rightarrow> string \<Rightarrow> (bool \<times> u8 list) option" where
  "eth_getenv_enetaddr cfg e name = do {
     s \<leftarrow> getenv_str cfg e name;
     let a = eth_parse_enetaddr s;
     Some (is_valid_ether_addr a, a)
   }"

text \<open>The address of the array that is printed is not NULL.\<close>

definition eth_setenv_enetaddr :: "env_cfg \<Rightarrow> ubenv \<Rightarrow> string \<Rightarrow> u8 list \<Rightarrow> (int \<times> ubenv) option" where
  "eth_setenv_enetaddr cfg e name a = do {
     buf \<leftarrow> sprintf ''%pM'' [VPtr 1 a];
     setenv cfg e name (Some buf)
   }"

definition eth_getenv_enetaddr_by_index :: "env_cfg \<Rightarrow> ubenv \<Rightarrow> nat \<Rightarrow> (bool \<times> u8 list) option" where
  "eth_getenv_enetaddr_by_index cfg e index = do {
     enetvar \<leftarrow> sprintf (if index \<noteq> 0 then ''eth%daddr'' else ''ethaddr'') [VInt (of_nat index)];
     eth_getenv_enetaddr cfg e enetvar
   }"

section \<open>The ring of interfaces\<close>

definition eth_next :: "eth \<Rightarrow> nat \<Rightarrow> nat" where
  "eth_next st i = (if Suc i < length (eth_devices st) then Suc i else 0)"

fun find_dev :: "eth_device list \<Rightarrow> nat \<Rightarrow> string \<Rightarrow> nat option" where
  "find_dev [] i devname = None"
| "find_dev (d # ds) i devname = (if strcmp_s devname (dev_name d) = 0 then Some i else find_dev ds (i + 1) devname)"

definition eth_get_dev_by_name :: "eth \<Rightarrow> string \<Rightarrow> nat option" where
  "eth_get_dev_by_name st devname = find_dev (eth_devices st) 0 devname"

definition eth_get_dev_by_index :: "eth \<Rightarrow> nat \<Rightarrow> nat option" where
  "eth_get_dev_by_index st index = (if index < length (eth_devices st) then Some index else None)"

text \<open>Without a current interface the loop over the ring does not end.\<close>

definition eth_get_dev_index :: "eth \<Rightarrow> int option" where
  "eth_get_dev_index st = (if eth_devices st = [] then Some (- 1)
     else map_option int (eth_current st))"

definition eth_get_name :: "eth \<Rightarrow> string" where
  "eth_get_name st = (case eth_current st of Some i \<Rightarrow> dev_name (eth_devices st ! i) | None \<Rightarrow> ''unknown'')"

text \<open>The variable \<^verbatim>\<open>ethact\<close> follows the current interface.\<close>

definition update_ethact :: "env_cfg \<Rightarrow> eth \<Rightarrow> eth option" where
  "update_ethact cfg st = do {
     a \<leftarrow> getenv_str cfg (eenv st) ''ethact'';
     if (case a of None \<Rightarrow> True | Some s \<Rightarrow> strcmp_s s (eth_get_name st) \<noteq> 0) then do {
       (_, e) \<leftarrow> setenv cfg (eenv st) ''ethact'' (Some (eth_get_name st));
       Some (st\<lparr>eenv := e\<rparr>)
     } else Some st
   }"

definition eth_register :: "env_cfg \<Rightarrow> eth \<Rightarrow> eth_device \<Rightarrow> eth option" where
  "eth_register cfg st dev = do {
     let first = (eth_devices st = []);
     let st = st\<lparr>eth_devices := eth_devices st @ [dev\<lparr>dev_state := ETH_STATE_INIT\<rparr>]\<rparr>;
     if first then update_ethact cfg (st\<lparr>eth_current := Some 0\<rparr>) else Some st
   }"

definition set_dev :: "eth \<Rightarrow> nat \<Rightarrow> (eth_device \<Rightarrow> eth_device) \<Rightarrow> eth" where
  "set_dev st i f = st\<lparr>eth_devices := (eth_devices st)[i := f (eth_devices st ! i)]\<rparr>"

text \<open>The loop of \<open>eth_initialize\<close> over the registered interfaces.\<close>

fun initialize_loop :: "env_cfg \<Rightarrow> string option \<Rightarrow> nat \<Rightarrow> nat \<Rightarrow> eth \<Rightarrow> eth option" where
  "initialize_loop cfg ethprime 0 i st = Some st"
| "initialize_loop cfg ethprime (Suc n) i st = do {
     let d = eth_devices st ! i;
     let st = (if (case ethprime of Some p \<Rightarrow> strcmp_s (dev_name d) p = 0 | None \<Rightarrow> False)
       then st\<lparr>eth_current := Some i\<rparr> else st);
     (_, a) \<leftarrow> eth_getenv_enetaddr_by_index cfg (eenv st) i;
     let st = (if a \<noteq> replicate 6 0 then set_dev st i (\<lambda>d. d\<lparr>enetaddr := a\<rparr>) else st);
     initialize_loop cfg ethprime n (i + 1) st
   }"

text \<open>\<open>eth_initialize\<close> from where the board has registered its interfaces.\<close>

definition eth_initialize :: "env_cfg \<Rightarrow> eth \<Rightarrow> (int \<times> eth) option" where
  "eth_initialize cfg st = (if eth_devices st = [] then Some (0, st)
     else do {
       ethprime \<leftarrow> getenv_str cfg (eenv st) ''ethprime'';
       st \<leftarrow> initialize_loop cfg ethprime (length (eth_devices st)) 0 st;
       st \<leftarrow> (if eth_current st \<noteq> None then update_ethact cfg st
         else do { (_, e) \<leftarrow> setenv cfg (eenv st) ''ethact'' None; Some (st\<lparr>eenv := e\<rparr>) });
       Some (int (length (eth_devices st)), st)
     })"

definition eth_try_another :: "env_cfg \<Rightarrow> bool \<Rightarrow> eth \<Rightarrow> eth option" where
  "eth_try_another cfg first_restart st = do {
     ethrotate \<leftarrow> getenv_str cfg (eenv st) ''ethrotate'';
     if (case ethrotate of Some s \<Rightarrow> strcmp_s s ''no'' = 0 | None \<Rightarrow> False) then Some st
     else case eth_current st of None \<Rightarrow> Some st
     | Some cur \<Rightarrow> do {
         let st = (if first_restart then st\<lparr>first_failed := Some cur\<rparr> else st);
         let st = st\<lparr>eth_current := Some (eth_next st cur)\<rparr>;
         st \<leftarrow> update_ethact cfg st;
         Some (if first_failed st = eth_current st then st\<lparr>NetRestartWrap := True\<rparr> else st)
       }
   }"

fun sync_loop :: "env_cfg \<Rightarrow> nat \<Rightarrow> nat \<Rightarrow> eth \<Rightarrow> eth option" where
  "sync_loop cfg 0 i st = Some st"
| "sync_loop cfg (Suc n) i st = do {
     (ok, a) \<leftarrow> eth_getenv_enetaddr_by_index cfg (eenv st) i;
     sync_loop cfg n (i + 1) (if ok then set_dev st i (\<lambda>d. d\<lparr>enetaddr := a\<rparr>) else st)
   }"

partial_function (option) init_loop :: "env_cfg \<Rightarrow> nat option \<Rightarrow> nat \<Rightarrow> eth \<Rightarrow> (int \<times> eth) option" where
  "init_loop cfg old_current cur st = (let
     ret = init_ret st (length (inits st));
     st = st\<lparr>inits := inits st @ [cur]\<rparr>
   in if 0 \<le> ret then Some (0, set_dev st cur (\<lambda>d. d\<lparr>dev_state := ETH_STATE_ACTIVE\<rparr>))
   else do {
     st \<leftarrow> eth_try_another cfg False st;
     if old_current = eth_current st then Some (- 1, st)
     else case eth_current st of None \<Rightarrow> None | Some cur \<Rightarrow> init_loop cfg old_current cur st
   })"

definition eth_init :: "env_cfg \<Rightarrow> eth \<Rightarrow> (int \<times> eth) option" where
  "eth_init cfg st = (case eth_current st of None \<Rightarrow> Some (- 1, st)
     | Some cur \<Rightarrow> do {
         st \<leftarrow> sync_loop cfg (length (eth_devices st)) 0 st;
         init_loop cfg (eth_current st) cur st
       })"

definition eth_halt :: "eth \<Rightarrow> eth" where
  "eth_halt st = (case eth_current st of None \<Rightarrow> st
     | Some cur \<Rightarrow> set_dev st cur (\<lambda>d. d\<lparr>dev_state := ETH_STATE_PASSIVE\<rparr>))"

text \<open>The return value of \<open>eth_send\<close> is not used by any caller.\<close>

definition eth_send :: "eth \<Rightarrow> u8 list \<Rightarrow> eth" where
  "eth_send st packet = (case eth_current st of None \<Rightarrow> st | Some _ \<Rightarrow> st\<lparr>frames := frames st @ [packet]\<rparr>)"

text \<open>The search for the interface that \<^verbatim>\<open>ethact\<close> names goes once around the ring.\<close>

fun set_current_loop :: "nat \<Rightarrow> eth \<Rightarrow> nat \<Rightarrow> string \<Rightarrow> nat option" where
  "set_current_loop 0 st cur a = None"
| "set_current_loop (Suc n) st cur a = (if strcmp_s (dev_name (eth_devices st ! cur)) a = 0 then Some cur
     else set_current_loop n st (eth_next st cur) a)"

definition eth_set_current :: "env_cfg \<Rightarrow> eth \<Rightarrow> eth option" where
  "eth_set_current cfg st = (case eth_current st of None \<Rightarrow> Some st
     | Some cur \<Rightarrow> do {
         let id = env_id (eenv st);
         st \<leftarrow> (if act st = None \<or> act_changed_id st \<noteq> id then do {
             a \<leftarrow> getenv_str cfg (eenv st) ''ethact'';
             Some (st\<lparr>act := a, act_changed_id := id\<rparr>)
           } else Some st);
         case act st of
           Some a \<Rightarrow>
             (case set_current_loop (length (eth_devices st)) st cur a of
                Some i \<Rightarrow> Some (st\<lparr>eth_current := Some i\<rparr>)
              | None \<Rightarrow> do {
                  (_, e) \<leftarrow> setenv cfg (eenv st) ''ethact'' (Some (eth_get_name st));
                  Some (st\<lparr>eenv := e\<rparr>)
                })
         | None \<Rightarrow> do {
             (_, e) \<leftarrow> setenv cfg (eenv st) ''ethact'' (Some (eth_get_name st));
             Some (st\<lparr>eenv := e\<rparr>)
           }
       })"

section \<open>Well-formed interfaces\<close>

definition eth_ok :: "eth \<Rightarrow> bool" where
  "eth_ok st \<longleftrightarrow> (\<forall>i. eth_current st = Some i \<longrightarrow> i < length (eth_devices st))
     \<and> (\<forall>i. first_failed st = Some i \<longrightarrow> i < length (eth_devices st))
     \<and> (\<forall>d \<in> set (eth_devices st). length (enetaddr d) = 6 \<and> NUL \<notin> set (dev_name d))"

lemma eth_okI:
  assumes "eth_ok st" "length (eth_devices st') = length (eth_devices st)" "first_failed st' = first_failed st"
    "eth_current st' = eth_current st" "\<And>d. d \<in> set (eth_devices st') \<Longrightarrow> length (enetaddr d) = 6 \<and> NUL \<notin> set (dev_name d)"
  shows "eth_ok st'"
  using assms by (simp add: eth_ok_def)

lemma eth_ok_cong:
  "eth_ok st \<Longrightarrow> eth_devices st' = eth_devices st \<Longrightarrow> first_failed st' = first_failed st \<Longrightarrow> eth_current st' = eth_current st
    \<Longrightarrow> eth_ok st'"
  by (simp add: eth_ok_def)

lemma eth_next_less: "i < length (eth_devices st) \<Longrightarrow> eth_next st i < length (eth_devices st)"
  by (auto simp: eth_next_def)

lemma length_parse_loop: "length (parse_enetaddr_loop n a) = n"
  by (induction n a rule: parse_enetaddr_loop.induct) (auto split: option.splits prod.splits)

lemma length_eth_parse_enetaddr [simp]: "length (eth_parse_enetaddr a) = 6"
  by (simp add: eth_parse_enetaddr_def length_parse_loop)

lemma enetaddr_by_index_length:
  "eth_getenv_enetaddr_by_index cfg e i = Some (ok, a) \<Longrightarrow> length a = 6"
  by (auto simp: eth_getenv_enetaddr_by_index_def eth_getenv_enetaddr_def Let_def split: Option.bind_splits)

lemma update_ethact_frame:
  assumes "update_ethact cfg st = Some st'"
  shows "\<exists>e. st' = st\<lparr>eenv := e\<rparr>"
  using assms by (auto simp: update_ethact_def split: Option.bind_splits if_splits intro: exI [of _ "eenv st"])

lemma set_dev_ok:
  assumes "eth_ok st" "i < length (eth_devices st)"
    and "\<And>d. length (enetaddr d) = 6 \<Longrightarrow> NUL \<notin> set (dev_name d) \<Longrightarrow> length (enetaddr (f d)) = 6 \<and> NUL \<notin> set (dev_name (f d))"
  shows "eth_ok (set_dev st i f)"
proof (rule eth_okI [OF assms(1)])
  fix d assume "d \<in> set (eth_devices (set_dev st i f))"
  then have "d \<in> set (eth_devices st) \<or> d = f (eth_devices st ! i)"
    using set_update_subset_insert [of "eth_devices st" i] by (auto simp: set_dev_def)
  then show "length (enetaddr d) = 6 \<and> NUL \<notin> set (dev_name d)"
    using assms by (auto simp: eth_ok_def)
qed (simp_all add: set_dev_def)

lemma set_dev_simps [simp]:
  "length (eth_devices (set_dev st i f)) = length (eth_devices st)" "eth_current (set_dev st i f) = eth_current st"
  "first_failed (set_dev st i f) = first_failed st" "eenv (set_dev st i f) = eenv st" "inits (set_dev st i f) = inits st"
  "init_ret (set_dev st i f) = init_ret st" "frames (set_dev st i f) = frames st"
  by (simp_all add: set_dev_def)

lemma eth_register_ok:
  assumes "eth_ok st" "length (enetaddr dev) = 6" "NUL \<notin> set (dev_name dev)" "eth_register cfg st dev = Some st'"
  shows "eth_ok st'"
proof -
  let ?st = "st\<lparr>eth_devices := eth_devices st @ [dev\<lparr>dev_state := ETH_STATE_INIT\<rparr>]\<rparr>"
  have "eth_ok ?st" using assms(1-3) by (auto simp: eth_ok_def less_Suc_eq)
  moreover have "eth_ok (?st\<lparr>eth_current := Some 0\<rparr>)" using assms(1-3) by (auto simp: eth_ok_def less_Suc_eq)
  ultimately show ?thesis using assms(4) update_ethact_frame
    by (fastforce simp: eth_register_def Let_def split: if_splits elim: eth_ok_cong)
qed

lemma initialize_loop_ok:
  "initialize_loop cfg p n i st = Some st' \<Longrightarrow> eth_ok st \<Longrightarrow> i + n = length (eth_devices st) \<Longrightarrow>
    eth_ok st' \<and> length (eth_devices st') = length (eth_devices st)"
proof (induction n arbitrary: i st)
  case 0
  then show ?case by simp
next
  case (Suc n)
  define st1 where "st1 = (if (case p of Some p \<Rightarrow> strcmp_s (dev_name (eth_devices st ! i)) p = 0 | None \<Rightarrow> False)
       then st\<lparr>eth_current := Some i\<rparr> else st)"
  have ok1: "eth_ok st1" "eth_devices st1 = eth_devices st" "eenv st1 = eenv st"
    using Suc.prems by (auto simp: st1_def eth_ok_def)
  have "initialize_loop cfg p (Suc n) i st = do { (_, a) \<leftarrow> eth_getenv_enetaddr_by_index cfg (eenv st1) i;
      initialize_loop cfg p n (i + 1) (if a \<noteq> replicate 6 0 then set_dev st1 i (\<lambda>d. d\<lparr>enetaddr := a\<rparr>) else st1) }"
    by (simp only: initialize_loop.simps Let_def st1_def)
  then obtain ok a where a: "eth_getenv_enetaddr_by_index cfg (eenv st1) i = Some (ok, a)"
    and r: "initialize_loop cfg p n (i + 1) (if a \<noteq> replicate 6 0 then set_dev st1 i (\<lambda>d. d\<lparr>enetaddr := a\<rparr>) else st1) = Some st'"
    using Suc.prems(1) by (auto split: Option.bind_splits)
  have "eth_ok (if a \<noteq> replicate 6 0 then set_dev st1 i (\<lambda>d. d\<lparr>enetaddr := a\<rparr>) else st1)"
    using ok1 Suc.prems(3) enetaddr_by_index_length [OF a] by (auto intro!: set_dev_ok)
  from Suc.IH [OF r this] show ?case using ok1 Suc.prems(3) by (simp split: if_splits)
qed

lemma eth_initialize_ok:
  assumes "eth_ok st" "eth_initialize cfg st = Some (n, st')"
  shows "eth_ok st'"
proof (cases "eth_devices st = []")
  case False
  then obtain p s where s: "initialize_loop cfg p (length (eth_devices st)) 0 st = Some s"
    and e: "\<exists>e. st' = s\<lparr>eenv := e\<rparr>"
    using assms(2) update_ethact_frame
    by (auto simp: eth_initialize_def split: Option.bind_splits if_splits) blast+
  from initialize_loop_ok [OF s assms(1)] e show ?thesis by (auto elim: eth_ok_cong)
qed (use assms in \<open>simp add: eth_initialize_def\<close>)

lemma eth_try_another_ok:
  assumes "eth_ok st" "eth_try_another cfg first st = Some st'"
  shows "eth_ok st' \<and> length (eth_devices st') = length (eth_devices st)"
proof -
  obtain rot where r: "getenv_str cfg (eenv st) ''ethrotate'' = Some rot"
    using assms(2) by (auto simp: eth_try_another_def split: Option.bind_splits)
  consider "st' = st" | cur s e where "eth_current st = Some cur" "s = (if first then st\<lparr>first_failed := Some cur\<rparr> else st)"
      "st' = s\<lparr>eth_current := Some (eth_next s cur), eenv := e\<rparr> \<or> st' = s\<lparr>eth_current := Some (eth_next s cur), eenv := e, NetRestartWrap := True\<rparr>"
    using assms(2) r by (auto simp: eth_try_another_def Let_def split: Option.bind_splits if_splits option.splits dest!: update_ethact_frame)
  then show ?thesis
  proof cases
    case (2 cur s e)
    have "cur < length (eth_devices st)" using assms(1) 2(1) by (simp add: eth_ok_def)
    then show ?thesis using assms(1) 2 eth_next_less [of cur st]
      by (cases first) (auto simp: eth_ok_def eth_next_def)
  qed (use assms in simp)
qed

lemma sync_loop_ok:
  "sync_loop cfg n i st = Some st' \<Longrightarrow> eth_ok st \<Longrightarrow> i + n = length (eth_devices st) \<Longrightarrow>
    eth_ok st' \<and> length (eth_devices st') = length (eth_devices st) \<and> eth_current st' = eth_current st
    \<and> eenv st' = eenv st \<and> inits st' = inits st \<and> init_ret st' = init_ret st
    \<and> map dev_state (eth_devices st') = map dev_state (eth_devices st)"
proof (induction n arbitrary: i st)
  case 0
  then show ?case by simp
next
  case (Suc n)
  then obtain ok a where a: "eth_getenv_enetaddr_by_index cfg (eenv st) i = Some (ok, a)"
    and r: "sync_loop cfg n (i + 1) (if ok then set_dev st i (\<lambda>d. d\<lparr>enetaddr := a\<rparr>) else st) = Some st'"
    by (auto split: Option.bind_splits)
  have "eth_ok (if ok then set_dev st i (\<lambda>d. d\<lparr>enetaddr := a\<rparr>) else st)"
    using Suc.prems(2,3) enetaddr_by_index_length [OF a] by (auto intro!: set_dev_ok)
  moreover have "map dev_state (eth_devices (set_dev st i (\<lambda>d. d\<lparr>enetaddr := a\<rparr>))) = map dev_state (eth_devices st)"
    using Suc.prems(3) by (simp add: set_dev_def map_update list_update_same_conv)
  ultimately show ?case using Suc.IH [OF r] Suc.prems(3) by (simp split: if_splits)
qed

lemma init_loop_ok:
  "init_loop cfg old cur st = Some x \<Longrightarrow> eth_ok st \<longrightarrow> cur < length (eth_devices st) \<longrightarrow> eth_ok (snd x)"
proof (rule init_loop.raw_induct [where P = "\<lambda>cfg old cur st x. eth_ok st \<longrightarrow> cur < length (eth_devices st) \<longrightarrow> eth_ok (snd x)"])
  fix f :: "env_cfg \<Rightarrow> nat option \<Rightarrow> nat \<Rightarrow> eth \<Rightarrow> (int \<times> eth) option" and cfg old cur st x
  assume IH: "\<And>cfg old cur st x. f cfg old cur st = Some x \<Longrightarrow> eth_ok st \<longrightarrow> cur < length (eth_devices st) \<longrightarrow> eth_ok (snd x)"
    and b: "(let ret = init_ret st (length (inits st)); st = st\<lparr>inits := inits st @ [cur]\<rparr>
      in if 0 \<le> ret then Some (0, set_dev st cur (\<lambda>d. d\<lparr>dev_state := ETH_STATE_ACTIVE\<rparr>))
      else Option.bind (eth_try_another cfg False st) (\<lambda>st. if old = eth_current st then Some (- 1, st)
        else case eth_current st of None \<Rightarrow> None | Some cur \<Rightarrow> f cfg old cur st)) = Some x"
  show "eth_ok st \<longrightarrow> cur < length (eth_devices st) \<longrightarrow> eth_ok (snd x)"
  proof (intro impI)
    assume ok: "eth_ok st" and cur: "cur < length (eth_devices st)"
    let ?s = "st\<lparr>inits := inits st @ [cur]\<rparr>"
    have oks: "eth_ok ?s" using ok by (rule eth_ok_cong) simp_all
    show "eth_ok (snd x)"
    proof (cases "0 \<le> init_ret st (length (inits st))")
      case True
      then show ?thesis using b cur oks by (auto simp: Let_def intro!: set_dev_ok)
    next
      case False
      then obtain s where s: "eth_try_another cfg False ?s = Some s"
        and r: "(if old = eth_current s then Some (- 1, s) else case eth_current s of None \<Rightarrow> None | Some cur \<Rightarrow> f cfg old cur s) = Some x"
        using b by (auto simp: Let_def split: Option.bind_splits)
      have oks': "eth_ok s" using eth_try_another_ok [OF oks s] by simp
      show ?thesis
      proof (cases "old = eth_current s")
        case False
        obtain c where c: "eth_current s = Some c" "f cfg old c s = Some x"
          using r unfolding if_not_P [OF False] by (cases "eth_current s") simp_all
        moreover have "c < length (eth_devices s)" using oks' c(1) by (simp add: eth_ok_def)
        ultimately show ?thesis using IH oks' by blast
      qed (use r oks' in auto)
    qed
  qed
qed

lemma eth_init_ok:
  assumes "eth_ok st" "eth_init cfg st = Some (r, st')"
  shows "eth_ok st'"
proof (cases "eth_current st")
  case (Some cur)
  then obtain s where s: "sync_loop cfg (length (eth_devices st)) 0 st = Some s"
    and l: "init_loop cfg (eth_current s) cur s = Some (r, st')"
    using assms(2) by (auto simp: eth_init_def split: Option.bind_splits)
  have "eth_ok s" "length (eth_devices s) = length (eth_devices st)" using sync_loop_ok [OF s assms(1)] by auto
  then show ?thesis using init_loop_ok [OF l] Some assms(1) by (simp add: eth_ok_def)
qed (use assms in \<open>simp add: eth_init_def\<close>)

lemma eth_halt_ok: "eth_ok st \<Longrightarrow> eth_ok (eth_halt st)"
  by (auto simp: eth_halt_def split: option.splits intro!: set_dev_ok) (simp add: eth_ok_def)

lemma eth_send_ok: "eth_ok st \<Longrightarrow> eth_ok (eth_send st p)"
  by (auto simp: eth_send_def split: option.splits elim: eth_ok_cong)

lemma set_current_loop_less:
  "set_current_loop n st cur a = Some i \<Longrightarrow> cur < length (eth_devices st) \<Longrightarrow> i < length (eth_devices st)"
  by (induction n arbitrary: cur) (auto simp: eth_next_less split: if_splits)

lemma eth_set_current_ok:
  assumes "eth_ok st" "eth_set_current cfg st = Some st'"
  shows "eth_ok st'"
proof (cases "eth_current st")
  case (Some cur)
  then have cur: "cur < length (eth_devices st)" using assms(1) by (simp add: eth_ok_def)
  obtain s where s: "s = st \<or> (\<exists>a id. s = st\<lparr>act := a, act_changed_id := id\<rparr>)"
    and r: "(\<exists>a i. set_current_loop (length (eth_devices s)) s cur a = Some i \<and> st' = s\<lparr>eth_current := Some i\<rparr>) \<or> (\<exists>e. st' = s\<lparr>eenv := e\<rparr>)"
    using assms(2) Some by (auto simp: eth_set_current_def Let_def split: Option.bind_splits if_splits option.splits)
  have ok: "eth_ok s" "eth_devices s = eth_devices st" using s assms(1) by (auto elim: eth_ok_cong)
  from r show ?thesis
  proof (elim disjE exE conjE)
    fix a i assume i: "set_current_loop (length (eth_devices s)) s cur a = Some i" and st': "st' = s\<lparr>eth_current := Some i\<rparr>"
    have "i < length (eth_devices s)" using set_current_loop_less [OF i] cur ok(2) by simp
    then show ?thesis using ok(1) by (simp add: st' eth_ok_def)
  next
    fix e assume "st' = s\<lparr>eenv := e\<rparr>"
    then show ?thesis using ok(1) by (auto elim: eth_ok_cong)
  qed
qed (use assms in \<open>simp add: eth_set_current_def\<close>)

section \<open>Trying the interfaces\<close>

text \<open>The environment is readable and in RAM.\<close>

definition env_ready :: "env_cfg \<Rightarrow> ubenv \<Rightarrow> bool" where
  "env_ready cfg e \<longleftrightarrow> in_ram e \<and> (\<exists>es. env_rep cfg e es)"

lemma env_ready_get: "env_ready cfg e \<Longrightarrow> name_ok n \<Longrightarrow> \<exists>v. getenv_str cfg e n = Some v"
  by (auto simp: env_ready_def getenv_str_map_of)

lemma ethact_plain: "plain ''ethact''" "name_ok ''ethact''" "name_ok ''ethrotate''" "''ethact'' \<noteq> ''ethrotate''"
  by (code_simp)+

lemma setenv_ready:
  assumes "env_ready cfg e" "plain n" "NUL \<notin> set v"
  shows "\<exists>r e'. setenv cfg e n (Some v) = Some (r, e') \<and> env_ready cfg e'
    \<and> (\<forall>m. name_ok m \<longrightarrow> m \<noteq> n \<longrightarrow> getenv_str cfg e' m = getenv_str cfg e m)"
proof -
  obtain es where rep: "env_rep cfg e es" and ram: "in_ram e" using assms(1) by (auto simp: env_ready_def)
  obtain r e' where 1: "setenv cfg e n (Some v) = Some (r, e')"
    "\<forall>m. name_ok m \<longrightarrow> getenv_str cfg e' m = Some (if m = n then (if r = 0 \<and> v \<noteq> [] then Some v else None) else map_of es m)"
    using setenv_lookup [OF rep assms(2,3) ram] by blast
  have "env_ready cfg e'" using setenv_refines [OF rep assms(2,3) ram] 1(1) by (auto simp: env_ready_def split: option.splits)
  then show ?thesis using 1 rep by (auto simp: getenv_str_map_of)
qed

lemma update_ethact_ready:
  assumes "env_ready cfg (eenv st)" "NUL \<notin> set (eth_get_name st)"
  shows "\<exists>e. update_ethact cfg st = Some (st\<lparr>eenv := e\<rparr>) \<and> env_ready cfg e
    \<and> getenv_str cfg e ''ethrotate'' = getenv_str cfg (eenv st) ''ethrotate''"
proof -
  obtain a where a: "getenv_str cfg (eenv st) ''ethact'' = Some a" using env_ready_get [OF assms(1) ethact_plain(2)] by blast
  obtain r e' where s: "setenv cfg (eenv st) ''ethact'' (Some (eth_get_name st)) = Some (r, e')" "env_ready cfg e'"
    "getenv_str cfg e' ''ethrotate'' = getenv_str cfg (eenv st) ''ethrotate''"
    using setenv_ready [OF assms(1) ethact_plain(1) assms(2)] ethact_plain by metis
  show ?thesis
    by (rule exI [of _ "if (case a of None \<Rightarrow> True | Some s \<Rightarrow> strcmp_s s (eth_get_name st) \<noteq> 0) then e' else eenv st"])
      (use assms(1) a s in \<open>auto simp: update_ethact_def split: option.splits\<close>)
qed

definition rotates :: "env_cfg \<Rightarrow> ubenv \<Rightarrow> bool" where
  "rotates cfg e \<longleftrightarrow> \<not> (\<exists>s. getenv_str cfg e ''ethrotate'' = Some (Some s) \<and> strcmp_s s ''no'' = 0)"

text \<open>The interfaces from \<open>cur\<close> in the order of the ring, until it is the turn of \<open>old\<close> again.\<close>

definition ring_dist :: "nat \<Rightarrow> nat \<Rightarrow> nat \<Rightarrow> nat" where
  "ring_dist n old cur = (if cur < old then old - cur else n - cur + old)"

definition ring_from :: "nat \<Rightarrow> nat \<Rightarrow> nat \<Rightarrow> nat list" where
  "ring_from n old cur = map (\<lambda>k. (cur + k) mod n) [0..<ring_dist n old cur]"

lemma eth_next_mod: "cur < length (eth_devices st) \<Longrightarrow> eth_next st cur = Suc cur mod length (eth_devices st)"
  by (auto simp: eth_next_def mod_Suc)

lemma ring_dist_next:
  assumes "old < length (eth_devices st)" "cur < length (eth_devices st)" "eth_next st cur \<noteq> old"
  shows "ring_dist (length (eth_devices st)) old cur = Suc (ring_dist (length (eth_devices st)) old (eth_next st cur))"
  using assms by (auto simp: ring_dist_def eth_next_def split: if_splits)

lemma ring_from_next:
  assumes "old < length (eth_devices st)" "cur < length (eth_devices st)" "eth_next st cur \<noteq> old"
  shows "ring_from (length (eth_devices st)) old cur = cur # ring_from (length (eth_devices st)) old (eth_next st cur)"
proof -
  let ?n = "length (eth_devices st)"
  have "(Suc cur mod ?n + k) mod ?n = (cur + Suc k) mod ?n" for k by (simp add: mod_add_left_eq)
  then show ?thesis
    using assms(2) unfolding ring_from_def ring_dist_next [OF assms]
    by (simp only: map_upt_Suc eth_next_mod [OF assms(2)]) simp
qed

lemma ring_from_last:
  assumes "old < length (eth_devices st)" "cur < length (eth_devices st)" "eth_next st cur = old"
  shows "ring_from (length (eth_devices st)) old cur = [cur]"
proof -
  have "ring_dist (length (eth_devices st)) old cur = 1" using assms by (auto simp: ring_dist_def eth_next_def split: if_splits)
  then show ?thesis using assms(2) by (simp add: ring_from_def)
qed

lemma eth_try_another_rotates:
  assumes "env_ready cfg (eenv st)" "eth_ok st" "eth_current st = Some cur"
  shows "\<exists>st'. eth_try_another cfg False st = Some st' \<and> eth_devices st' = eth_devices st \<and> env_ready cfg (eenv st')
    \<and> rotates cfg (eenv st') = rotates cfg (eenv st) \<and> inits st' = inits st \<and> init_ret st' = init_ret st
    \<and> eth_current st' = Some (if rotates cfg (eenv st) then eth_next st cur else cur)"
proof -
  obtain v where v: "getenv_str cfg (eenv st) ''ethrotate'' = Some v" using env_ready_get [OF assms(1) ethact_plain(3)] by blast
  have cur: "cur < length (eth_devices st)" using assms(2,3) by (simp add: eth_ok_def)
  have "NUL \<notin> set (eth_get_name (st\<lparr>eth_current := Some (eth_next st cur)\<rparr>))"
    using assms(2) eth_next_less [OF cur] by (simp add: eth_get_name_def eth_ok_def)
  then obtain e where "update_ethact cfg (st\<lparr>eth_current := Some (eth_next st cur)\<rparr>) = Some (st\<lparr>eth_current := Some (eth_next st cur), eenv := e\<rparr>)"
    "env_ready cfg e" "getenv_str cfg e ''ethrotate'' = getenv_str cfg (eenv st) ''ethrotate''"
    using update_ethact_ready [of cfg "st\<lparr>eth_current := Some (eth_next st cur)\<rparr>"] assms(1) by auto
  then show ?thesis using v assms by (auto simp: eth_try_another_def rotates_def Let_def split: option.splits)
qed

text \<open>What trying the interfaces of \<open>order\<close> one by one comes to: the first whose \<open>init\<close> succeeds is current and
  active, and none after it was tried; or all failed, and \<open>old\<close> is current again.\<close>

definition tried_in_order :: "nat list \<Rightarrow> nat \<Rightarrow> eth \<Rightarrow> int \<Rightarrow> eth \<Rightarrow> bool" where
  "tried_in_order order old st r st' \<longleftrightarrow> (let ret = (\<lambda>j. init_ret st (length (inits st) + j)) in
     (\<exists>j<length order. (\<forall>i<j. ret i < 0) \<and> 0 \<le> ret j \<and> r = 0 \<and> eth_current st' = Some (order ! j)
       \<and> inits st' = inits st @ take (Suc j) order
       \<and> map dev_state (eth_devices st') = (map dev_state (eth_devices st))[order ! j := ETH_STATE_ACTIVE])
     \<or> (\<forall>j<length order. ret j < 0) \<and> r = - 1 \<and> eth_current st' = Some old \<and> inits st' = inits st @ order
       \<and> map dev_state (eth_devices st') = map dev_state (eth_devices st))"

lemma tried_first:
  assumes "0 \<le> init_ret st (length (inits st))" "order = cur # rest" "eth_current st = Some cur" "cur < length (eth_devices st)"
  shows "tried_in_order order old st 0 (set_dev (st\<lparr>inits := inits st @ [cur]\<rparr>) cur (\<lambda>d. d\<lparr>dev_state := ETH_STATE_ACTIVE\<rparr>))"
  unfolding tried_in_order_def Let_def
  by (rule disjI1, rule exI [of _ 0]) (use assms in \<open>simp add: set_dev_def map_update\<close>)

lemma tried_next:
  assumes "tried_in_order order old s r st'" "init_ret st (length (inits st)) < 0" "inits s = inits st @ [cur]"
    "init_ret s = init_ret st" "eth_devices s = eth_devices st"
  shows "tried_in_order (cur # order) old st r st'"
proof -
  define ret where "ret = (\<lambda>j. init_ret st (length (inits st) + j))"
  have s: "(\<lambda>j. init_ret s (length (inits s) + j)) = (\<lambda>j. ret (Suc j))" using assms(3,4) by (simp add: ret_def)
  have z: "ret 0 < 0" using assms(2) by (simp add: ret_def)
  from assms(1) [unfolded tried_in_order_def Let_def s]
  consider (ok) j where "j < length order" "\<forall>i<j. ret (Suc i) < 0" "0 \<le> ret (Suc j)" "r = 0" "eth_current st' = Some (order ! j)"
      "inits st' = inits s @ take (Suc j) order"
      "map dev_state (eth_devices st') = (map dev_state (eth_devices s))[order ! j := ETH_STATE_ACTIVE]"
    | (bad) "\<forall>j<length order. ret (Suc j) < 0" "r = - 1" "eth_current st' = Some old" "inits st' = inits s @ order"
      "map dev_state (eth_devices st') = map dev_state (eth_devices s)"
    by (elim disjE exE conjE)
  then show ?thesis
  proof cases
    case ok
    then show ?thesis unfolding tried_in_order_def Let_def ret_def [symmetric]
      by (intro disjI1 exI [of _ "Suc j"]) (use z assms(3,5) in \<open>simp add: All_less_Suc2\<close>)
  next
    case bad
    then show ?thesis unfolding tried_in_order_def Let_def ret_def [symmetric]
      using z assms(3,5) by (intro disjI2) (simp add: All_less_Suc2)
  qed
qed

lemma init_loop_terminates:
  assumes "env_ready cfg (eenv st)" "eth_ok st" "eth_current st = Some cur" "old < length (eth_devices st)"
    and "rotates cfg (eenv st)"
  shows "\<exists>r st'. init_loop cfg (Some old) cur st = Some (r, st') \<and> tried_in_order (ring_from (length (eth_devices st)) old cur) old st r st'"
  using assms
proof (induction "ring_dist (length (eth_devices st)) old cur" arbitrary: st cur rule: less_induct)
  case less
  let ?s = "st\<lparr>inits := inits st @ [cur]\<rparr>" and ?n = "length (eth_devices st)"
  have cur: "cur < ?n" using less.prems(2,3) by (simp add: eth_ok_def)
  note unf = init_loop.simps [of cfg "Some old" cur st]
  have hd: "\<exists>rest. ring_from ?n old cur = cur # rest"
    using ring_from_last [OF less.prems(4) cur] ring_from_next [OF less.prems(4) cur] by blast
  show ?case
  proof (cases "0 \<le> init_ret st (length (inits st))")
    case True
    then show ?thesis using hd tried_first [OF True _ less.prems(3) cur] by (auto simp: unf Let_def)
  next
    case False
    obtain s where s: "eth_try_another cfg False ?s = Some s" "eth_devices s = eth_devices st" "env_ready cfg (eenv s)"
      "rotates cfg (eenv s)" "inits s = inits st @ [cur]" "init_ret s = init_ret st" "eth_current s = Some (eth_next st cur)"
      using eth_try_another_rotates [of cfg ?s cur] less.prems by (auto simp: eth_next_def eth_ok_def)
    have "eth_ok ?s" using less.prems(2) by (rule eth_ok_cong) simp_all
    then have oks: "eth_ok s" using eth_try_another_ok [OF _ s(1)] by blast
    have neg: "init_ret st (length (inits st)) < 0" using False by simp
    show ?thesis
    proof (cases "eth_next st cur = old")
      case True
      have "init_loop cfg (Some old) cur st = Some (- 1, s)" using False s True by (simp add: unf Let_def)
      moreover have "tried_in_order [] old s (- 1) s" using s(7) True by (simp add: tried_in_order_def)
      ultimately show ?thesis
        using tried_next [OF _ neg s(5,6,2)] unfolding ring_from_last [OF less.prems(4) cur True] by blast
    next
      case nx: False
      have "ring_dist (length (eth_devices s)) old (eth_next st cur) < ring_dist ?n old cur"
        using ring_dist_next [OF less.prems(4) cur nx] s(2) by simp
      from less.hyps [OF this s(3) oks s(7) _ s(4)] less.prems(4) s(2) obtain r st' where
        r: "init_loop cfg (Some old) (eth_next st cur) s = Some (r, st')" "tried_in_order (ring_from ?n old (eth_next st cur)) old s r st'"
        by auto
      have "init_loop cfg (Some old) cur st = Some (r, st')" using False nx s(1,7) r(1) by (simp add: unf Let_def)
      moreover have "tried_in_order (ring_from ?n old cur) old st r st'"
        using tried_next [OF r(2) neg s(5,6,2)] unfolding ring_from_next [OF less.prems(4) cur nx] .
      ultimately show ?thesis by blast
    qed
  qed
qed

lemma number_sdec:
  "number n 10 (-1) (-1) SIGN = (if sint n < 0 then CHR ''-'' # rev (rev_dec (unat (- n))) else rev (rev_dec (unat n)))"
proof -
  have z: "rev_dec 0 = ''0''" by (subst rev_radix.simps) (simp add: digit_char_0)
  have "nat (- 1 - int (length s)) = 0" "nat (- 2 - int (length s)) = 0" for s :: string by simp_all
  then show ?thesis
    by (cases "n = 0") (simp_all add: number_def Let_def has_def put_dec_correct pad_loop_eq zero_loop_eq z)
qed

lemma digit_char_code: "k < 10 \<Longrightarrow> of_char (digit_char k) = 48 + k"
  by (simp add: digit_char_def of_char_of)

lemma rev_dec_digits: "c \<in> set (rev_dec n) \<Longrightarrow> c \<noteq> CHR ''='' \<and> c \<noteq> NUL"
proof -
  have "list_all (\<lambda>c. c \<noteq> CHR ''='' \<and> c \<noteq> NUL) (rev_dec n)"
  proof (rule list_all_rev_radix)
    fix k :: nat assume "k < 10"
    then show "digit_char k \<noteq> CHR ''='' \<and> digit_char k \<noteq> NUL"
      using digit_char_code [OF \<open>k < 10\<close>] by auto
  qed simp
  then show "c \<in> set (rev_dec n) \<Longrightarrow> c \<noteq> CHR ''='' \<and> c \<noteq> NUL" by (simp add: list_all_iff)
qed

lemma enetvar_name: "\<exists>s. sprintf (if i \<noteq> 0 then ''eth%daddr'' else ''ethaddr'') [VInt v] = Some s \<and> name_ok s"
proof -
  have "CHR ''='' \<notin> set (number n 10 (-1) (-1) SIGN) \<and> NUL \<notin> set (number n 10 (-1) (-1) SIGN)" for n :: u64
    using rev_dec_digits by (auto simp: number_sdec)
  moreover have "sprintf ''eth%daddr'' [VInt v] = Some (''eth'' @ number (scast v) 10 (-1) (-1) SIGN @ ''addr'')"
    by (simp add: sprintf_simps del: vsprintf_loop.simps) simp
  moreover have "sprintf ''ethaddr'' [VInt v] = Some ''ethaddr''" by (simp add: sprintf_simps)
  ultimately show ?thesis by (auto simp: name_ok_def)
qed

lemma enetaddr_by_index_ready:
  assumes "env_ready cfg e"
  shows "\<exists>r. eth_getenv_enetaddr_by_index cfg e i = Some r"
proof -
  obtain s where s: "sprintf (if i \<noteq> 0 then ''eth%daddr'' else ''ethaddr'') [VInt (of_nat i)] = Some s" "name_ok s"
    using enetvar_name by blast
  obtain v where "getenv_str cfg e s = Some v" using env_ready_get [OF assms s(2)] by blast
  then show ?thesis unfolding eth_getenv_enetaddr_by_index_def s(1) by (simp add: eth_getenv_enetaddr_def Let_def)
qed

lemma sync_loop_ready: "env_ready cfg (eenv st) \<Longrightarrow> \<exists>st'. sync_loop cfg n i st = Some st'"
proof (induction n arbitrary: i st)
  case (Suc n)
  obtain ok a where a: "eth_getenv_enetaddr_by_index cfg (eenv st) i = Some (ok, a)"
    using enetaddr_by_index_ready [OF Suc.prems, of i] by auto
  show ?case using Suc.IH [of "if ok then set_dev st i (\<lambda>d. d\<lparr>enetaddr := a\<rparr>) else st"] Suc.prems by (simp add: a)
qed simp

lemma tried_in_order_cong:
  "tried_in_order order old s r st' \<Longrightarrow> inits s = inits st \<Longrightarrow> init_ret s = init_ret st
    \<Longrightarrow> map dev_state (eth_devices s) = map dev_state (eth_devices st) \<Longrightarrow> tried_in_order order old st r st'"
  by (simp add: tried_in_order_def)

lemma eth_init_terminating:
  assumes env: "env_ready cfg (eenv st)" and ok: "eth_ok st" and cur: "eth_current st = Some cur"
  shows "\<exists>r st'. eth_init cfg st = Some (r, st') \<and> tried_in_order
    (if rotates cfg (eenv st) then map (\<lambda>k. (cur + k) mod length (eth_devices st)) [0..<length (eth_devices st)] else [cur]) cur st r st'"
proof -
  obtain s where s: "sync_loop cfg (length (eth_devices st)) 0 st = Some s" using sync_loop_ready [OF env] by blast
  have s': "eth_ok s" "length (eth_devices s) = length (eth_devices st)" "eth_current s = Some cur" "eenv s = eenv st"
    "inits s = inits st" "init_ret s = init_ret st" "map dev_state (eth_devices s) = map dev_state (eth_devices st)"
    using sync_loop_ok [OF s ok] cur by auto
  have curl: "cur < length (eth_devices s)" using s'(1,3) by (simp add: eth_ok_def)
  have i: "eth_init cfg st = init_loop cfg (Some cur) cur s" using cur s s'(3) by (simp add: eth_init_def)
  note cong = tried_in_order_cong [OF _ s'(5-7)]
  show ?thesis
  proof (cases "rotates cfg (eenv st)")
    case True
    have "ring_dist (length (eth_devices s)) cur cur = length (eth_devices st)" using curl s'(2) by (simp add: ring_dist_def)
    then show ?thesis using init_loop_terminates [of cfg s cur cur] env s' curl True cong
      unfolding i ring_from_def by auto
  next
    case False
    let ?s = "s\<lparr>inits := inits s @ [cur]\<rparr>"
    obtain t where t: "eth_try_another cfg False ?s = Some t" "eth_current t = Some cur" "inits t = inits s @ [cur]"
      "init_ret t = init_ret s" "eth_devices t = eth_devices s"
      using eth_try_another_rotates [of cfg ?s cur] env s' False by (auto simp: eth_ok_def)
    note unf = init_loop.simps [of cfg "Some cur" cur s]
    show ?thesis
    proof (cases "0 \<le> init_ret s (length (inits s))")
      case True
      then show ?thesis using cong [OF tried_first [OF True refl s'(3) curl]] False by (auto simp: i unf Let_def)
    next
      case neg: False
      then have "tried_in_order [cur] cur s (- 1) t"
        using tried_next [of "[]" cur t "- 1" t s cur] t by (simp add: tried_in_order_def)
      then show ?thesis using neg t cong False by (auto simp: i unf Let_def)
    qed
  qed
qed

section \<open>Printing and reading an address\<close>

lemma pack_hex_byte_chars:
  "pack_hex_byte w = [hex_char (unat w div 16), hex_char (unat w mod 16)]" "unat w div 16 < 16"
proof -
  have w: "unat w < 256" using unsigned_less [of w, where 'a = nat] by simp
  then show 16: "unat w div 16 < 16" by simp
  have "drop_bit 4 (w AND 0xf0) = drop_bit 4 w"
  proof (rule bit_word_eqI)
    fix n :: nat assume "n < LENGTH(8)"
    then have "n = 0 \<or> n = 1 \<or> n = 2 \<or> n = 3 \<or> 4 \<le> n" by linarith
    then show "bit (drop_bit 4 (w AND 0xf0)) n = bit (drop_bit 4 w) n"
      by (elim disjE) (auto simp: bit_simps dest: bit_imp_le_length)
  qed
  moreover have "unat (drop_bit 4 w) = unat w div 16" by (simp only: unat_drop_bit_eq) (simp add: drop_bit_eq_div)
  moreover have "w AND 0xf = take_bit 4 w" by (simp add: take_bit_eq_mask mask_eq_exp_minus_1)
  then have "unat (w AND 0xf) = unat w mod 16" by (simp only: unsigned_take_bit_eq) (simp add: take_bit_eq_mod)
  ultimately show "pack_hex_byte w = [hex_char (unat w div 16), hex_char (unat w mod 16)]"
    using 16 by (simp add: pack_hex_byte_def hex_asc_def hex_char_nth)
qed

lemma parse_hex_byte:
  assumes "t = [] \<or> (\<exists>u. t = CHR '':'' # u)"
  shows "\<exists>v. simple_strtoul (pack_hex_byte w @ t) 16 = (v, t) \<and> ucast v = w"
proof -
  define h where "h = unat w div 16" define l where "l = unat w mod 16"
  have hl: "h < 16" "l < 16" "h * 16 + l = unat w" using pack_hex_byte_chars(2) [of w] by (simp_all add: h_def l_def)
  have stop: "strtoul_loop 16 r t = (r, t)" for r :: u32
    using assms by (auto simp: isxdigit_iff)
  have b: "strtoul_loop 16 r (hex_char l # t) = (r * 16 + of_nat l, t)" for r :: u32
    using hex_char_simps [OF hl(2)] hl(2) stop by simp
  have a: "strtoul_loop 16 0 (hex_char h # hex_char l # t) = (of_nat h * 16 + of_nat l :: u32, t)"
    using hex_char_simps [OF hl(1)] hl(1) b by simp
  have z: "h = 0" if "hex_char h = CHR ''0''" using that hex_char_simps(1) [OF hl(1)]
    by (simp add: digit_value_def isdigit_iff)
  have "simple_strtoul (pack_hex_byte w @ t) 16 = (of_nat h * 16 + of_nat l, t)"
    using a b [of 0] z hex_char_simps(3) [OF hl(2)]
    by (auto simp: simple_strtoul_def strtoul_base_def pack_hex_byte_chars(1) h_def [symmetric] l_def [symmetric] Let_def)
  moreover have "of_nat h * 16 + of_nat l = (of_nat (unat w) :: u32)" unfolding hl(3) [symmetric] by simp
  moreover have "ucast (of_nat (unat w) :: u32) = w" by simp (rule bit_word_eqI, auto simp: bit_simps)
  ultimately show ?thesis by simp
qed

text \<open>The bytes with colons between them.\<close>

fun mac_text :: "u8 list \<Rightarrow> string" where
  "mac_text [] = []"
| "mac_text [w] = pack_hex_byte w"
| "mac_text (w # v # ws) = pack_hex_byte w @ CHR '':'' # mac_text (v # ws)"

lemma parse_mac_text: "ws \<noteq> [] \<Longrightarrow> parse_enetaddr_loop (length ws) (Some (mac_text ws)) = ws"
proof (induction ws rule: mac_text.induct)
  case (2 w)
  obtain v where "simple_strtoul (pack_hex_byte w @ []) 16 = (v, [])" "ucast v = w" using parse_hex_byte [of "[]" w] by auto
  then show ?case by simp
next
  case (3 w v ws)
  obtain x where "simple_strtoul (pack_hex_byte w @ CHR '':'' # mac_text (v # ws)) 16 = (x, CHR '':'' # mac_text (v # ws))" "ucast x = w"
    using parse_hex_byte [of "CHR '':'' # mac_text (v # ws)" w] by auto
  then show ?case using 3 by simp
qed simp

lemma sprintf_pM:
  assumes "length a = 6"
  shows "sprintf ''%pM'' [VPtr 1 a] = Some (mac_text a)"
proof -
  obtain a0 a1 a2 a3 a4 a5 where a: "a = [a0, a1, a2, a3, a4, a5]"
    using assms by (auto simp: length_Suc_conv numeral_eq_Suc)
  have w: "width_loop n (- 1) = ([], - 2)" "width_loop n (- 2) = ([], - 3)" if "0 \<le> n" for n
    using that by (subst width_loop.simps; simp)+
  show ?thesis
    by (simp add: sprintf_def vsprintf_def vs_conv_def vs_width_def vs_precision_def vs_qualifier_def is_digit_def
        put_pointer_def mac_address_string_def put_string_def has_def Let_def a upt_conv_Cons pack_hex_byte_def w ctype_iff)
qed


lemma mac_text_chars: "c \<in> set (mac_text ws) \<Longrightarrow> c \<noteq> NUL"
proof -
  have "hex_char k \<noteq> NUL" if "k < 16" for k using hex_char_simps(2) [OF that] by (auto simp: ctype_iff)
  then have "NUL \<notin> set (pack_hex_byte w)" for w
    using pack_hex_byte_chars [of w] by simp (metis mod_less_divisor zero_less_numeral)
  then have "NUL \<notin> set (mac_text ws)" by (induction ws rule: mac_text.induct) auto
  then show "c \<in> set (mac_text ws) \<Longrightarrow> c \<noteq> NUL" by blast
qed

lemma mac_text_nonempty: "length a = 6 \<Longrightarrow> mac_text a \<noteq> []"
  by (cases a rule: mac_text.cases) (auto simp: pack_hex_byte_def)

lemma enetaddr_getenv_setenv:
  assumes "env_ready cfg e" "plain name" "length a = 6" "eth_setenv_enetaddr cfg e name a = Some (0, e')"
  shows "eth_getenv_enetaddr cfg e' name = Some (is_valid_ether_addr a, a)"
proof -
  obtain es where rep: "env_rep cfg e es" and ram: "in_ram e" using assms(1) by (auto simp: env_ready_def)
  have s: "setenv cfg e name (Some (mac_text a)) = Some (0, e')"
    using assms(4) by (simp add: eth_setenv_enetaddr_def sprintf_pM [OF assms(3)])
  have "NUL \<notin> set (mac_text a)" using mac_text_chars by blast
  from setenv_lookup [OF rep assms(2) this ram] s
  have "\<forall>m. name_ok m \<longrightarrow> getenv_str cfg e' m = Some (if m = name then (if mac_text a \<noteq> [] then Some (mac_text a) else None) else map_of es m)"
    by auto
  then have "getenv_str cfg e' name = Some (Some (mac_text a))"
    using assms(2) mac_text_nonempty [OF assms(3)] by (simp add: plain_def)
  moreover have "eth_parse_enetaddr (Some (mac_text a)) = a"
    using parse_mac_text [of a] assms(3) by (cases "a = []") (simp_all add: eth_parse_enetaddr_def)
  ultimately show ?thesis by (simp add: eth_getenv_enetaddr_def Let_def)
qed

section \<open>Samples\<close>

definition sample_eth :: eth where
  "sample_eth = \<lparr>eth_devices = [\<lparr>dev_name = ''m2s'', enetaddr = [0, 1, 2, 3, 4, 5], dev_state = ETH_STATE_ACTIVE\<rparr>],
     eth_current = Some 0, first_failed = None, act = None, act_changed_id = 0, NetRestartWrap = False,
     eenv = (sample_env sample_defs)\<lparr>load_addr := 0x1000\<rparr>, frames = [], init_ret = (\<lambda>_. 0), inits = []\<rparr>"

lemma sample_env_ready: "env_ready sample_cfg (sample_env sample_defs)"
  using sample_rep sample_in_ram(1) by (auto simp: env_ready_def)

section \<open>Properties\<close>

lemma sample_eth_ok: "eth_ok sample_eth"
  by (simp add: eth_ok_def sample_eth_def)

text \<open>C12: with a readable environment \<open>eth_init\<close> ends, and this is what it does: it calls \<open>init\<close> on the interfaces
  in the order of the ring, beginning with the current one, each once (only on the current one if
  \<^verbatim>\<open>ethrotate\<close> is \<^verbatim>\<open>no\<close>), up to the first that succeeds.  That one is then current and the only one whose state
  changed, to active, and 0 is returned; if all fail, -1, with the interface it began with as current one and
  no state changed.\<close>

theorem eth_init_terminates:
  assumes "env_ready cfg (eenv st)" and "eth_ok st" and "eth_current st = Some cur"
  shows "\<exists>r st'. eth_init cfg st = Some (r, st') \<and>
    (let n = length (eth_devices st); order = (if rotates cfg (eenv st) then map (\<lambda>k. (cur + k) mod n) [0..<n] else [cur]);
         ret = (\<lambda>j. init_ret st (length (inits st) + j)) in
     (\<exists>j<length order. (\<forall>i<j. ret i < 0) \<and> 0 \<le> ret j \<and> r = 0 \<and> eth_current st' = Some (order ! j)
       \<and> inits st' = inits st @ take (Suc j) order
       \<and> map dev_state (eth_devices st') = (map dev_state (eth_devices st))[order ! j := ETH_STATE_ACTIVE])
     \<or> (\<forall>j<length order. ret j < 0) \<and> r = - 1 \<and> eth_current st' = Some cur \<and> inits st' = inits st @ order
       \<and> map dev_state (eth_devices st') = map dev_state (eth_devices st))"
  using eth_init_terminating [OF assms] unfolding tried_in_order_def Let_def .

definition sample_eth2 :: eth where
  "sample_eth2 = sample_eth\<lparr>eth_devices := eth_devices sample_eth @ [\<lparr>dev_name = ''usb'', enetaddr = replicate 6 0,
     dev_state = ETH_STATE_INIT\<rparr>], init_ret := (\<lambda>i. if i = 0 then - 1 else 0), eenv := sample_env sample_defs\<rparr>"

theorem eth_init_terminates_witness:
  "\<exists>st'. eth_init sample_cfg sample_eth2 = Some (0, st') \<and> eth_current st' = Some 1 \<and> inits st' = [0, 1]
    \<and> map dev_state (eth_devices st') = [ETH_STATE_ACTIVE, ETH_STATE_ACTIVE]"
proof -
  have e: "env_ready sample_cfg (eenv sample_eth2)" "eth_ok sample_eth2" "eth_current sample_eth2 = Some 0"
    using sample_env_ready by (auto simp: sample_eth2_def sample_eth_def eth_ok_def)
  have "getenv_str sample_cfg (eenv sample_eth2) ''ethrotate'' = Some None"
    using getenv_str_map_of [OF sample_rep ethact_plain(3)] by (simp add: sample_eth2_def sample_defs_def)
  then have ro: "rotates sample_cfg (eenv sample_eth2)" by (simp add: rotates_def)
  have d: "length (eth_devices sample_eth2) = 2" "inits sample_eth2 = []" "init_ret sample_eth2 = (\<lambda>i. if i = 0 then - 1 else 0)"
    "map dev_state (eth_devices sample_eth2) = [ETH_STATE_ACTIVE, ETH_STATE_INIT]"
    by (simp_all add: sample_eth2_def sample_eth_def)
  have o: "map (\<lambda>k. (0 + k) mod 2) [0..<2] = [0, 1 :: nat]" by (simp add: upt_rec)
  show ?thesis
    using eth_init_terminates [OF e] ro unfolding d o Let_def by (auto simp: less_Suc_eq)
qed

text \<open>C13: an address that \<open>eth_setenv_enetaddr\<close> stores in the environment, as text with colons, is the address that
  \<open>eth_getenv_enetaddr\<close> reads from it.\<close>

theorem enetaddr_roundtrip:
  assumes "env_ready cfg e" and "plain name" and "length a = 6" and "eth_setenv_enetaddr cfg e name a = Some (0, e')"
  shows "eth_getenv_enetaddr cfg e' name = Some (is_valid_ether_addr a, a)"
  by (rule enetaddr_getenv_setenv [OF assms])

theorem enetaddr_roundtrip_witness:
  "\<exists>e'. eth_setenv_enetaddr (sample_cfg\<lparr>CONFIG_ENV_SIZE := 64\<rparr>) (sample_env sample_defs) ''ethaddr'' [0, 0x1a, 0xb2, 3, 4, 0xff] = Some (0, e')
    \<and> eth_getenv_enetaddr (sample_cfg\<lparr>CONFIG_ENV_SIZE := 64\<rparr>) e' ''ethaddr'' = Some (True, [0, 0x1a, 0xb2, 3, 4, 0xff])"
proof -
  let ?cfg = "sample_cfg\<lparr>CONFIG_ENV_SIZE := 64\<rparr>" and ?a = "[0, 0x1a, 0xb2, 3, 4, 0xff] :: u8 list"
  have c: "layout (bytes_of (flat sample_defs)) sample_defs \<and> wf_defs sample_defs \<and>
      length (flat sample_defs) + 1 \<le> ENV_SIZE ?cfg \<and> 2 \<le> ENV_SIZE ?cfg"
    by (code_simp)
  have rep: "env_rep ?cfg (sample_env sample_defs) sample_defs"
    using in_ram_get_char [OF sample_in_ram(1)] c by (simp add: env_rep_def sample_env_def)
  have t: "mac_text ?a = ''00:1a:b2:03:04:ff''" "plain ''ethaddr''" "NUL \<notin> set ''00:1a:b2:03:04:ff''"
    "length (flat (del_def ''ethaddr'' sample_defs)) + length ''ethaddr'' + length ''00:1a:b2:03:04:ff'' + 3 \<le> ENV_SIZE ?cfg"
    by code_simp+
  obtain e' where "setenv ?cfg (sample_env sample_defs) ''ethaddr'' (Some ''00:1a:b2:03:04:ff'') = Some (0, e')"
    using setenv_lookup [OF rep t(2,3) sample_in_ram(1)] t(4) by auto
  then have "eth_setenv_enetaddr ?cfg (sample_env sample_defs) ''ethaddr'' ?a = Some (0, e')"
    using sprintf_pM [of ?a] t(1) by (simp add: eth_setenv_enetaddr_def)
  moreover have "env_ready ?cfg (sample_env sample_defs)" using rep sample_in_ram(1) by (auto simp: env_ready_def)
  moreover have "is_valid_ether_addr ?a" by code_simp
  ultimately show ?thesis using enetaddr_roundtrip [OF _ t(2), of ?cfg "sample_env sample_defs" ?a] by auto
qed

end
