(* ===== verification/Net.thy ===== *)
theory Net
  imports Eth
begin

text \<open>
  The network stack below the protocols: packet headers, checksums, address resolution, sending,
  the timers and the restart logic of \<^verbatim>\<open>net/net.c\<close>.

  Packets are built in and read from buffers in the byte store.  Every call of \<^verbatim>\<open>get_timer\<close> is the next
  value of a stream.  IP addresses are kept in network byte order as in the code, so they are
  copied as words.  \<^verbatim>\<open>NetArpWaitPacketMAC\<close> points to one of two arrays, named by \<open>mac_ref\<close>; the handlers
  that \<^verbatim>\<open>packetHandler\<close> and \<^verbatim>\<open>timeHandler\<close> point to are named as well.
\<close>

section \<open>Half words\<close>

definition load16 :: "mem \<Rightarrow> addr \<Rightarrow> u16" where
  "load16 m a = ucast (m a) OR push_bit 8 (ucast (m (a + 1)))"

definition store16 :: "mem \<Rightarrow> addr \<Rightarrow> u16 \<Rightarrow> mem" where
  "store16 m a w = m(a := ucast w, a + 1 := ucast (drop_bit 8 w))"

definition htons :: "u16 \<Rightarrow> u16" where
  "htons w = push_bit 8 w OR drop_bit 8 w"

definition write_bytes :: "mem \<Rightarrow> addr \<Rightarrow> u8 list \<Rightarrow> mem" where
  "write_bytes m a bs = (\<lambda>i. if a \<le> i \<and> i < a + length bs then bs ! (i - a) else m i)"

section \<open>State\<close>

abbreviation (input) ETHER_HDR_SIZE :: nat where "ETHER_HDR_SIZE \<equiv> 14"
abbreviation (input) E802_HDR_SIZE :: nat where "E802_HDR_SIZE \<equiv> 22"
abbreviation (input) VLAN_ETHER_HDR_SIZE :: nat where "VLAN_ETHER_HDR_SIZE \<equiv> 18"
abbreviation (input) PROT_IP :: u16 where "PROT_IP \<equiv> 0x0800"
abbreviation (input) PROT_ARP :: u16 where "PROT_ARP \<equiv> 0x0806"
abbreviation (input) PROT_RARP :: u16 where "PROT_RARP \<equiv> 0x8035"
abbreviation (input) PROT_VLAN :: u16 where "PROT_VLAN \<equiv> 0x8100"
abbreviation (input) IP_HDR_SIZE_NO_UDP :: nat where "IP_HDR_SIZE_NO_UDP \<equiv> 20"
abbreviation (input) IP_HDR_SIZE :: nat where "IP_HDR_SIZE \<equiv> 28"
abbreviation (input) ARP_HDR_SIZE :: nat where "ARP_HDR_SIZE \<equiv> 28"
abbreviation (input) IP_OFFS :: u16 where "IP_OFFS \<equiv> 0x1fff"
abbreviation (input) IP_FLAGS_DFRAG :: u16 where "IP_FLAGS_DFRAG \<equiv> 0x4000"
abbreviation (input) IP_FLAGS_MFRAG :: u16 where "IP_FLAGS_MFRAG \<equiv> 0x2000"
abbreviation (input) ARP_ETHER :: u16 where "ARP_ETHER \<equiv> 1"
abbreviation (input) ARPOP_REQUEST :: u16 where "ARPOP_REQUEST \<equiv> 1"
abbreviation (input) ARPOP_REPLY :: u16 where "ARPOP_REPLY \<equiv> 2"
abbreviation (input) RARPOP_REPLY :: u16 where "RARPOP_REPLY \<equiv> 4"
abbreviation (input) IPPROTO_ICMP :: u8 where "IPPROTO_ICMP \<equiv> 1"
abbreviation (input) IPPROTO_UDP :: u8 where "IPPROTO_UDP \<equiv> 17"
abbreviation (input) ICMP_ECHO_REPLY :: u8 where "ICMP_ECHO_REPLY \<equiv> 0"
abbreviation (input) ICMP_REDIRECT :: u8 where "ICMP_REDIRECT \<equiv> 5"
abbreviation (input) ICMP_ECHO_REQUEST :: u8 where "ICMP_ECHO_REQUEST \<equiv> 8"
abbreviation (input) VLAN_NONE :: u16 where "VLAN_NONE \<equiv> 4095"
abbreviation (input) VLAN_IDMASK :: u16 where "VLAN_IDMASK \<equiv> 0x0fff"
abbreviation (input) PKTALIGN :: nat where "PKTALIGN \<equiv> 32"
abbreviation (input) PKTSIZE_ALIGN :: nat where "PKTSIZE_ALIGN \<equiv> 1536"
abbreviation (input) ARP_TIMEOUT :: u32 where "ARP_TIMEOUT \<equiv> 5000"
abbreviation (input) ARP_TIMEOUT_COUNT :: int where "ARP_TIMEOUT_COUNT \<equiv> 5"

datatype net_state = NETLOOP_CONTINUE | NETLOOP_RESTART | NETLOOP_SUCCESS | NETLOOP_FAIL
datatype mac_ref = Server_ether | Ping_mac
datatype rxhand = TftpHandler_p | PingHandler_p | startAgainHandler_p
datatype thand = TftpTimeout_p | PingTimeout_p | startAgainTimeout_p

record netcfg =
  NetOurIP :: u32
  NetServerIP :: u32
  NetOurGatewayIP :: u32
  NetOurSubnetMask :: u32
  NetOurVLAN :: u16
  NetOurNativeVLAN :: u16
  NetOurEther :: "u8 list"
  env_changed_id :: u32

record arpwait =
  NetArpWaitPacketIP :: u32
  NetArpWaitReplyIP :: u32
  NetArpWaitPacketMAC :: "mac_ref option"
  NetArpWaitTxPacket :: addr
  NetArpWaitTxPacketSize :: nat
  NetArpWaitTimerStart :: u32
  NetArpWaitTry :: int

record net =
  nmem :: mem
  eth :: eth
  ncfg :: netcfg
  arpw :: arpwait
  NetTxPacket :: addr
  NetServerEther :: "u8 list"
  ping_ether :: "u8 list"
  NetIPID :: u32
  NetState :: net_state
  packetHandler :: "rxhand option"
  timeHandler :: "thand option"
  timeStart :: u32
  timeDelta :: u32
  NetTryCount :: u32
  NetRestarted :: bool
  NetDevExists :: bool
  NetBootFileXferSize :: u32
  NetPingIP :: u32
  PingSeqNo :: u16
  clk :: "nat \<Rightarrow> u32"
  reads :: nat

definition get_timer :: "net \<Rightarrow> u32 \<times> net" where
  "get_timer st = (clk st (reads st), st\<lparr>reads := reads st + 1\<rparr>)"

text \<open>The array a pointer to an address stands for.\<close>

definition mac_of :: "net \<Rightarrow> mac_ref \<Rightarrow> u8 list" where
  "mac_of st p = (case p of Server_ether \<Rightarrow> NetServerEther st | Ping_mac \<Rightarrow> ping_ether st)"

definition set_mac :: "net \<Rightarrow> mac_ref \<Rightarrow> u8 list \<Rightarrow> net" where
  "set_mac st p a = (case p of Server_ether \<Rightarrow> st\<lparr>NetServerEther := a\<rparr> | Ping_mac \<Rightarrow> st\<lparr>ping_ether := a\<rparr>)"

definition NetBcastAddr :: "u8 list" where "NetBcastAddr = replicate 6 0xff"
definition NetEtherNullAddr :: "u8 list" where "NetEtherNullAddr = replicate 6 0"

text \<open>\<open>eth_send\<close> of a packet in the store.\<close>

definition send_frame :: "net \<Rightarrow> addr \<Rightarrow> nat \<Rightarrow> net" where
  "send_frame st pkt len = st\<lparr>eth := eth_send (eth st) (bytes_at (nmem st) pkt len)\<rparr>"

section \<open>Checksums\<close>

primrec cksum_loop :: "mem \<Rightarrow> addr \<Rightarrow> nat \<Rightarrow> u32 \<Rightarrow> u32" where
  "cksum_loop m p 0 xsum = xsum"
| "cksum_loop m p (Suc len) xsum = cksum_loop m (p + 2) len (xsum + ucast (load16 m p))"

definition NetCksum :: "mem \<Rightarrow> addr \<Rightarrow> nat \<Rightarrow> u32" where
  "NetCksum m p len = (let
     xsum = cksum_loop m p len 0;
     xsum = (xsum AND 0xffff) + drop_bit 16 xsum;
     xsum = (xsum AND 0xffff) + drop_bit 16 xsum
   in xsum AND 0xffff)"

definition NetCksumOk :: "mem \<Rightarrow> addr \<Rightarrow> nat \<Rightarrow> bool" where
  "NetCksumOk m p len \<longleftrightarrow> (NetCksum m p len + 1) AND 0xfffe = 0"

section \<open>Headers\<close>

definition my_vlan :: "u16 \<Rightarrow> u16" where
  "my_vlan v = (let v = htons v in if v = - 1 then VLAN_NONE else v)"

definition NetEthHdrSize :: "netcfg \<Rightarrow> nat" where
  "NetEthHdrSize c = (let myvlanid = my_vlan (NetOurVLAN c) in
     if myvlanid AND VLAN_IDMASK = VLAN_NONE then ETHER_HDR_SIZE else VLAN_ETHER_HDR_SIZE)"

definition NetSetEther :: "netcfg \<Rightarrow> mem \<Rightarrow> addr \<Rightarrow> u8 list \<Rightarrow> u16 \<Rightarrow> mem \<times> nat" where
  "NetSetEther c m xet a prot = (let
     myvlanid = my_vlan (NetOurVLAN c);
     m = write_bytes m xet a;
     m = write_bytes m (xet + 6) (NetOurEther c)
   in if myvlanid AND VLAN_IDMASK = VLAN_NONE
     then (store16 m (xet + 12) (htons prot), ETHER_HDR_SIZE)
     else let
       m = store16 m (xet + 12) (htons PROT_VLAN);
       m = store16 m (xet + 14) (htons (myvlanid AND VLAN_IDMASK))
     in (store16 m (xet + 16) (htons prot), VLAN_ETHER_HDR_SIZE))"

definition NetSetIP :: "net \<Rightarrow> addr \<Rightarrow> u32 \<Rightarrow> u16 \<Rightarrow> u16 \<Rightarrow> nat \<Rightarrow> net" where
  "NetSetIP st xip dest dport sport len = (let
     m = nmem st;
     m = (if odd len then m(xip + IP_HDR_SIZE + len := 0) else m);
     m = m(xip := 0x45);
     m = m(xip + 1 := 0);
     m = store16 m (xip + 2) (htons (of_nat (IP_HDR_SIZE + len)));
     m = store16 m (xip + 4) (htons (ucast (NetIPID st)));
     m = store16 m (xip + 6) (htons IP_FLAGS_DFRAG);
     m = m(xip + 8 := 255);
     m = m(xip + 9 := 17);
     m = store16 m (xip + 10) 0;
     m = store32 m (xip + 12) (NetOurIP (ncfg st));
     m = store32 m (xip + 16) dest;
     m = store16 m (xip + 20) (htons sport);
     m = store16 m (xip + 22) (htons dport);
     m = store16 m (xip + 24) (htons (of_nat (8 + len)));
     m = store16 m (xip + 26) 0;
     m = store16 m (xip + 10) (ucast (NOT (NetCksum m xip (IP_HDR_SIZE_NO_UDP div 2))))
   in st\<lparr>nmem := m, NetIPID := NetIPID st + 1\<rparr>)"

section \<open>Timers and handlers\<close>

definition NetSetHandler :: "rxhand \<Rightarrow> net \<Rightarrow> net" where
  "NetSetHandler f st = st\<lparr>packetHandler := Some f\<rparr>"

definition NetSetTimeout :: "u32 \<Rightarrow> thand \<Rightarrow> net \<Rightarrow> net" where
  "NetSetTimeout iv f st = (if iv = 0 then st\<lparr>timeHandler := None\<rparr>
     else let st = st\<lparr>timeHandler := Some f\<rparr>; (t, st) = get_timer st
          in st\<lparr>timeStart := t, timeDelta := iv\<rparr>)"

definition NetStartAgain :: "env_cfg \<Rightarrow> net \<Rightarrow> net option" where
  "NetStartAgain cfg st = do {
     nretry \<leftarrow> getenv_str cfg (eenv (eth st)) ''netretry'';
     let (retry_forever, retrycnt) = (case nretry of
         None \<Rightarrow> (True, 0)
       | Some s \<Rightarrow> if strcmp_s s ''yes'' = 0 then (True, 0)
           else if strcmp_s s ''no'' = 0 then (False, 0)
           else if strcmp_s s ''once'' = 0 then (False, 1)
           else (False, fst (simple_strtoul s 0)));
     if \<not> retry_forever \<and> retrycnt \<le> NetTryCount st
     then Some (st\<lparr>eth := eth_halt (eth st), NetState := NETLOOP_FAIL\<rparr>)
     else do {
       let st = st\<lparr>NetTryCount := NetTryCount st + 1\<rparr>;
       let e = eth_halt (eth st);
       e \<leftarrow> eth_try_another cfg (\<not> NetRestarted st) e;
       (_, e) \<leftarrow> eth_init cfg e;
       let st = st\<lparr>eth := e\<rparr>;
       if NetRestartWrap e then
         let st = st\<lparr>eth := e\<lparr>NetRestartWrap := False\<rparr>\<rparr>
         in if NetDevExists st
           then Some (NetSetHandler startAgainHandler_p (NetSetTimeout 10000 startAgainTimeout_p st))
           else Some (st\<lparr>NetState := NETLOOP_FAIL\<rparr>)
       else Some (st\<lparr>NetState := NETLOOP_RESTART\<rparr>)
     }
   }"

definition startAgainTimeout :: "net \<Rightarrow> net" where
  "startAgainTimeout st = st\<lparr>NetState := NETLOOP_RESTART\<rparr>"

section \<open>Address resolution and sending\<close>

definition ArpRequest :: "net \<Rightarrow> net" where
  "ArpRequest st = (let
     c = ncfg st;
     w = arpw st;
     pkt = NetTxPacket st;
     (m, n) = NetSetEther c (nmem st) pkt NetBcastAddr PROT_ARP;
     arp = pkt + n;
     m = store16 m arp (htons ARP_ETHER);
     m = store16 m (arp + 2) (htons PROT_IP);
     m = m(arp + 4 := 6);
     m = m(arp + 5 := 4);
     m = store16 m (arp + 6) (htons ARPOP_REQUEST);
     m = write_bytes m (arp + 8) (NetOurEther c);
     m = store32 m (arp + 14) (NetOurIP c);
     m = write_bytes m (arp + 18) (replicate 6 0);
     reply = (if NetArpWaitPacketIP w AND NetOurSubnetMask c \<noteq> NetOurIP c AND NetOurSubnetMask c
       then if NetOurGatewayIP c = 0 then NetArpWaitPacketIP w else NetOurGatewayIP c
       else NetArpWaitPacketIP w);
     m = store32 m (arp + 24) reply;
     st = st\<lparr>nmem := m, arpw := w\<lparr>NetArpWaitReplyIP := reply\<rparr>\<rparr>
   in send_frame st pkt (n + ARP_HDR_SIZE))"

definition ArpTimeoutCheck :: "env_cfg \<Rightarrow> net \<Rightarrow> net option" where
  "ArpTimeoutCheck cfg st = (if NetArpWaitPacketIP (arpw st) = 0 then Some st
     else let (t, st) = get_timer st in
       if ARP_TIMEOUT < t - NetArpWaitTimerStart (arpw st) then
         let st = st\<lparr>arpw := (arpw st)\<lparr>NetArpWaitTry := NetArpWaitTry (arpw st) + 1\<rparr>\<rparr>
         in if ARP_TIMEOUT_COUNT \<le> NetArpWaitTry (arpw st)
           then NetStartAgain cfg (st\<lparr>arpw := (arpw st)\<lparr>NetArpWaitTry := 0\<rparr>\<rparr>)
           else Some (ArpRequest (st\<lparr>arpw := (arpw st)\<lparr>NetArpWaitTimerStart := t\<rparr>\<rparr>))
       else Some st)"

text \<open>The start of a resolution that \<open>NetSendUDPPacket\<close> and \<open>PingSend\<close> share.\<close>

definition start_arp :: "net \<Rightarrow> net" where
  "start_arp st = (let
     st = st\<lparr>arpw := (arpw st)\<lparr>NetArpWaitTry := 1\<rparr>\<rparr>;
     (t, st) = get_timer st
   in ArpRequest (st\<lparr>arpw := (arpw st)\<lparr>NetArpWaitTimerStart := t\<rparr>\<rparr>))"

text \<open>The return value tells whether the packet waits for an address.\<close>

definition NetSendUDPPacket :: "net \<Rightarrow> mac_ref \<Rightarrow> u32 \<Rightarrow> u16 \<Rightarrow> u16 \<Rightarrow> nat \<Rightarrow> int \<times> net" where
  "NetSendUDPPacket st ether dest dport sport len = (let
     dest = (if dest = 0 then 0xFFFFFFFF else dest);
     mac = (if dest = 0xFFFFFFFF then NetBcastAddr else mac_of st ether)
   in if mac = NetEtherNullAddr then (let
       w = arpw st;
       w = w\<lparr>NetArpWaitPacketIP := dest, NetArpWaitPacketMAC := Some ether\<rparr>;
       pkt = NetArpWaitTxPacket w;
       (m, n) = NetSetEther (ncfg st) (nmem st) pkt mac PROT_IP;
       st = NetSetIP (st\<lparr>nmem := m\<rparr>) (pkt + n) dest dport sport len;
       m = fst (memcpy (nmem st) (pkt + n + IP_HDR_SIZE) (NetTxPacket st + n + IP_HDR_SIZE) len);
       st = st\<lparr>nmem := m, arpw := w\<lparr>NetArpWaitTxPacketSize := n + IP_HDR_SIZE + len\<rparr>\<rparr>
     in (1, start_arp st))
   else (let
       (m, n) = NetSetEther (ncfg st) (nmem st) (NetTxPacket st) mac PROT_IP;
       st = NetSetIP (st\<lparr>nmem := m\<rparr>) (NetTxPacket st + n) dest dport sport len
     in (0, send_frame st (NetTxPacket st) (n + IP_HDR_SIZE + len))))"

section \<open>Ping\<close>

definition PingSend :: "net \<Rightarrow> int \<times> net" where
  "PingSend st = (let
     st = st\<lparr>ping_ether := NetEtherNullAddr\<rparr>;
     w = (arpw st)\<lparr>NetArpWaitPacketIP := NetPingIP st, NetArpWaitPacketMAC := Some Ping_mac\<rparr>;
     pkt = NetArpWaitTxPacket w;
     (m, n) = NetSetEther (ncfg st) (nmem st) pkt (ping_ether st) PROT_IP;
     ip = pkt + n;
     m = m(ip := 0x45);
     m = m(ip + 1 := 0);
     m = store16 m (ip + 2) (htons (of_nat (IP_HDR_SIZE_NO_UDP + 8)));
     m = store16 m (ip + 4) (htons (ucast (NetIPID st)));
     m = store16 m (ip + 6) (htons IP_FLAGS_DFRAG);
     m = m(ip + 8 := 255);
     m = m(ip + 9 := 1);
     m = store16 m (ip + 10) 0;
     m = store32 m (ip + 12) (NetOurIP (ncfg st));
     m = store32 m (ip + 16) (NetPingIP st);
     m = store16 m (ip + 10) (ucast (NOT (NetCksum m ip (IP_HDR_SIZE_NO_UDP div 2))));
     s = ip + 20;
     m = store16 m s (htons 0x0800);
     m = store16 m (s + 2) 0;
     m = store16 m (s + 4) 0;
     m = store16 m (s + 6) (htons (PingSeqNo st));
     m = store16 m (s + 2) (ucast (NOT (NetCksum m s (8 div 2))));
     w = w\<lparr>NetArpWaitTxPacketSize := n + IP_HDR_SIZE_NO_UDP + 8\<rparr>;
     st = st\<lparr>nmem := m, NetIPID := NetIPID st + 1, PingSeqNo := PingSeqNo st + 1, arpw := w\<rparr>
   in (1, start_arp st))"

definition PingTimeout :: "net \<Rightarrow> net" where
  "PingTimeout st = st\<lparr>eth := eth_halt (eth st), NetState := NETLOOP_FAIL\<rparr>"

definition PingHandler :: "addr \<Rightarrow> net \<Rightarrow> net" where
  "PingHandler pkt st = (if load32 (nmem st) (pkt + 12) \<noteq> NetPingIP st then st
     else st\<lparr>NetState := NETLOOP_SUCCESS\<rparr>)"

definition PingStart :: "net \<Rightarrow> net" where
  "PingStart st = snd (PingSend (NetSetHandler PingHandler_p (NetSetTimeout 10000 PingTimeout_p st)))"

section \<open>Strings\<close>

definition string_to_ip :: "string option \<Rightarrow> u32" where
  "string_to_ip s = (case s of None \<Rightarrow> 0 | Some s \<Rightarrow> htonl (ipaddr_loop 4 0 s))"

definition getenv_IPaddr :: "env_cfg \<Rightarrow> ubenv \<Rightarrow> string \<Rightarrow> u32 option" where
  "getenv_IPaddr cfg e var = map_option string_to_ip (getenv_str cfg e var)"

definition ip_to_string :: "u32 \<Rightarrow> string option" where
  "ip_to_string x = (let x = htonl x in sprintf ''%d.%d.%d.%d''
     [VInt (drop_bit 24 x AND 0xff), VInt (drop_bit 16 x AND 0xff), VInt (drop_bit 8 x AND 0xff), VInt (x AND 0xff)])"

definition VLAN_to_string :: "u16 \<Rightarrow> string option" where
  "VLAN_to_string x = (let x = my_vlan x in
     if x = VLAN_NONE then Some ''none'' else sprintf ''%d'' [VInt (ucast (x AND VLAN_IDMASK))])"

definition string_to_VLAN :: "string option \<Rightarrow> u16" where
  "string_to_VLAN s = (case s of None \<Rightarrow> htons VLAN_NONE
     | Some s \<Rightarrow> let c = peek s in
         htons (if byte c < 48 \<or> 57 < byte c then VLAN_NONE else ucast (fst (simple_strtoul s 10))))"

definition getenv_VLAN :: "env_cfg \<Rightarrow> ubenv \<Rightarrow> string \<Rightarrow> u16 option" where
  "getenv_VLAN cfg e var = map_option string_to_VLAN (getenv_str cfg e var)"

text \<open>Two blocks of the store that do not overlap.\<close>

definition apart :: "addr \<Rightarrow> nat \<Rightarrow> addr \<Rightarrow> nat \<Rightarrow> bool" where
  "apart a n b k \<longleftrightarrow> a + n \<le> b \<or> b + k \<le> a"

section \<open>Lemmas on packets\<close>

lemma htons_htons [simp]: "htons (htons w) = w"
  unfolding htons_def by (rule bit_word_eqI) (auto simp: bit_simps dest: bit_imp_le_length)

lemma load16_bytes:
  assumes "m a = ucast w" "m (a + 1) = ucast (drop_bit 8 w)"
  shows "load16 m a = w"
proof (rule bit_word_eqI)
  fix n assume n: "n < LENGTH(16)"
  consider "n < 8" | "8 \<le> n" "n < 16" using n by fastforce
  then show "bit (load16 m a) n = bit w n"
    by cases (use assms in \<open>auto simp: load16_def bit_simps\<close>)
qed

lemma load16_store16 [simp]: "load16 (store16 m a w) a = w"
  by (rule load16_bytes) (simp_all add: store16_def)

declare load32_store32(1) [simp]

lemma store16_apply: "i \<noteq> a \<Longrightarrow> i \<noteq> a + 1 \<Longrightarrow> store16 m a w i = m i"
  by (simp add: store16_def)

lemma store32_apply: "i < a \<or> a + 4 \<le> i \<Longrightarrow> store32 m a w i = m i"
  by (auto simp: store32_def)

lemma write_bytes_apply: "i < a \<or> a + length bs \<le> i \<Longrightarrow> write_bytes m a bs i = m i"
  by (auto simp: write_bytes_def)

lemma load16_cong: "m a = m' b \<Longrightarrow> m (a + 1) = m' (b + 1) \<Longrightarrow> load16 m a = load16 m' b"
  by (simp add: load16_def)

section \<open>One's complement sums\<close>

definition fold16 :: "nat \<Rightarrow> nat" where "fold16 s = s mod 65536 + s div 65536"

lemma fold16_mod: "fold16 s mod 65535 = s mod 65535"
proof -
  have "s mod 65535 = (s div 65536 * 65536 + s mod 65536) mod 65535" by simp
  also have "\<dots> = (s div 65536 * (65536 mod 65535) + s mod 65536) mod 65535" by (metis mod_add_left_eq mod_mult_right_eq)
  finally show ?thesis by (simp add: fold16_def add.commute)
qed

lemma fold16_0: "fold16 s = 0 \<longleftrightarrow> s = 0"
  using div_mult_mod_eq [of s 65536] by (auto simp: fold16_def)

lemma fold16_bound: "s < 2 ^ 32 \<Longrightarrow> fold16 (fold16 s) \<le> 65535"
proof -
  assume s: "s < 2 ^ 32"
  define a where "a = fold16 s"
  have "s div 65536 \<le> 65535" "s mod 65536 < 65536" using s by simp_all
  then have a: "a \<le> 131070" by (simp add: a_def fold16_def)
  show ?thesis
  proof (cases "a < 65536")
    case True
    then show ?thesis by (simp flip: a_def) (simp add: fold16_def)
  next
    case False
    with a have "a div 65536 = 1" by (simp add: div_nat_eqI)
    moreover from this have "a mod 65536 = a - 65536" using div_mult_mod_eq [of a 65536] by simp
    ultimately show ?thesis using a by (simp flip: a_def) (simp add: fold16_def)
  qed
qed

definition sum16 :: "mem \<Rightarrow> addr \<Rightarrow> nat \<Rightarrow> nat" where
  "sum16 m p n = (\<Sum>i<n. unat (load16 m (p + 2 * i)))"

lemma unat_load16_le: "unat (load16 m a) \<le> 65535"
  using unsigned_less [of "load16 m a", where 'a = nat] by simp

lemma sum16_bound: "sum16 m p n \<le> 65535 * n"
  unfolding sum16_def
  by (induction n) (auto intro: add_mono unat_load16_le simp: add.commute)

lemma sum16_Suc: "sum16 m p (Suc n) = unat (load16 m p) + sum16 m (p + 2) n"
  unfolding sum16_def by (simp add: sum.lessThan_Suc_shift del: sum.lessThan_Suc)

lemma cksum_loop_sum: "cksum_loop m p n x = x + of_nat (sum16 m p n)"
proof (induction n arbitrary: p x)
  case 0
  then show ?case by (simp add: sum16_def)
next
  case (Suc n)
  then show ?case by (simp add: sum16_Suc) 
qed

lemma unat_and_0xffff: "unat (x AND 0xffff :: u32) = unat x mod 65536"
proof -
  have "x AND 0xffff = take_bit 16 x" by (simp add: take_bit_eq_mask mask_eq_exp_minus_1)
  then show ?thesis by (simp only: unsigned_take_bit_eq) (simp add: take_bit_eq_mod)
qed

lemma unat_fold: "unat ((x AND 0xffff) + drop_bit 16 x :: u32) = fold16 (unat x)"
proof -
  have a: "unat (x AND 0xffff) = unat x mod 65536"
    by (rule unat_and_0xffff)
  have b: "unat (drop_bit 16 x) = unat x div 65536"
    by (simp only: unat_drop_bit_eq) (simp add: drop_bit_eq_div)
  have "unat x < 2 ^ 32" by (rule unat_u32_less)
  then have "unat x mod 65536 + unat x div 65536 < 2 ^ 32" by simp
  then show ?thesis by (subst unat_plus_simple [THEN iffD1]) (auto simp: a b fold16_def no_olen_add_nat)
qed

lemma NetCksum_unat:
  assumes "n \<le> 65536"
  shows "unat (NetCksum m p n) = fold16 (fold16 (sum16 m p n))"
proof -
  have "sum16 m p n \<le> 65535 * 65536" using sum16_bound [of m p n] assms by linarith
  then have s: "unat (of_nat (sum16 m p n) :: u32) = sum16 m p n" by (intro unat_of_nat_u32) simp
  have "fold16 (fold16 (sum16 m p n)) \<le> 65535" using \<open>sum16 m p n \<le> _\<close> by (intro fold16_bound) simp
  moreover have "unat (x AND 0xffff :: u32) = unat x mod 65536" for x :: u32
    by (rule unat_and_0xffff)
  ultimately show ?thesis
    by (simp add: NetCksum_def Let_def cksum_loop_sum unat_fold s)
qed

lemma sum16_store16:
  assumes "k < n"
  shows "sum16 (store16 m (p + 2 * k) w) p n + unat (load16 m (p + 2 * k)) = sum16 m p n + unat w"
proof -
  let ?m = "store16 m (p + 2 * k) w"
  have "load16 ?m (p + 2 * i) = load16 m (p + 2 * i)" if "i \<noteq> k" for i
    using that by (intro load16_cong store16_apply) presburger+
  then have "(\<Sum>i \<in> {..<n} - {k}. unat (load16 ?m (p + 2 * i))) = (\<Sum>i \<in> {..<n} - {k}. unat (load16 m (p + 2 * i)))"
    by (intro sum.cong) auto
  then show ?thesis using assms by (simp add: sum16_def sum.remove [of "{..<n}" k])
qed

lemma unat_not_u16: "unat (ucast (NOT c :: u32) :: u16) = 65535 - unat c" if "unat c \<le> 65535"
proof -
  have "ucast (NOT c) = (NOT (ucast c) :: u16)" by (rule bit_word_eqI) (auto simp: bit_simps)
  moreover have "NOT (ucast c :: u16) = - 1 - ucast c" by (simp add: not_eq_complement)
  moreover have "unat (- 1 - (ucast c :: u16)) = unat (- 1 :: u16) - unat (ucast c :: u16)"
    by (rule unat_sub) (simp add: word_order.extremum)
  moreover have "unat (ucast c :: u16) = unat c" using that
    by (simp add: unsigned_ucast_eq take_bit_nat_eq_self)
  ultimately show ?thesis by (simp add: unsigned_minus_1_eq_mask mask_eq_exp_minus_1)
qed

text \<open>A block into which the complement of its sum is written has the right sum.\<close>

lemma NetCksumOk_store:
  assumes "k < n" "n \<le> 65536" "load16 m (p + 2 * k) = 0"
  shows "NetCksumOk (store16 m (p + 2 * k) (ucast (NOT (NetCksum m p n)))) p n"
proof -
  let ?w = "ucast (NOT (NetCksum m p n)) :: u16"
  let ?m = "store16 m (p + 2 * k) ?w"
  define s where "s = sum16 m p n"
  have s: "s < 2 ^ 32" using sum16_bound [of m p n] assms(2) by (simp add: s_def)
  have c: "unat (NetCksum m p n) = fold16 (fold16 s)" using assms(2) by (simp add: NetCksum_unat s_def)
  have le: "fold16 (fold16 s) \<le> 65535" by (rule fold16_bound [OF s])
  have w: "unat ?w = 65535 - fold16 (fold16 s)" using le by (simp add: unat_not_u16 c)
  define t where "t = sum16 ?m p n"
  have t: "t = s + (65535 - fold16 (fold16 s))"
    using sum16_store16 [OF assms(1), of m p ?w] assms(3) by (simp add: t_def s_def w)
  have "t < 2 ^ 32" using sum16_bound [of ?m p n] assms(2) by (simp add: t_def)
  then have le': "fold16 (fold16 t) \<le> 65535" by (rule fold16_bound)
  have "t mod 65535 = (s mod 65535 + (65535 - fold16 (fold16 s))) mod 65535" by (simp add: t mod_add_left_eq)
  also have "\<dots> = (fold16 (fold16 s) mod 65535 + (65535 - fold16 (fold16 s))) mod 65535"
    by (simp add: fold16_mod)
  also have "\<dots> = (fold16 (fold16 s) + (65535 - fold16 (fold16 s))) mod 65535" by (rule mod_add_left_eq)
  also have "\<dots> = 0" using le by simp
  finally have "fold16 (fold16 t) mod 65535 = 0" by (simp add: fold16_mod)
  moreover have "t \<noteq> 0" using le by (auto simp: t) (simp add: fold16_def)
  then have "fold16 (fold16 t) \<noteq> 0" by (simp add: fold16_0)
  ultimately have "fold16 (fold16 t) = 65535" using le' by (auto elim!: dvdE)
  then have "unat (NetCksum ?m p n) = unat (0xffff :: u32)" using assms(2) by (simp add: NetCksum_unat t_def)
  then have "NetCksum ?m p n = 0xffff" by (simp only: word_unat_eq_iff)
  then show ?thesis by (simp add: NetCksumOk_def)
qed

section \<open>The header that is built\<close>

definition ip_fields :: "mem \<Rightarrow> addr \<Rightarrow> u32 \<Rightarrow> u32 \<Rightarrow> u16 \<Rightarrow> u16 \<Rightarrow> nat \<Rightarrow> bool" where
  "ip_fields m ip src dest sport dport len \<longleftrightarrow> m ip = 0x45 \<and> load16 m (ip + 2) = htons (of_nat (IP_HDR_SIZE + len))
     \<and> load16 m (ip + 6) = htons IP_FLAGS_DFRAG \<and> m (ip + 9) = 17
     \<and> load32 m (ip + 12) = src \<and> load32 m (ip + 16) = dest
     \<and> load16 m (ip + 20) = htons sport \<and> load16 m (ip + 22) = htons dport \<and> load16 m (ip + 24) = htons (of_nat (8 + len))"

lemma NetSetIP_fields:
  "ip_fields (nmem (NetSetIP st ip dest dport sport len)) ip (NetOurIP (ncfg st)) dest sport dport len"
  unfolding ip_fields_def
  by (intro conjI load16_bytes load32_bytes) (simp_all add: NetSetIP_def Let_def store16_def store32_def)

lemma NetSetIP_cksum: "NetCksumOk (nmem (NetSetIP st ip dest dport sport len)) ip 10"
proof -
  have "\<exists>m. nmem (NetSetIP st ip dest dport sport len) = store16 m (ip + 10) (ucast (NOT (NetCksum m ip (20 div 2))))
    \<and> load16 m (ip + 10) = 0"
    by (simp add: NetSetIP_def Let_def split del: if_split, intro exI conjI, rule refl, rule load16_bytes)
      (simp_all add: store16_def store32_def)
  then obtain m where m: "nmem (NetSetIP st ip dest dport sport len) = store16 m (ip + 10) (ucast (NOT (NetCksum m ip 10)))"
    and z: "load16 m (ip + 10) = 0" by auto
  show ?thesis unfolding m using NetCksumOk_store [of 5 10 m ip] z by simp
qed

lemma NetSetIP_other:
  assumes "i < ip \<or> ip + 28 \<le> i" "odd len \<Longrightarrow> i \<noteq> ip + 28 + len"
  shows "nmem (NetSetIP st ip dest dport sport len) i = nmem st i"
  using assms by (auto simp: NetSetIP_def Let_def store16_def store32_def)

lemma NetSetIP_simps [simp]:
  "eth (NetSetIP st ip dest dport sport len) = eth st"
  "ncfg (NetSetIP st ip dest dport sport len) = ncfg st"
  "NetTxPacket (NetSetIP st ip dest dport sport len) = NetTxPacket st"
  by (simp_all add: NetSetIP_def Let_def)

lemma NetSetEther_untagged:
  assumes "my_vlan (NetOurVLAN c) AND VLAN_IDMASK = VLAN_NONE"
  shows "NetSetEther c m xet a prot = (store16 (write_bytes (write_bytes m xet a) (xet + 6) (NetOurEther c)) (xet + 12) (htons prot), 14)"
  using assms by (simp add: NetSetEther_def Let_def)

definition udp_at :: "mem \<Rightarrow> addr \<Rightarrow> u32 \<Rightarrow> u32 \<Rightarrow> u16 \<Rightarrow> u16 \<Rightarrow> nat \<Rightarrow> bool" where
  "udp_at m a src dest sport dport len \<longleftrightarrow> load16 m (a + 12) = htons PROT_IP
     \<and> ip_fields m (a + 14) src dest sport dport len \<and> NetCksumOk m (a + 14) 10"

lemma cksum_loop_cong: "(\<And>i. i < 2 * n \<Longrightarrow> m (p + i) = m' (p' + i)) \<Longrightarrow> cksum_loop m p n x = cksum_loop m' p' n x"
proof (induction n arbitrary: p p' x)
  case 0
  then show ?case by simp
next
  case (Suc n)
  have "load16 m p = load16 m' p'" using Suc.prems [of 0] Suc.prems [of 1] by (simp add: load16_def)
  moreover have "m (p + 2 + i) = m' (p' + 2 + i)" if "i < 2 * n" for i
    using Suc.prems [of "2 + i"] that by (simp add: add.assoc)
  ultimately show ?case using Suc.IH [of "p + 2" "p' + 2"] by simp
qed

lemma udp_at_cong:
  assumes same: "\<And>i. 12 \<le> i \<Longrightarrow> i < 42 \<Longrightarrow> m (a + i) = m' (b + i)"
  shows "udp_at m a src dest sport dport len = udp_at m' b src dest sport dport len"
proof -
  have c: "cksum_loop m (a + 14) 10 0 = cksum_loop m' (b + 14) 10 0"
    using same [of "14 + _"] by (intro cksum_loop_cong) (simp add: add.assoc)
  have l16: "load16 m (a + k) = load16 m' (b + k)" if "12 \<le> k" "k < 41" for k
    using same [of k] same [of "k + 1"] that by (simp add: load16_def)
  have l32: "load32 m (a + k) = load32 m' (b + k)" if "12 \<le> k" "k < 39" for k
    using same [of "k + _"] that by (intro load32_cong) (simp add: add.assoc)
  show ?thesis
    unfolding udp_at_def ip_fields_def NetCksumOk_def NetCksum_def c add.assoc
    by (simp add: l16 l32 same)
qed

section \<open>Datagrams that are sent\<close>

text \<open>The address of the receiver is known and the interface is not in a VLAN.\<close>

definition can_send :: "net \<Rightarrow> mac_ref \<Rightarrow> bool" where
  "can_send st ether \<longleftrightarrow> mac_of st ether \<noteq> NetEtherNullAddr \<and> length (mac_of st ether) = 6
     \<and> length (NetOurEther (ncfg st)) = 6 \<and> my_vlan (NetOurVLAN (ncfg st)) AND VLAN_IDMASK = VLAN_NONE
     \<and> eth_current (eth st) \<noteq> None"

lemma Bcast_not_null: "NetBcastAddr \<noteq> NetEtherNullAddr" "length NetBcastAddr = 6"
  by (simp_all add: NetBcastAddr_def NetEtherNullAddr_def)

lemma NetSendUDPPacket_sent:
  assumes "can_send st ether" and d: "d = (if dest = 0 then 0xFFFFFFFF else dest)"
  obtains m where
    "NetSendUDPPacket st ether dest dport sport len = (0, st\<lparr>nmem := m, NetIPID := NetIPID st + 1,
       eth := (eth st)\<lparr>frames := frames (eth st) @ [bytes_at m (NetTxPacket st) (42 + len)]\<rparr>\<rparr>)"
    "udp_at m (NetTxPacket st) (NetOurIP (ncfg st)) d sport dport len"
    "bytes_at m (NetTxPacket st) 6 = (if d = 0xFFFFFFFF then NetBcastAddr else mac_of st ether)"
    "bytes_at m (NetTxPacket st + 6) 6 = NetOurEther (ncfg st)"
    "\<And>i. i < NetTxPacket st \<or> NetTxPacket st + 42 \<le> i \<Longrightarrow> i \<noteq> NetTxPacket st + 42 + len \<Longrightarrow> m i = nmem st i"
proof -
  define x where "x = NetTxPacket st"
  define a where "a = (if d = 0xFFFFFFFF then NetBcastAddr else mac_of st ether)"
  define m1 where "m1 = store16 (write_bytes (write_bytes (nmem st) x a) (x + 6) (NetOurEther (ncfg st))) (x + 12) (htons PROT_IP)"
  define m where "m = nmem (NetSetIP (st\<lparr>nmem := m1\<rparr>) (x + 14) d dport sport len)"
  have v: "my_vlan (NetOurVLAN (ncfg st)) AND VLAN_IDMASK = VLAN_NONE" and la: "length a = 6"
    and lo: "length (NetOurEther (ncfg st)) = 6" and na: "a \<noteq> NetEtherNullAddr" and cur: "eth_current (eth st) \<noteq> None"
    using assms(1) by (auto simp: can_send_def a_def Bcast_not_null)
  have ip: "NetSetIP (st\<lparr>nmem := m1\<rparr>) (x + 14) d dport sport len = st\<lparr>nmem := m, NetIPID := NetIPID st + 1\<rparr>"
    unfolding m_def by (simp add: NetSetIP_def Let_def)
  have low: "m i = m1 i" if "i < x + 14 \<or> x + 42 \<le> i" "i \<noteq> x + 42 + len" for i
    using that unfolding m_def by (subst NetSetIP_other) auto
  show ?thesis
  proof
    show "NetSendUDPPacket st ether dest dport sport len = (0, st\<lparr>nmem := m, NetIPID := NetIPID st + 1,
       eth := (eth st)\<lparr>frames := frames (eth st) @ [bytes_at m (NetTxPacket st) (42 + len)]\<rparr>\<rparr>)"
      using na cur ip
      by (auto simp: NetSendUDPPacket_def Let_def NetSetEther_untagged [OF v] send_frame_def eth_send_def
          simp flip: d a_def x_def m1_def)
    have "load16 m (x + 12) = load16 m1 (x + 12)" by (rule load16_cong) (simp_all add: low)
    moreover have "ip_fields m (x + 14) (NetOurIP (ncfg st)) d sport dport len"
      using NetSetIP_fields [of "st\<lparr>nmem := m1\<rparr>"] by (simp add: m_def)
    ultimately show "udp_at m (NetTxPacket st) (NetOurIP (ncfg st)) d sport dport len"
      by (simp add: udp_at_def m1_def m_def NetSetIP_cksum flip: x_def)
    show "bytes_at m (NetTxPacket st) 6 = (if d = 0xFFFFFFFF then NetBcastAddr else mac_of st ether)"
      using la lo
      by (auto simp: list_eq_iff_nth_eq low m1_def store16_def write_bytes_def simp flip: x_def a_def)
    show "bytes_at m (NetTxPacket st + 6) 6 = NetOurEther (ncfg st)"
      using la lo
      by (auto simp: list_eq_iff_nth_eq low m1_def store16_def write_bytes_def simp flip: x_def)
    show "m i = nmem st i" if "i < NetTxPacket st \<or> NetTxPacket st + 42 \<le> i" "i \<noteq> NetTxPacket st + 42 + len" for i
      using that la lo by (auto simp: low m1_def store16_def write_bytes_def simp flip: x_def)
  qed
qed

lemma bytes_at_nth_eq: "bytes_at m a n = bs \<Longrightarrow> i < n \<Longrightarrow> m (a + i) = bs ! i"
  by (metis nth_bytes_at)

section \<open>Samples\<close>

definition sample_net :: net where
  "sample_net = \<lparr>nmem = (\<lambda>_. 0), eth = sample_eth,
     ncfg = \<lparr>NetOurIP = 0x0200000A, NetServerIP = 0x0100000A, NetOurGatewayIP = 0, NetOurSubnetMask = 0,
       NetOurVLAN = - 1, NetOurNativeVLAN = - 1, NetOurEther = [0, 1, 2, 3, 4, 5], env_changed_id = 0\<rparr>,
     arpw = \<lparr>NetArpWaitPacketIP = 0, NetArpWaitReplyIP = 0, NetArpWaitPacketMAC = None, NetArpWaitTxPacket = 0x8000,
       NetArpWaitTxPacketSize = 0, NetArpWaitTimerStart = 0, NetArpWaitTry = 0\<rparr>,
     NetTxPacket = 0x9000, NetServerEther = [6, 7, 8, 9, 10, 11], ping_ether = NetEtherNullAddr, NetIPID = 0,
     NetState = NETLOOP_CONTINUE, packetHandler = Some TftpHandler_p, timeHandler = Some TftpTimeout_p,
     timeStart = 0, timeDelta = 5000, NetTryCount = 1, NetRestarted = False, NetDevExists = True,
     NetBootFileXferSize = 0, NetPingIP = 0, PingSeqNo = 0, clk = of_nat, reads = 0\<rparr>"

lemma NullAddr_bytes: "NetEtherNullAddr = [0, 0, 0, 0, 0, 0]"
  by (simp add: NetEtherNullAddr_def eval_nat_numeral)

lemma sample_can_send: "can_send sample_net Server_ether"
  by (simp add: can_send_def sample_net_def mac_of_def NullAddr_bytes my_vlan_def htons_def sample_eth_def)

text \<open>The other side of the exchange, with a packet to send.\<close>

definition sample_server :: "u8 list \<Rightarrow> net" where
  "sample_server p = sample_net\<lparr>ncfg := (ncfg sample_net)\<lparr>NetOurIP := 0x0100000A\<rparr>, nmem := write_bytes (\<lambda>_. 0) (0x9000 + 42) p\<rparr>"


lemma server_can_send: "can_send (sample_server p) Server_ether"
  by (simp add: can_send_def sample_net_def sample_server_def mac_of_def NullAddr_bytes my_vlan_def htons_def sample_eth_def)


section \<open>Properties\<close>

text \<open>The header that \<open>NetSetIP\<close> builds has the fields it should have, and its checksum is right.\<close>

lemma ip_header_valid:
  "ip_fields (nmem (NetSetIP st ip dest dport sport len)) ip (NetOurIP (ncfg st)) dest sport dport len
   \<and> NetCksumOk (nmem (NetSetIP st ip dest dport sport len)) ip (IP_HDR_SIZE_NO_UDP div 2)"
  using NetSetIP_fields NetSetIP_cksum [of st ip] by simp

end
