(* ===== verification/Tftp.thy ===== *)
theory Tftp
  imports Net
begin

text \<open>
  The TFTP client, \<^verbatim>\<open>net/tftp.c\<close>, as built without multicast, \<^verbatim>\<open>tsize\<close> and flash as a target.

  The globals of the file are a record next to the state of the network stack.  Packets are read
  from the receive buffer and built in the transmit buffer, both in the byte store, into which the
  file is copied as well.  Progress messages are left out.
\<close>

section \<open>State\<close>

datatype tftp_state = STATE_RRQ | STATE_DATA | STATE_TOO_LARGE | STATE_BAD_MAGIC | STATE_OACK

record tftp =
  TftpTimeoutMSecs :: u32
  TftpTimeoutCountMax :: int
  TftpRRQTimeoutCountMax :: int
  TftpServerIP :: u32
  TftpServerPort :: u16
  TftpOurPort :: u16
  TftpTimeoutCount :: int
  TftpBlock :: u32
  TftpLastBlock :: u32
  TftpBlockWrap :: u32
  TftpBlockWrapOffset :: u32
  TftpState :: tftp_state
  tftp_filename :: string
  TftpBlkSize :: u16
  TftpBlkSizeOption :: u16

record tnet =
  tn :: net
  tf :: tftp

abbreviation (input) TIMEOUT_COUNT :: int where "TIMEOUT_COUNT \<equiv> 10"
abbreviation (input) WELL_KNOWN_PORT :: u16 where "WELL_KNOWN_PORT \<equiv> 69"
abbreviation (input) TFTP_RRQ :: u16 where "TFTP_RRQ \<equiv> 1"
abbreviation (input) TFTP_DATA :: u16 where "TFTP_DATA \<equiv> 3"
abbreviation (input) TFTP_ACK :: u16 where "TFTP_ACK \<equiv> 4"
abbreviation (input) TFTP_ERROR :: u16 where "TFTP_ERROR \<equiv> 5"
abbreviation (input) TFTP_OACK :: u16 where "TFTP_OACK \<equiv> 6"
abbreviation (input) TFTP_BLOCK_SIZE :: u16 where "TFTP_BLOCK_SIZE \<equiv> 512"
abbreviation (input) TFTP_SEQUENCE_SIZE :: u32 where "TFTP_SEQUENCE_SIZE \<equiv> 0x10000"
abbreviation (input) MAX_LEN :: nat where "MAX_LEN \<equiv> 128"

section \<open>Strings in packets\<close>

primrec mem_streq :: "mem \<Rightarrow> addr \<Rightarrow> string \<Rightarrow> bool" where
  "mem_streq m a [] = (m a = 0)"
| "mem_streq m a (c # s) = (m a = byte c \<and> mem_streq m (a + 1) s)"

text \<open>The text at an address, up to its NUL.\<close>

partial_function (option) mem_str :: "mem \<Rightarrow> addr \<Rightarrow> string option" where
  "mem_str m a = (if m a = 0 then Some []
     else Option.bind (mem_str m (a + 1)) (\<lambda>s. Some (char_of (unat (m a)) # s)))"

section \<open>Sending\<close>

definition store_block :: "tnet \<Rightarrow> u32 \<Rightarrow> addr \<Rightarrow> nat \<Rightarrow> tnet" where
  "store_block st block src len = (let
     n = tn st;
     offset = block * ucast (TftpBlkSize (tf st)) + TftpBlockWrapOffset (tf st);
     newsize = offset + of_nat len;
     n = n\<lparr>nmem := fst (memcpy (nmem n) (unat (load_addr (eenv (eth n)) + offset)) src len)\<rparr>
   in st\<lparr>tn := (if NetBootFileXferSize n < newsize then n\<lparr>NetBootFileXferSize := newsize\<rparr> else n)\<rparr>)"

text \<open>The packet is put behind the headers in the transmit buffer.\<close>

definition tftp_packet :: "tftp \<Rightarrow> (u16 \<times> u8 list) option" where
  "tftp_packet t = (case TftpState t of
     STATE_RRQ \<Rightarrow> do {
       secs \<leftarrow> sprintf ''%lu'' [VInt (TftpTimeoutMSecs t div 1000)];
       opt \<leftarrow> sprintf ''blksize%c%d%c'' [VInt 0, VInt (ucast (TftpBlkSizeOption t)), VInt 0];
       Some (TFTP_RRQ, map byte (tftp_filename t @ [NUL] @ ''octet'' @ [NUL] @ ''timeout'' @ [NUL] @ secs @ [NUL] @ opt))
     }
   | STATE_TOO_LARGE \<Rightarrow> Some (TFTP_ERROR, [0, 3] @ map byte (''File too large'' @ [NUL]))
   | STATE_BAD_MAGIC \<Rightarrow> Some (TFTP_ERROR, [0, 2] @ map byte (''File has bad magic'' @ [NUL]))
   | _ \<Rightarrow> let b = htons (ucast (TftpBlock t)) in Some (TFTP_ACK, [ucast b, ucast (drop_bit 8 b)]))"

definition TftpSend :: "tnet \<Rightarrow> tnet option" where
  "TftpSend st = do {
     let n = tn st;
     let pkt = NetTxPacket n + NetEthHdrSize (ncfg n) + IP_HDR_SIZE;
     (opcode, body) \<leftarrow> tftp_packet (tf st);
     let m = store16 (nmem n) pkt (htons opcode);
     let m = write_bytes m (pkt + 2) (body @ (if opcode = TFTP_RRQ then [0] else []));
     let len = 2 + length body;
     let (r, n) = NetSendUDPPacket (n\<lparr>nmem := m\<rparr>) Server_ether (TftpServerIP (tf st))
       (TftpServerPort (tf st)) (TftpOurPort (tf st)) len;
     Some (st\<lparr>tn := n\<rparr>)
   }"

definition tftp_set_timeout :: "tnet \<Rightarrow> tnet" where
  "tftp_set_timeout st = st\<lparr>tn := NetSetTimeout (TftpTimeoutMSecs (tf st)) TftpTimeout_p (tn st)\<rparr>"

definition tftp_start_again :: "env_cfg \<Rightarrow> tnet \<Rightarrow> tnet option" where
  "tftp_start_again cfg st = map_option (\<lambda>n. st\<lparr>tn := n\<rparr>) (NetStartAgain cfg (tn st))"

definition TftpTimeout :: "env_cfg \<Rightarrow> tnet \<Rightarrow> tnet option" where
  "TftpTimeout cfg st = (let st = st\<lparr>tf := (tf st)\<lparr>TftpTimeoutCount := TftpTimeoutCount (tf st) + 1\<rparr>\<rparr> in
     if TftpTimeoutCountMax (tf st) < TftpTimeoutCount (tf st) then tftp_start_again cfg st
     else TftpSend (tftp_set_timeout st))"

section \<open>Receiving\<close>

text \<open>The options of an OACK; \<open>len\<close> is an unsigned number, so the sum is as well.\<close>

function oack_loop :: "mem \<Rightarrow> addr \<Rightarrow> u32 \<Rightarrow> nat \<Rightarrow> u16 \<Rightarrow> u16 option" where
  "oack_loop m pkt len i blksize = (if i + 8 < unat len then do {
       blksize \<leftarrow> (if mem_streq m (pkt + i) ''blksize''
         then do { s \<leftarrow> mem_str m (pkt + i + 8); Some (ucast (fst (simple_strtoul s 10))) }
         else Some blksize);
       oack_loop m pkt len (i + 1) blksize
     } else Some blksize)"
  by pat_completeness auto
termination by (relation "measure (\<lambda>(m, pkt, len, i, b). unat len - i)") auto

declare oack_loop.simps [simp del]

definition TftpOack :: "tnet \<Rightarrow> addr \<Rightarrow> u16 \<Rightarrow> u32 \<Rightarrow> tnet option" where
  "TftpOack st pkt src len = do {
     let t = (tf st)\<lparr>TftpState := STATE_OACK, TftpServerPort := src\<rparr>;
     blksize \<leftarrow> oack_loop (nmem (tn st)) pkt len 0 (TftpBlkSize t);
     TftpSend (st\<lparr>tf := t\<lparr>TftpBlkSize := blksize\<rparr>\<rparr>)
   }"

definition TftpData :: "env_cfg \<Rightarrow> tnet \<Rightarrow> addr \<Rightarrow> u16 \<Rightarrow> u32 \<Rightarrow> tnet option" where
  "TftpData cfg st pkt src len = (if len < 2 then Some st
     else let
       len = len - 2;
       t = (tf st)\<lparr>TftpBlock := ucast (htons (load16 (nmem (tn st)) pkt))\<rparr>;
       t = (if TftpBlock t = 0 then t\<lparr>TftpBlockWrap := TftpBlockWrap t + 1,
              TftpBlockWrapOffset := TftpBlockWrapOffset t + ucast (TftpBlkSize t) * TFTP_SEQUENCE_SIZE\<rparr>
            else t);
       first = (TftpState t = STATE_RRQ \<or> TftpState t = STATE_OACK);
       t = (if first then t\<lparr>TftpState := STATE_DATA, TftpServerPort := src, TftpLastBlock := 0,
              TftpBlockWrap := 0, TftpBlockWrapOffset := 0\<rparr> else t);
       st = st\<lparr>tf := t\<rparr>
     in if first \<and> TftpBlock t \<noteq> 1 then tftp_start_again cfg st
     else if TftpBlock t = TftpLastBlock t then Some st
     else do {
       let st = st\<lparr>tf := t\<lparr>TftpLastBlock := TftpBlock t, TftpTimeoutCountMax := TIMEOUT_COUNT\<rparr>\<rparr>;
       let st = tftp_set_timeout st;
       let st = store_block st (TftpBlock (tf st) - 1) (pkt + 2) (unat len);
       st \<leftarrow> TftpSend st;
       Some (if len < ucast (TftpBlkSize (tf st)) then st\<lparr>tn := (tn st)\<lparr>NetState := NETLOOP_SUCCESS\<rparr>\<rparr> else st)
     })"

definition TftpErrorPacket :: "env_cfg \<Rightarrow> tnet \<Rightarrow> addr \<Rightarrow> tnet option" where
  "TftpErrorPacket cfg st pkt = (let code = htons (load16 (nmem (tn st)) pkt) in
     if code = 1 \<or> code = 2
     then Some (st\<lparr>tn := (tn st)\<lparr>eth := eth_halt (eth (tn st)), NetState := NETLOOP_FAIL\<rparr>\<rparr>)
     else tftp_start_again cfg st)"

definition TftpHandler :: "env_cfg \<Rightarrow> tnet \<Rightarrow> addr \<Rightarrow> u16 \<Rightarrow> u16 \<Rightarrow> u32 \<Rightarrow> tnet option" where
  "TftpHandler cfg st pkt dest src len = (
     if dest \<noteq> TftpOurPort (tf st) then Some st
     else if TftpState (tf st) \<noteq> STATE_RRQ \<and> src \<noteq> TftpServerPort (tf st) then Some st
     else if len < 2 then Some st
     else let
       len = len - 2;
       proto = htons (load16 (nmem (tn st)) pkt);
       pkt = pkt + 2
     in if proto = TFTP_OACK then TftpOack st pkt src len
       else if proto = TFTP_DATA then TftpData cfg st pkt src len
       else if proto = TFTP_ERROR then TftpErrorPacket cfg st pkt
       else Some st)"

section \<open>Starting\<close>

text \<open>What \<^verbatim>\<open>strncpy\<close> and the NUL behind it leave in \<open>tftp_filename\<close>.\<close>

definition set_filename :: "string \<Rightarrow> tftp \<Rightarrow> tftp" where
  "set_filename s t = t\<lparr>tftp_filename := take (MAX_LEN - 1) s\<rparr>"

definition tftp_options :: "env_cfg \<Rightarrow> tnet \<Rightarrow> tnet option" where
  "tftp_options cfg st = do {
     let e = eenv (eth (tn st));
     ep \<leftarrow> getenv_str cfg e ''tftpblocksize'';
     let t = (case ep of Some s \<Rightarrow> (tf st)\<lparr>TftpBlkSizeOption := ucast (fst (simple_strtol s 10))\<rparr> | None \<Rightarrow> tf st);
     ep \<leftarrow> getenv_str cfg e ''tftptimeout'';
     let t = (case ep of Some s \<Rightarrow> t\<lparr>TftpTimeoutMSecs := fst (simple_strtol s 10)\<rparr> | None \<Rightarrow> t);
     let t = (if TftpTimeoutMSecs t < 1000 then t\<lparr>TftpTimeoutMSecs := 1000\<rparr> else t);
     Some (st\<lparr>tf := t\<rparr>)
   }"

definition tftp_target :: "tnet \<Rightarrow> tnet option" where
  "tftp_target st = do {
     let n = tn st;
     let t = (tf st)\<lparr>TftpServerIP := NetServerIP (ncfg n)\<rparr>;
     let file = BootFile (eenv (eth n));
     if file = [] then do {
       let ip = NetOurIP (ncfg n);
       s \<leftarrow> sprintf ''%02lX%02lX%02lX%02lX.img'' [VInt (ip AND 0xff), VInt (drop_bit 8 ip AND 0xff),
         VInt (drop_bit 16 ip AND 0xff), VInt (drop_bit 24 ip AND 0xff)];
       Some (st\<lparr>tf := set_filename s t\<rparr>)
     }
     else let p = dropWhile (\<lambda>c. c \<noteq> CHR '':'') file in
       if p = [] then Some (st\<lparr>tf := set_filename file t\<rparr>)
       else Some (st\<lparr>tf := set_filename (tl p) (t\<lparr>TftpServerIP := string_to_ip (Some file)\<rparr>)\<rparr>)
   }"

definition TftpStart :: "env_cfg \<Rightarrow> tnet \<Rightarrow> tnet option" where
  "TftpStart cfg st = do {
     st \<leftarrow> tftp_options cfg st;
     st \<leftarrow> tftp_target st;
     let st = st\<lparr>tf := (tf st)\<lparr>TftpTimeoutCountMax := TftpRRQTimeoutCountMax (tf st)\<rparr>\<rparr>;
     let st = tftp_set_timeout st;
     let st = st\<lparr>tn := NetSetHandler TftpHandler_p (tn st)\<rparr>;
     let (t, n) = get_timer (tn st);
     let st = st\<lparr>tn := n\<lparr>NetServerEther := NetEtherNullAddr\<rparr>,
       tf := (tf st)\<lparr>TftpServerPort := WELL_KNOWN_PORT, TftpTimeoutCount := 0, TftpState := STATE_RRQ,
         TftpOurPort := ucast (1024 + t mod 3072), TftpBlock := 0, TftpBlkSize := TFTP_BLOCK_SIZE\<rparr>\<rparr>;
     TftpSend st
   }"

section \<open>TFTP packets that are sent\<close>

lemma byte_of_htons:
  "ucast (htons w) = (ucast (drop_bit 8 w) :: u8)" "ucast (drop_bit 8 (htons w)) = (ucast w :: u8)"
  unfolding htons_def by (rule bit_word_eqI; auto simp: bit_simps dest: bit_imp_le_length)+

lemma TftpSend_sent:
  assumes "can_send (tn st) Server_ether" and pk: "tftp_packet (tf st) = Some (op, body)"
  obtains m where
    "TftpSend st = Some (st\<lparr>tn := (tn st)\<lparr>nmem := m, NetIPID := NetIPID (tn st) + 1,
       eth := (eth (tn st))\<lparr>frames := frames (eth (tn st)) @ [bytes_at m (NetTxPacket (tn st)) (44 + length body)]\<rparr>\<rparr>\<rparr>)"
    "bytes_at m (NetTxPacket (tn st) + 42) (2 + length body) = [ucast (drop_bit 8 op), ucast op] @ body"
    "\<And>i. i < NetTxPacket (tn st) \<or> NetTxPacket (tn st) + 46 + length body \<le> i \<Longrightarrow> m i = nmem (tn st) i"
proof -
  let ?n = "tn st" and ?x = "NetTxPacket (tn st)"
  define extra where "extra = (if op = TFTP_RRQ then [0] else [] :: u8 list)"
  define m0 where "m0 = write_bytes (store16 (nmem ?n) (?x + 42) (htons op)) (44 + ?x) (body @ extra)"
  have hdr: "NetEthHdrSize (ncfg ?n) = 14"
    using assms(1) by (simp add: can_send_def NetEthHdrSize_def Let_def)
  have ex: "length extra \<le> 1" by (simp add: extra_def)
  have "can_send (?n\<lparr>nmem := m0\<rparr>) Server_ether"
    using assms(1) by (simp add: can_send_def mac_of_def)
  then obtain m where s: "NetSendUDPPacket (?n\<lparr>nmem := m0\<rparr>) Server_ether (TftpServerIP (tf st))
       (TftpServerPort (tf st)) (TftpOurPort (tf st)) (2 + length body)
     = (0, ?n\<lparr>nmem := m, NetIPID := NetIPID ?n + 1,
       eth := (eth ?n)\<lparr>frames := frames (eth ?n) @ [bytes_at m ?x (42 + (2 + length body))]\<rparr>\<rparr>)"
    and same: "\<And>i. i < ?x \<or> ?x + 42 \<le> i \<Longrightarrow> i \<noteq> ?x + 42 + (2 + length body) \<Longrightarrow> m i = m0 i"
    by (rule NetSendUDPPacket_sent [where ether = Server_ether and dest = "TftpServerIP (tf st)"
        and dport = "TftpServerPort (tf st)" and sport = "TftpOurPort (tf st)" and len = "2 + length body"])
      (rule refl, simp)
  show thesis
  proof (rule that [of m])
    show "TftpSend st = Some (st\<lparr>tn := (tn st)\<lparr>nmem := m, NetIPID := NetIPID (tn st) + 1,
       eth := (eth (tn st))\<lparr>frames := frames (eth (tn st)) @ [bytes_at m (NetTxPacket (tn st)) (44 + length body)]\<rparr>\<rparr>\<rparr>)"
      using s by (simp add: TftpSend_def Let_def pk hdr add.assoc flip: extra_def m0_def)
    show "bytes_at m (?x + 42) (2 + length body) = [ucast (drop_bit 8 op), ucast op] @ body"
    proof (rule nth_equalityI)
      fix i assume i: "i < length (bytes_at m (?x + 42) (2 + length body))"
      then have "bytes_at m (?x + 42) (2 + length body) ! i = m0 (?x + 42 + i)" by (simp add: same add.assoc)
      also have "\<dots> = ([ucast (drop_bit 8 op), ucast op] @ body) ! i"
        using i by (auto simp: m0_def write_bytes_def store16_def byte_of_htons nth_append nth_Cons' numeral_2_eq_2)
      finally show "bytes_at m (?x + 42) (2 + length body) ! i = ([ucast (drop_bit 8 op), ucast op] @ body) ! i" .
    qed simp
    show "m i = nmem (tn st) i" if "i < ?x \<or> ?x + 46 + length body \<le> i" for i
      using that ex by (auto simp: same m0_def write_bytes_def store16_def)
  qed
qed

text \<open>The block that a frame acknowledges.\<close>

definition frame_ack :: "u8 list \<Rightarrow> nat option" where
  "frame_ack f = (if length f = 46 \<and> f ! 42 = 0 \<and> f ! 43 = 4 then Some (256 * unat (f ! 44) + unat (f ! 45)) else None)"

lemma ack_bytes:
  fixes b :: u16
  shows "256 * unat (ucast (drop_bit 8 b) :: u8) + unat (ucast b :: u8) = unat b"
proof -
  have "unat b < 65536" using unsigned_less [of b, where 'a = nat] by simp
  moreover have "unat (drop_bit 8 b) = unat b div 256"
    by (simp only: unat_drop_bit_eq) (simp add: drop_bit_eq_div)
  ultimately have "unat (ucast (drop_bit 8 b) :: u8) = unat b div 256" "unat (ucast b :: u8) = unat b mod 256"
    by (simp_all only: unsigned_ucast_eq) (simp_all add: take_bit_eq_mod)
  then show ?thesis by simp
qed

lemma TftpSend_ack:
  assumes "can_send (tn st) Server_ether" and "TftpState (tf st) = STATE_DATA \<or> TftpState (tf st) = STATE_OACK"
    and "unat (TftpBlock (tf st)) = k" "k < 65536"
  obtains m f where
    "TftpSend st = Some (st\<lparr>tn := (tn st)\<lparr>nmem := m, NetIPID := NetIPID (tn st) + 1,
       eth := (eth (tn st))\<lparr>frames := frames (eth (tn st)) @ [f]\<rparr>\<rparr>\<rparr>)"
    "frame_ack f = Some k"
    "\<And>i. i < NetTxPacket (tn st) \<or> NetTxPacket (tn st) + 48 \<le> i \<Longrightarrow> m i = nmem (tn st) i"
proof -
  let ?b = "ucast (TftpBlock (tf st)) :: u16" and ?x = "NetTxPacket (tn st)"
  have b: "unat ?b = k" using assms(3,4) by (simp add: unsigned_ucast_eq take_bit_nat_eq_self)
  define body where "body = [ucast (drop_bit 8 ?b), ucast ?b :: u8]"
  have lb: "length body = 2" by (simp add: body_def)
  have pk: "tftp_packet (tf st) = Some (TFTP_ACK, body)"
    using assms(2) by (auto simp: tftp_packet_def Let_def byte_of_htons body_def)
  obtain m where
    s: "TftpSend st = Some (st\<lparr>tn := (tn st)\<lparr>nmem := m, NetIPID := NetIPID (tn st) + 1,
       eth := (eth (tn st))\<lparr>frames := frames (eth (tn st)) @ [bytes_at m ?x (44 + length body)]\<rparr>\<rparr>\<rparr>)"
    and mb: "bytes_at m (?x + 42) (2 + length body) = [ucast (drop_bit 8 TFTP_ACK), ucast TFTP_ACK] @ body"
    and same: "\<And>i. i < ?x \<or> ?x + 46 + length body \<le> i \<Longrightarrow> m i = nmem (tn st) i"
    using TftpSend_sent [OF assms(1) pk] by blast
  have m: "bytes_at m (?x + 42) 4 = [0, 4, ucast (drop_bit 8 ?b), ucast ?b]" using mb lb by (simp add: body_def)
  have "m (?x + 42) = 0" "m (?x + 43) = 4" "m (?x + 44) = ucast (drop_bit 8 ?b)" "m (?x + 45) = ucast ?b"
    using bytes_at_nth_eq [OF m, of 0] bytes_at_nth_eq [OF m, of 1] bytes_at_nth_eq [OF m, of 2] bytes_at_nth_eq [OF m, of 3]
    by (simp_all add: ac_simps)
  then have fa: "frame_ack (bytes_at m ?x 46) = Some k" by (simp add: frame_ack_def ack_bytes b)
  have same': "m i = nmem (tn st) i" if "i < ?x \<or> ?x + 48 \<le> i" for i
    using that by (intro same) (auto simp: lb)
  have s': "TftpSend st = Some (st\<lparr>tn := (tn st)\<lparr>nmem := m, NetIPID := NetIPID (tn st) + 1,
       eth := (eth (tn st))\<lparr>frames := frames (eth (tn st)) @ [bytes_at m ?x 46]\<rparr>\<rparr>\<rparr>)" using s lb by simp
  show thesis by (rule that [OF s' fa same'])
qed

section \<open>Samples\<close>

definition sample_tnet :: tnet where
  "sample_tnet = \<lparr>tn = sample_net, tf = \<lparr>TftpTimeoutMSecs = 5000, TftpTimeoutCountMax = 10, TftpRRQTimeoutCountMax = 10,
     TftpServerIP = 0x0100000A, TftpServerPort = 3000, TftpOurPort = 2000, TftpTimeoutCount = 0, TftpBlock = 0,
     TftpLastBlock = 0, TftpBlockWrap = 0, TftpBlockWrapOffset = 0, TftpState = STATE_OACK, tftp_filename = ''image'',
     TftpBlkSize = 4, TftpBlkSizeOption = 4\<rparr>\<rparr>"

end
