(* ===== verification/Netrx.thy ===== *)
theory Netrx
  imports Tftp
begin

text \<open>
  Receiving packets and the main loop of \<^verbatim>\<open>net/net.c\<close>.

  \<open>NetReceive\<close> takes a frame apart and answers, stores an address, or calls the handler.  One round of
  the loop of \<open>NetLoop\<close> is \<open>net_round\<close>: the frames that the driver has received, whether ctrl-c was
  pressed, and the timers.  The protocols other than TFTP and ping, which set up handlers of their
  own, are not started.  The board is built without defragmentation, UDP checksums, CDP and the network
  console.
\<close>

section \<open>The handlers\<close>

definition call_handler :: "env_cfg \<Rightarrow> tnet \<Rightarrow> addr \<Rightarrow> u16 \<Rightarrow> u16 \<Rightarrow> u32 \<Rightarrow> tnet option" where
  "call_handler cfg st pkt dest src len = (case packetHandler (tn st) of
       None \<Rightarrow> None
     | Some TftpHandler_p \<Rightarrow> TftpHandler cfg st pkt dest src len
     | Some PingHandler_p \<Rightarrow> Some (st\<lparr>tn := PingHandler pkt (tn st)\<rparr>)
     | Some startAgainHandler_p \<Rightarrow> Some st)"

definition call_timeout :: "env_cfg \<Rightarrow> tnet \<Rightarrow> thand \<Rightarrow> tnet option" where
  "call_timeout cfg st f = (case f of
       TftpTimeout_p \<Rightarrow> TftpTimeout cfg st
     | PingTimeout_p \<Rightarrow> Some (st\<lparr>tn := PingTimeout (tn st)\<rparr>)
     | startAgainTimeout_p \<Rightarrow> Some (st\<lparr>tn := startAgainTimeout (tn st)\<rparr>))"

section \<open>Receiving\<close>

definition upd_net :: "(net \<Rightarrow> net) \<Rightarrow> tnet \<Rightarrow> tnet" where
  "upd_net f st = st\<lparr>tn := f (tn st)\<rparr>"

text \<open>ARP: an answer to a request for our address, and the answer to our own request, which is stored and
  lets the waiting packet go.\<close>

definition arp_receive :: "net \<Rightarrow> addr \<Rightarrow> addr \<Rightarrow> int \<Rightarrow> net" where
  "arp_receive st et arp len = (let m = nmem st; c = ncfg st; w = arpw st in
     if len < int ARP_HDR_SIZE then st
     else if htons (load16 m arp) \<noteq> ARP_ETHER then st
     else if htons (load16 m (arp + 2)) \<noteq> PROT_IP then st
     else if m (arp + 4) \<noteq> 6 then st
     else if m (arp + 5) \<noteq> 4 then st
     else if NetOurIP c = 0 then st
     else if load32 m (arp + 24) \<noteq> NetOurIP c then st
     else if htons (load16 m (arp + 6)) = ARPOP_REQUEST then let
         (m, n) = NetSetEther c m et (bytes_at m (et + 6) 6) PROT_ARP;
         m = store16 m (arp + 6) (htons ARPOP_REPLY);
         m = write_bytes m (arp + 18) (bytes_at m (arp + 8) 6);
         m = store32 m (arp + 24) (load32 m (arp + 14));
         m = write_bytes m (arp + 8) (NetOurEther c);
         m = store32 m (arp + 14) (NetOurIP c)
       in send_frame (st\<lparr>nmem := m\<rparr>) et (n + ARP_HDR_SIZE)
     else if htons (load16 m (arp + 6)) = ARPOP_REPLY then
       case NetArpWaitPacketMAC w of None \<Rightarrow> st
       | Some mac \<Rightarrow>
           if NetArpWaitPacketIP w = 0 then st
           else if load32 m (arp + 14) = NetArpWaitReplyIP w then let
               a = bytes_at m (arp + 8) 6;
               st = set_mac st mac a;
               st = st\<lparr>nmem := write_bytes m (NetArpWaitTxPacket w) a\<rparr>;
               st = send_frame st (NetArpWaitTxPacket w) (NetArpWaitTxPacketSize w)
             in st\<lparr>arpw := w\<lparr>NetArpWaitPacketIP := 0, NetArpWaitTxPacketSize := 0, NetArpWaitPacketMAC := None\<rparr>\<rparr>
           else st
     else st)"

definition rarp_receive :: "env_cfg \<Rightarrow> tnet \<Rightarrow> addr \<Rightarrow> int \<Rightarrow> tnet option" where
  "rarp_receive cfg st arp len = (let n = tn st; m = nmem n in
     if len < int ARP_HDR_SIZE then Some st
     else if htons (load16 m (arp + 6)) \<noteq> RARPOP_REPLY \<or> htons (load16 m arp) \<noteq> ARP_ETHER
       \<or> htons (load16 m (arp + 2)) \<noteq> PROT_IP \<or> m (arp + 4) \<noteq> 6 \<or> m (arp + 5) \<noteq> 4 then Some st
     else let
         c = (ncfg n)\<lparr>NetOurIP := load32 m (arp + 24)\<rparr>;
         c = (if NetServerIP c = 0 then c\<lparr>NetServerIP := load32 m (arp + 14)\<rparr> else c)
       in call_handler cfg (st\<lparr>tn := n\<lparr>ncfg := c, NetServerEther := bytes_at m (arp + 8) 6\<rparr>\<rparr>) 0 0 0 0)"

text \<open>The answer to an ICMP echo request is the request, turned around in place.  The size of the header is an
  unsigned number, so that the length of the message wraps around when the IP length is less than 20.\<close>

definition icmp_echo :: "net \<Rightarrow> addr \<Rightarrow> addr \<Rightarrow> nat \<Rightarrow> net" where
  "icmp_echo st et ip len = (let
     m = nmem st;
     m = write_bytes m et (bytes_at m (et + 6) 6);
     m = write_bytes m (et + 6) (NetOurEther (ncfg st));
     m = store16 m (ip + 10) 0;
     m = store16 m (ip + 6) 0;
     m = store32 m (ip + 16) (load32 m (ip + 12));
     m = store32 m (ip + 12) (NetOurIP (ncfg st));
     m = store16 m (ip + 10) (ucast (NOT (NetCksum m ip (IP_HDR_SIZE_NO_UDP div 2))));
     icmph = ip + 20;
     m = m(icmph := ICMP_ECHO_REPLY);
     m = store16 m (icmph + 2) 0;
     m = store16 m (icmph + 2) (ucast (NOT (NetCksum m icmph (unat ((of_nat len - 20 :: u32) div 2)))))
   in send_frame (st\<lparr>nmem := m\<rparr>) et (ETHER_HDR_SIZE + len))"

definition ip_receive :: "env_cfg \<Rightarrow> tnet \<Rightarrow> addr \<Rightarrow> addr \<Rightarrow> int \<Rightarrow> tnet option" where
  "ip_receive cfg st et ip len = (let n = tn st; m = nmem n; c = ncfg n; ip_len = unat (htons (load16 m (ip + 2))) in
     if len < int IP_HDR_SIZE then Some st
     else if len < int ip_len then Some st
     else if m ip AND 0xf0 \<noteq> 0x40 then Some st
     else if 0x05 < m ip AND 0x0f then Some st
     else if \<not> NetCksumOk m ip (IP_HDR_SIZE_NO_UDP div 2) then Some st
     else let tmp = load32 m (ip + 16) in
     if NetOurIP c \<noteq> 0 \<and> tmp \<noteq> NetOurIP c \<and> tmp \<noteq> 0xFFFFFFFF then Some st
     else if htons (load16 m (ip + 6)) AND (IP_OFFS OR IP_FLAGS_MFRAG) \<noteq> 0 then Some st
     else if m (ip + 9) = IPPROTO_ICMP then
       if m (ip + 20) = ICMP_ECHO_REPLY then call_handler cfg st ip 0 0 0
       else if m (ip + 20) = ICMP_ECHO_REQUEST then Some (st\<lparr>tn := icmp_echo n et ip ip_len\<rparr>)
       else Some st
     else if m (ip + 9) \<noteq> IPPROTO_UDP then Some st
     else call_handler cfg st (ip + IP_HDR_SIZE) (htons (load16 m (ip + 22))) (htons (load16 m (ip + 20)))
       (ucast (htons (load16 m (ip + 24))) - 8))"

definition NetReceive :: "env_cfg \<Rightarrow> tnet \<Rightarrow> addr \<Rightarrow> int \<Rightarrow> tnet option" where
  "NetReceive cfg st inpkt len = (let m = nmem (tn st); c = ncfg (tn st); et = inpkt in
     if len < int ETHER_HDR_SIZE then Some st
     else let
       myvlanid = my_vlan (NetOurVLAN c);
       mynvlanid = my_vlan (NetOurNativeVLAN c);
       x = htons (load16 m (et + 12));
       parsed = (if x < 1514 then Some (htons (load16 m (et + 20)), inpkt + E802_HDR_SIZE, len - int E802_HDR_SIZE, VLAN_NONE)
         else if x \<noteq> PROT_VLAN then Some (x, inpkt + ETHER_HDR_SIZE, len - int ETHER_HDR_SIZE, VLAN_NONE)
         else if len < int VLAN_ETHER_HDR_SIZE then None
         else if htons (NetOurVLAN c) AND VLAN_IDMASK = VLAN_NONE then None
         else Some (htons (load16 m (et + 16)), inpkt + VLAN_ETHER_HDR_SIZE, len - int VLAN_ETHER_HDR_SIZE,
           htons (load16 m (et + 14)) AND VLAN_IDMASK))
     in case parsed of None \<Rightarrow> Some st
     | Some (x, ip, len, vlanid) \<Rightarrow> let
         vlanid' = (if vlanid = VLAN_NONE then mynvlanid AND VLAN_IDMASK else vlanid)
       in if myvlanid AND VLAN_IDMASK \<noteq> VLAN_NONE \<and> vlanid' \<noteq> myvlanid AND VLAN_IDMASK then Some st
       else if x = PROT_ARP then Some (upd_net (\<lambda>n. arp_receive n et ip len) st)
       else if x = PROT_RARP then rarp_receive cfg st ip len
       else if x = PROT_IP then ip_receive cfg st et ip len
       else Some st)"

section \<open>The main loop\<close>

datatype proto_t = BOOTP | RARP | ARP | TFTP | DHCP | PING | DNS | NFS | CDP | NETCONS | SNTP

text \<open>0: ready, 1: give up, 2: the interface has no address.\<close>

definition net_check_prereq :: "env_cfg \<Rightarrow> net \<Rightarrow> proto_t \<Rightarrow> (int \<times> net) option" where
  "net_check_prereq cfg st protocol = (let
     c = ncfg st;
     common = (if NetOurIP c = 0 then Some 1 else None);
     early = (case protocol of
         PING \<Rightarrow> if NetPingIP st = 0 then Some 1 else common
       | NFS \<Rightarrow> if NetServerIP c = 0 then Some 1 else common
       | NETCONS \<Rightarrow> if NetServerIP c = 0 then Some 1 else common
       | TFTP \<Rightarrow> if NetServerIP c = 0 then Some 1 else common
       | _ \<Rightarrow> None)
   in case early of Some r \<Rightarrow> Some (r, st)
   | None \<Rightarrow>
       if protocol \<notin> {ARP, DNS, SNTP} \<and> NetOurEther c = NetEtherNullAddr then do {
         num \<leftarrow> eth_get_dev_index (eth st);
         if num = - 1 then Some (1, st)
         else do { st \<leftarrow> NetStartAgain cfg st; Some (2, st) }
       } else Some (0, st))"

definition NetInitLoop :: "env_cfg \<Rightarrow> net \<Rightarrow> net option" where
  "NetInitLoop cfg st = (let e = eenv (eth st); id = env_id e in
     if env_changed_id (ncfg st) \<noteq> id then do {
       gw \<leftarrow> getenv_IPaddr cfg e ''gatewayip'';
       mask \<leftarrow> getenv_IPaddr cfg e ''netmask'';
       server \<leftarrow> getenv_IPaddr cfg e ''serverip'';
       nvlan \<leftarrow> getenv_VLAN cfg e ''nvlan'';
       vlan \<leftarrow> getenv_VLAN cfg e ''vlan'';
       Some (st\<lparr>ncfg := (ncfg st)\<lparr>NetOurIP := bi_ip_addr e, NetOurGatewayIP := gw, NetOurSubnetMask := mask,
         NetServerIP := server, NetOurNativeVLAN := nvlan, NetOurVLAN := vlan, env_changed_id := id\<rparr>\<rparr>)
     } else Some st)"

text \<open>From the label \<^verbatim>\<open>restart\<close> to the loop: \<open>Inl\<close> is a return.\<close>

definition net_restart :: "env_cfg \<Rightarrow> proto_t \<Rightarrow> tnet \<Rightarrow> (int \<times> tnet + tnet) option" where
  "net_restart cfg protocol st = do {
     let n = tn st;
     cur \<leftarrow> eth_current (eth n);
     let n = n\<lparr>ncfg := (ncfg n)\<lparr>NetOurEther := enetaddr (eth_devices (eth n) ! cur)\<rparr>, NetState := NETLOOP_CONTINUE\<rparr>;
     n \<leftarrow> NetInitLoop cfg n;
     (r, n) \<leftarrow> net_check_prereq cfg n protocol;
     if r = 1 then Some (Inl (- 1, st\<lparr>tn := n\<lparr>eth := eth_halt (eth n)\<rparr>\<rparr>))
     else if r = 2 then Some (Inr (st\<lparr>tn := n\<rparr>))
     else do {
       let n = n\<lparr>NetDevExists := True\<rparr>;
       st \<leftarrow> (if protocol = TFTP then TftpStart cfg (st\<lparr>tn := n\<rparr>)
         else if protocol = PING then Some (st\<lparr>tn := PingStart n\<rparr>)
         else None);
       Some (Inr (st\<lparr>tn := (tn st)\<lparr>NetBootFileXferSize := 0\<rparr>\<rparr>))
     }
   }"

text \<open>The frames the driver passes on in one call of \<open>eth_rx\<close>, each in the receive buffer.\<close>

fun eth_rx :: "env_cfg \<Rightarrow> addr \<Rightarrow> u8 list list \<Rightarrow> tnet \<Rightarrow> tnet option" where
  "eth_rx cfg rx [] st = Some st"
| "eth_rx cfg rx (f # fs) st = do {
     let st = upd_net (\<lambda>n. n\<lparr>nmem := write_bytes (nmem n) rx f\<rparr>) st;
     st \<leftarrow> NetReceive cfg st rx (int (length f));
     eth_rx cfg rx fs st
   }"

definition net_success :: "env_cfg \<Rightarrow> tnet \<Rightarrow> (int \<times> tnet) option" where
  "net_success cfg st = do {
     let n = tn st;
     let size = NetBootFileXferSize n;
     e \<leftarrow> (if 0 < size then do {
         buf \<leftarrow> sprintf ''%lX'' [VInt size];
         (_, e) \<leftarrow> setenv cfg (eenv (eth n)) ''filesize'' (Some buf);
         buf \<leftarrow> sprintf ''%lX'' [VInt (load_addr e)];
         (_, e) \<leftarrow> setenv cfg e ''fileaddr'' (Some buf);
         Some e
       } else Some (eenv (eth n)));
     Some (sint size, st\<lparr>tn := n\<lparr>eth := eth_halt ((eth n)\<lparr>eenv := e\<rparr>)\<rparr>\<rparr>)
   }"

text \<open>A round of the loop; \<open>Inl\<close> is a return.\<close>

definition net_round :: "env_cfg \<Rightarrow> addr \<Rightarrow> proto_t \<Rightarrow> u8 list list \<times> bool \<Rightarrow> tnet \<Rightarrow> (int \<times> tnet + tnet) option" where
  "net_round cfg rx protocol ev st = do {
     st \<leftarrow> eth_rx cfg rx (fst ev) st;
     if snd ev then Some (Inl (- 1, upd_net (\<lambda>n. n\<lparr>eth := eth_halt (eth n)\<rparr>) st))
     else do {
       n \<leftarrow> ArpTimeoutCheck cfg (tn st);
       let st = st\<lparr>tn := n\<rparr>;
       st \<leftarrow> (case timeHandler n of None \<Rightarrow> Some st
         | Some x \<Rightarrow> let (t, n) = get_timer n; st = st\<lparr>tn := n\<rparr> in
             if timeDelta n < t - timeStart n then call_timeout cfg (st\<lparr>tn := n\<lparr>timeHandler := None\<rparr>\<rparr>) x
             else Some st);
       case NetState (tn st) of
         NETLOOP_RESTART \<Rightarrow> net_restart cfg protocol (upd_net (\<lambda>n. n\<lparr>NetRestarted := True\<rparr>) st)
       | NETLOOP_SUCCESS \<Rightarrow> map_option Inl (net_success cfg st)
       | NETLOOP_FAIL \<Rightarrow> Some (Inl (- 1, st))
       | NETLOOP_CONTINUE \<Rightarrow> Some (Inr st)
     }
   }"

text \<open>The rounds for a sequence of events; when it is used up the loop still runs.\<close>

fun net_rounds :: "env_cfg \<Rightarrow> addr \<Rightarrow> proto_t \<Rightarrow> (u8 list list \<times> bool) list \<Rightarrow> tnet \<Rightarrow> (int \<times> tnet + tnet) option" where
  "net_rounds cfg rx protocol [] st = Some (Inr st)"
| "net_rounds cfg rx protocol (ev # evs) st = do {
     r \<leftarrow> net_round cfg rx protocol ev st;
     case r of Inl x \<Rightarrow> Some (Inl x) | Inr st \<Rightarrow> net_rounds cfg rx protocol evs st
   }"

text \<open>The addresses of the static packet buffers are parameters.\<close>

record net_buffers =
  PktBuf :: addr
  NetArpWaitPacketBuf :: addr

definition pkt_align :: "addr \<Rightarrow> addr" where
  "pkt_align a = (let p = a + (PKTALIGN - 1) in p - p mod PKTALIGN)"

definition NetLoop :: "env_cfg \<Rightarrow> net_buffers \<Rightarrow> proto_t \<Rightarrow> (u8 list list \<times> bool) list \<Rightarrow> tnet \<Rightarrow> (int \<times> tnet + tnet) option" where
  "NetLoop cfg B protocol evs st = do {
     let n = tn st;
     let n = n\<lparr>NetRestarted := False, NetDevExists := False,
       arpw := (arpw n)\<lparr>NetArpWaitPacketMAC := None, NetArpWaitPacketIP := 0, NetArpWaitReplyIP := 0,
         NetArpWaitTxPacket := pkt_align (NetArpWaitPacketBuf B), NetArpWaitTxPacketSize := 0\<rparr>,
       NetTryCount := 1, NetTxPacket := pkt_align (PktBuf B)\<rparr>;
     let rx = NetTxPacket n + PKTSIZE_ALIGN;
     e \<leftarrow> eth_set_current cfg (eth_halt (eth n));
     (r, e) \<leftarrow> eth_init cfg e;
     if r < 0 then Some (Inl (- 1, st\<lparr>tn := n\<lparr>eth := eth_halt e\<rparr>\<rparr>))
     else do {
       r \<leftarrow> net_restart cfg protocol (st\<lparr>tn := n\<lparr>eth := e\<rparr>\<rparr>);
       case r of Inl x \<Rightarrow> Some (Inl x) | Inr st \<Rightarrow> net_rounds cfg rx protocol evs st
     }
   }"

section \<open>Datagrams that are received\<close>

text \<open>A well-formed datagram for us goes to the handler.\<close>

lemma NetReceive_udp:
  assumes u: "udp_at (nmem (tn st)) a src dest sport dport len"
    and vlan: "my_vlan (NetOurVLAN (ncfg (tn st))) AND VLAN_IDMASK = VLAN_NONE"
    and dest: "dest = NetOurIP (ncfg (tn st)) \<or> dest = 0xFFFFFFFF"
    and len: "28 + len < 65536" "42 + len \<le> flen"
  shows "NetReceive cfg st a (int flen) = call_handler cfg st (a + 42) dport sport (of_nat len)"
proof -
  have l: "unat (of_nat (28 + len) :: u16) = 28 + len" "unat (of_nat (8 + len) :: u16) = 8 + len"
    using len by (simp_all add: unsigned_of_nat take_bit_nat_eq_self del: of_nat_add)
  have "ucast (of_nat (8 + len) :: u16) = (of_nat (8 + len) :: u32)"
    by (metis l(2) of_nat_unat)
  then have c: "ucast (of_nat (8 + len) :: u16) - 8 = (of_nat len :: u32)" by simp
  have k: "htons (htons 0x4000) AND (IP_OFFS OR IP_FLAGS_MFRAG) = 0" by simp
  show ?thesis
    using u vlan dest len l(1)
    by (auto simp: NetReceive_def udp_at_def ip_fields_def Let_def ip_receive_def c add.assoc simp flip: of_nat_add)
qed

lemma udp_roundtrip0:
  assumes "can_send st ether"
    and "NetSendUDPPacket st ether dest dport sport len = (r, st')"
    and "f = last (frames (eth st'))"
    and "NetOurIP (ncfg (tn rcv)) = dest" "dest \<noteq> 0" "28 + len < 65536"
    and "my_vlan (NetOurVLAN (ncfg (tn rcv))) AND VLAN_IDMASK = VLAN_NONE"
    and rcv'_def: "rcv' = upd_net (\<lambda>n. n\<lparr>nmem := write_bytes (nmem n) rx f\<rparr>) rcv"
  shows "NetReceive cfg rcv' rx (int (length f)) = call_handler cfg rcv' (rx + 42) dport sport (of_nat len)
    \<and> bytes_at (nmem (tn rcv')) (rx + 42) len = bytes_at (nmem st) (NetTxPacket st + 42) len"
proof -
  obtain m where send: "NetSendUDPPacket st ether dest dport sport len = (0, st\<lparr>nmem := m, NetIPID := NetIPID st + 1,
       eth := (eth st)\<lparr>frames := frames (eth st) @ [bytes_at m (NetTxPacket st) (42 + len)]\<rparr>\<rparr>)"
    and u: "udp_at m (NetTxPacket st) (NetOurIP (ncfg st)) dest sport dport len"
    and same: "\<And>i. NetTxPacket st + 42 \<le> i \<Longrightarrow> i \<noteq> NetTxPacket st + 42 + len \<Longrightarrow> m i = nmem st i"
  proof (rule NetSendUDPPacket_sent [OF assms(1), of dest dest dport sport len])
    show "dest = (if dest = 0 then 0xFFFFFFFF else dest)" using assms(5) by simp
  qed blast
  have f: "f = bytes_at m (NetTxPacket st) (42 + len)" using assms(2,3) send by auto
  have mem: "nmem (tn rcv') (rx + i) = m (NetTxPacket st + i)" if "i < 42 + len" for i
    using that by (simp add: rcv'_def upd_net_def write_bytes_def f)
  have "udp_at (nmem (tn rcv')) rx (NetOurIP (ncfg st)) dest sport dport len"
    using u by (subst udp_at_cong [where m' = m and b = "NetTxPacket st"]) (simp_all add: mem)
  then have "NetReceive cfg rcv' rx (int (length f)) = call_handler cfg rcv' (rx + 42) dport sport (of_nat len)"
    using assms(4,6,7) by (intro NetReceive_udp [where src = "NetOurIP (ncfg st)" and dest = dest]) (simp_all add: rcv'_def upd_net_def f)
  moreover have "bytes_at (nmem (tn rcv')) (rx + 42) len = bytes_at (nmem st) (NetTxPacket st + 42) len"
    using mem [of "42 + _"] same by (intro bytes_at_cong) (simp add: add.assoc)
  ultimately show ?thesis ..
qed

lemma eth_rx_one:
  "eth_rx cfg rx [f] st = NetReceive cfg (upd_net (\<lambda>n. n\<lparr>nmem := write_bytes (nmem n) rx f\<rparr>) st) rx (int (length f))"
proof -
  have "eth_rx cfg rx [] = Some" by (rule ext) simp
  then show ?thesis by (simp add: Let_def)
qed

text \<open>The length of the data comes from the UDP header alone.\<close>

lemma NetReceive_udp_len:
  assumes m: "load16 m (a + 12) = htons PROT_IP" "m (a + 14) = 0x45" "load16 m (a + 16) = htons (of_nat ip_len)"
      "htons (load16 m (a + 20)) AND (IP_OFFS OR IP_FLAGS_MFRAG) = 0" "m (a + 23) = 17" "load32 m (a + 30) = NetOurIP (ncfg (tn st))"
      "NetCksumOk m (a + 14) 10" "nmem (tn st) = m"
    and vlan: "my_vlan (NetOurVLAN (ncfg (tn st))) AND VLAN_IDMASK = VLAN_NONE"
    and len: "ip_len < 65536" "42 \<le> flen" "14 + ip_len \<le> flen"
  shows "NetReceive cfg st a (int flen) = call_handler cfg st (a + 42) (htons (load16 m (a + 36))) (htons (load16 m (a + 34)))
    (ucast (htons (load16 m (a + 38))) - 8)"
proof -
  have "uint (of_nat ip_len :: u16) = int ip_len" using len by (simp add: unsigned_of_nat take_bit_nat_eq_self)
  then have l: "uint (htons (load16 m (16 + a))) = int ip_len" using m(3) by (simp add: add.commute)
  show ?thesis
    using m vlan len l
    by (simp add: NetReceive_def Let_def ip_receive_def add.assoc) 
qed

section \<open>Properties\<close>

text \<open>C11: a datagram that one machine sends with \<open>NetSendUDPPacket\<close> to the address of another one is handed
  to the handler of that one, with the same ports, length and data.\<close>

theorem udp_roundtrip:
  assumes "can_send st ether" and "NetSendUDPPacket st ether dest dport sport len = (r, st')"
    and "f = last (frames (eth st'))" and "NetOurIP (ncfg (tn rcv)) = dest" and "dest \<noteq> 0" and "28 + len < 65536"
    and "my_vlan (NetOurVLAN (ncfg (tn rcv))) AND VLAN_IDMASK = VLAN_NONE"
    and "rcv' = upd_net (\<lambda>n. n\<lparr>nmem := write_bytes (nmem n) rx f\<rparr>) rcv"
  shows "NetReceive cfg rcv' rx (int (length f)) = call_handler cfg rcv' (rx + 42) dport sport (of_nat len)
    \<and> bytes_at (nmem (tn rcv')) (rx + 42) len = bytes_at (nmem st) (NetTxPacket st + 42) len"
  by (rule udp_roundtrip0 [OF assms])

theorem udp_roundtrip_witness:
  "\<exists>(f :: u8 list) rcv. NetReceive sample_cfg rcv 0x9600 (int (length f)) = call_handler sample_cfg rcv 0x962a 2000 3000 3
    \<and> bytes_at (nmem (tn rcv)) 0x962a 3 = [7, 8, 9]"
proof -
  let ?s = "sample_server [7, 8, 9]"
  have "bytes_at (nmem ?s) (NetTxPacket ?s + 42) 3 = [7, 8, 9]"
    by (simp add: sample_server_def sample_net_def bytes_at_def write_bytes_def upt_conv_Cons)
  moreover have c: "NetOurIP (ncfg (tn sample_tnet)) = 0x0200000A" "my_vlan (NetOurVLAN (ncfg (tn sample_tnet))) AND VLAN_IDMASK = VLAN_NONE"
    using sample_can_send by (simp_all add: sample_tnet_def can_send_def) (simp add: sample_net_def)
  obtain r st' where s: "NetSendUDPPacket ?s Server_ether 0x0200000A 2000 3000 3 = (r, st')" by fastforce
  define f where "f = last (frames (eth st'))"
  define R where "R = upd_net (\<lambda>n. n\<lparr>nmem := write_bytes (nmem n) 0x9600 f\<rparr>) sample_tnet"
  have "NetReceive sample_cfg R 0x9600 (int (length f)) = call_handler sample_cfg R 0x962a 2000 3000 3
    \<and> bytes_at (nmem (tn R)) 0x962a 3 = bytes_at (nmem ?s) (NetTxPacket ?s + 42) 3"
    using udp_roundtrip [OF server_can_send s f_def c(1) _ _ c(2) R_def, of sample_cfg] by simp
  ultimately show ?thesis by (intro exI [of _ f] exI [of _ R]) simp
qed

text \<open>C14: the length of a datagram that the handler gets is the length in the UDP header less eight.  It is not compared with the length in
  the IP header or of the frame, so that a length below eight makes it nearly \<^verbatim>\<open>2^32\<close>.\<close>

theorem udp_length_unchecked:
  assumes "load16 m (a + 12) = htons PROT_IP" and "m (a + 14) = 0x45" and "load16 m (a + 16) = htons (of_nat ip_len)"
    and "htons (load16 m (a + 20)) AND (IP_OFFS OR IP_FLAGS_MFRAG) = 0" and "m (a + 23) = 17"
    and "load32 m (a + 30) = NetOurIP (ncfg (tn st))" and "NetCksumOk m (a + 14) 10" and "nmem (tn st) = m"
    and "my_vlan (NetOurVLAN (ncfg (tn st))) AND VLAN_IDMASK = VLAN_NONE"
    and "ip_len < 65536" and "42 \<le> flen" and "14 + ip_len \<le> flen" and "load16 m (a + 38) = htons (of_nat u)" and "u < 8"
  shows "\<exists>len. NetReceive cfg st a (int flen) = call_handler cfg st (a + 42) (htons (load16 m (a + 36))) (htons (load16 m (a + 34))) len
    \<and> unat len = 2 ^ 32 - 8 + u"
proof -
  have "unat (ucast (of_nat u :: u16) - 8 :: u32) = 2 ^ 32 - 8 + u"
  proof -
    have "u \<in> {0, 1, 2, 3, 4, 5, 6, 7}" using assms(14) by auto
    then show ?thesis by (auto simp: unsigned_minus_1_eq_mask mask_eq_exp_minus_1)
  qed
  then show ?thesis using NetReceive_udp_len [OF assms(1-12), of cfg] assms(13) by auto
qed


theorem udp_length_unchecked_witness:
  "\<exists>m len. load16 m 0x9026 = htons 3 \<and> unat len = 2 ^ 32 - 5
    \<and> NetReceive sample_cfg (sample_tnet\<lparr>tn := sample_net\<lparr>nmem := m\<rparr>\<rparr>) 0x9000 42
      = call_handler sample_cfg (sample_tnet\<lparr>tn := sample_net\<lparr>nmem := m\<rparr>\<rparr>) 0x902a 2000 3000 len"
proof -
  let ?x = "0x9000 :: nat"
  obtain m0 where u: "udp_at m0 (NetTxPacket (sample_server [])) (NetOurIP (ncfg (sample_server []))) 0x0200000A 3000 2000 0"
    by (rule NetSendUDPPacket_sent [OF server_can_send, of "0x0200000A" "0x0200000A" "[]" 2000 3000 0]) simp
  define m where "m = store16 m0 (?x + 38) (htons 3)"
  have same: "m (?x + i) = m0 (?x + i)" if "i < 38" for i using that by (simp add: m_def store16_apply)
  have l16: "load16 m (?x + k) = load16 m0 (?x + k)" if "k < 37" for k
    using that same [of k] same [of "k + 1"] by (intro load16_cong) (simp_all add: add.assoc)
  have l32: "load32 m (?x + k) = load32 m0 (?x + k)" if "k < 35" for k
    using that same [of "k + _"] by (intro load32_cong) (simp add: add.assoc)
  have ck: "cksum_loop m (?x + 14) 10 0 = cksum_loop m0 (?x + 14) 10 0"
    using same [of "14 + _"] by (intro cksum_loop_cong) (simp add: add.assoc)
  have x: "NetTxPacket (sample_server []) = ?x" by (simp add: sample_server_def sample_net_def)
  note f = u [unfolded x udp_at_def ip_fields_def add.assoc]
  let ?st = "sample_tnet\<lparr>tn := sample_net\<lparr>nmem := m\<rparr>\<rparr>"
  have h: "load16 m (?x + 12) = htons PROT_IP" "m (?x + 14) = 0x45" "load16 m (?x + 16) = htons (of_nat 28)"
    "htons (load16 m (?x + 20)) AND (IP_OFFS OR IP_FLAGS_MFRAG) = 0" "m (?x + 23) = 17"
    "load16 m (?x + 36) = htons 2000" "load16 m (?x + 34) = htons 3000"
    using f l16 [of 12] l16 [of 16] l16 [of 20] l16 [of 36] l16 [of 34] same [of 14] same [of 23] by simp_all
  moreover have "load32 m (?x + 30) = NetOurIP (ncfg (tn ?st))" using f l32 [of 30] by (simp add: sample_net_def)
  moreover have "NetCksumOk m (?x + 14) 10" using f ck by (simp add: NetCksumOk_def NetCksum_def)
  moreover have "my_vlan (NetOurVLAN (ncfg (tn ?st))) AND VLAN_IDMASK = VLAN_NONE"
    using sample_can_send by (simp add: can_send_def)
  moreover have s: "load16 m (?x + 38) = htons (of_nat 3)" by (simp add: m_def)
  ultimately have "\<exists>len. NetReceive sample_cfg ?st ?x (int 42) = call_handler sample_cfg ?st (?x + 42) (htons (load16 m (?x + 36)))
      (htons (load16 m (?x + 34))) len \<and> unat len = 2 ^ 32 - 8 + 3"
    by (intro udp_length_unchecked [where ip_len = 28 and u = 3]) simp_all
  then obtain len where "NetReceive sample_cfg ?st ?x 42 = call_handler sample_cfg ?st 0x902a 2000 3000 len" "unat len = 2 ^ 32 - 5"
    using h by auto
  then show ?thesis using s by (intro exI [of _ m] exI [of _ len]) simp
qed

end
