(* ===== verification/Resolve.thy ===== *)
theory Resolve
  imports Netrx
begin

text \<open>
  Address resolution between two machines that run this stack.  \<open>NetSendUDPPacket\<close> to an unknown hardware
  address puts the packet aside and sends an ARP request; the other side answers it in \<open>arp_receive\<close>; the
  answer stores the address and sends the packet that waited; the other side hands its data to its handler.
\<close>

section \<open>ARP packets\<close>

definition arp_at :: "mem \<Rightarrow> addr \<Rightarrow> u16 \<Rightarrow> u8 list \<Rightarrow> u32 \<Rightarrow> u32 \<Rightarrow> bool" where
  "arp_at m a op sha sip tip \<longleftrightarrow> load16 m (a + 12) = htons PROT_ARP \<and> load16 m (a + 14) = htons ARP_ETHER
     \<and> load16 m (a + 16) = htons PROT_IP \<and> m (a + 18) = 6 \<and> m (a + 19) = 4 \<and> load16 m (a + 20) = htons op
     \<and> bytes_at m (a + 22) 6 = sha \<and> load32 m (a + 28) = sip \<and> load32 m (a + 38) = tip"

lemma arp_at_cong:
  assumes same: "\<And>i. 12 \<le> i \<Longrightarrow> i < 42 \<Longrightarrow> m (a + i) = m' (b + i)"
  shows "arp_at m a op sha sip tip = arp_at m' b op sha sip tip"
proof -
  have l16: "load16 m (a + k) = load16 m' (b + k)" if "12 \<le> k" "k < 41" for k
    using same [of k] same [of "k + 1"] that by (simp add: load16_def)
  have l32: "load32 m (a + k) = load32 m' (b + k)" if "12 \<le> k" "k < 39" for k
    using same [of "k + _"] that by (intro load32_cong) (simp add: add.assoc)
  have b6: "bytes_at m (a + 22) 6 = bytes_at m' (b + 22) 6"
    using same [of "22 + _"] by (intro bytes_at_cong) (simp add: add.assoc)
  show ?thesis unfolding arp_at_def b6 by (simp add: l16 l32 same)
qed

text \<open>What the two sides of an exchange need: an interface outside of a VLAN.\<close>

definition plain_net :: "net \<Rightarrow> bool" where
  "plain_net st \<longleftrightarrow> length (NetOurEther (ncfg st)) = 6 \<and> my_vlan (NetOurVLAN (ncfg st)) AND VLAN_IDMASK = VLAN_NONE
     \<and> eth_current (eth st) \<noteq> None"

section \<open>The request\<close>

text \<open>The address that is asked for: the receiver's, or the gateway's.\<close>

definition next_hop :: "netcfg \<Rightarrow> u32 \<Rightarrow> u32" where
  "next_hop c dest = (if dest AND NetOurSubnetMask c \<noteq> NetOurIP c AND NetOurSubnetMask c \<and> NetOurGatewayIP c \<noteq> 0
     then NetOurGatewayIP c else dest)"

lemma ArpRequest_sent:
  assumes "plain_net st"
  obtains m where
    "ArpRequest st = st\<lparr>nmem := m, arpw := (arpw st)\<lparr>NetArpWaitReplyIP := next_hop (ncfg st) (NetArpWaitPacketIP (arpw st))\<rparr>,
       eth := (eth st)\<lparr>frames := frames (eth st) @ [bytes_at m (NetTxPacket st) 42]\<rparr>\<rparr>"
    "arp_at m (NetTxPacket st) ARPOP_REQUEST (NetOurEther (ncfg st)) (NetOurIP (ncfg st)) (next_hop (ncfg st) (NetArpWaitPacketIP (arpw st)))"
    "\<And>i. i < NetTxPacket st \<or> NetTxPacket st + 42 \<le> i \<Longrightarrow> m i = nmem st i"
proof -
  define x where "x = NetTxPacket st"
  define arp where "arp = x + 14"
  define nh where "nh = next_hop (ncfg st) (NetArpWaitPacketIP (arpw st))"
  define m0 where "m0 = store16 (write_bytes (write_bytes (nmem st) x NetBcastAddr) (x + 6) (NetOurEther (ncfg st))) (x + 12) (htons PROT_ARP)"
  define m1 where "m1 = store16 ((store16 (store16 m0 arp (htons ARP_ETHER)) (arp + 2) (htons PROT_IP))(arp + 4 := 6, arp + 5 := 4)) (arp + 6) (htons ARPOP_REQUEST)"
  define m where "m = store32 (write_bytes (store32 (write_bytes m1 (arp + 8) (NetOurEther (ncfg st))) (arp + 14) (NetOurIP (ncfg st))) (arp + 18) (replicate 6 0)) (arp + 24) nh"
  have v: "my_vlan (NetOurVLAN (ncfg st)) AND VLAN_IDMASK = VLAN_NONE" and lo: "length (NetOurEther (ncfg st)) = 6"
    and cur: "eth_current (eth st) \<noteq> None" using assms by (auto simp: plain_net_def)
  show thesis
  proof (rule that [of m])
    have nh': "(if NetArpWaitPacketIP (arpw st) AND NetOurSubnetMask (ncfg st) \<noteq> NetOurIP (ncfg st) AND NetOurSubnetMask (ncfg st)
       then if NetOurGatewayIP (ncfg st) = 0 then NetArpWaitPacketIP (arpw st) else NetOurGatewayIP (ncfg st)
       else NetArpWaitPacketIP (arpw st)) = nh" by (simp add: nh_def next_hop_def)
    show "ArpRequest st = st\<lparr>nmem := m, arpw := (arpw st)\<lparr>NetArpWaitReplyIP := next_hop (ncfg st) (NetArpWaitPacketIP (arpw st))\<rparr>,
       eth := (eth st)\<lparr>frames := frames (eth st) @ [bytes_at m (NetTxPacket st) 42]\<rparr>\<rparr>"
    proof -
      have "ArpRequest st = send_frame (st\<lparr>nmem := m, arpw := (arpw st)\<lparr>NetArpWaitReplyIP := nh\<rparr>\<rparr>) x (14 + 28)"
        unfolding ArpRequest_def Let_def NetSetEther_untagged [OF v] prod.case nh' x_def [symmetric] arp_def [symmetric]
        unfolding m0_def [symmetric] m1_def [symmetric] m_def [symmetric] ..
      then show ?thesis using cur by (auto simp: send_frame_def eth_send_def nh_def x_def)
    qed
    have o: "m (x + k) = m1 (x + k)" if "k < 22" for k
      using that lo by (simp add: m_def arp_def store32_def write_bytes_def)
    have "load16 m (x + 12) = htons PROT_ARP" "load16 m (x + 14) = htons ARP_ETHER" "load16 m (x + 16) = htons PROT_IP"
      "load16 m (x + 20) = htons ARPOP_REQUEST" "m (x + 18) = 6" "m (x + 19) = 4"
      using o [of 12] o [of 13] o [of 14] o [of 15] o [of 16] o [of 17] o [of 18] o [of 19] o [of 20] o [of 21]
      by (auto intro!: load16_bytes simp: m1_def m0_def arp_def store16_def ac_simps)
    moreover have "bytes_at m (x + 22) 6 = NetOurEther (ncfg st)"
      using lo by (auto intro!: nth_equalityI simp: m_def arp_def store32_def write_bytes_def)
    moreover have "load32 m (x + 28) = NetOurIP (ncfg st)" "load32 m (x + 38) = nh"
      using lo by (auto intro!: load32_bytes simp: m_def arp_def store32_def write_bytes_def)
    ultimately show "arp_at m (NetTxPacket st) ARPOP_REQUEST (NetOurEther (ncfg st)) (NetOurIP (ncfg st)) (next_hop (ncfg st) (NetArpWaitPacketIP (arpw st)))"
      by (simp add: arp_at_def x_def nh_def)
    show "m i = nmem st i" if "i < NetTxPacket st \<or> NetTxPacket st + 42 \<le> i" for i
      using that lo unfolding x_def [symmetric]
      by (elim disjE) (simp_all add: m_def m1_def m0_def arp_def store16_apply store32_apply write_bytes_apply Bcast_not_null)
  qed
qed

text \<open>A packet for an unknown address: a request goes out, the packet is put aside.\<close>

lemma NetSendUDPPacket_waits:
  assumes st: "plain_net st" and mac: "mac_of st ether = NetEtherNullAddr" and dest: "dest \<noteq> 0" "dest \<noteq> 0xFFFFFFFF"
    and W: "W = NetArpWaitTxPacket (arpw st)" and X: "X = NetTxPacket st"
    and ap: "apart X PKTSIZE_ALIGN W PKTSIZE_ALIGN" and len: "len \<le> 1490"
  obtains m where
    "NetSendUDPPacket st ether dest dport sport len = (1, st\<lparr>nmem := m, NetIPID := NetIPID st + 1, reads := reads st + 1,
       arpw := (arpw st)\<lparr>NetArpWaitPacketIP := dest, NetArpWaitPacketMAC := Some ether, NetArpWaitTxPacketSize := 42 + len,
         NetArpWaitTry := 1, NetArpWaitTimerStart := clk st (reads st), NetArpWaitReplyIP := next_hop (ncfg st) dest\<rparr>,
       eth := (eth st)\<lparr>frames := frames (eth st) @ [bytes_at m X 42]\<rparr>\<rparr>)"
    "arp_at m X ARPOP_REQUEST (NetOurEther (ncfg st)) (NetOurIP (ncfg st)) (next_hop (ncfg st) dest)"
    "udp_at m W (NetOurIP (ncfg st)) dest sport dport len"
    "bytes_at m (W + 6) 6 = NetOurEther (ncfg st)"
    "bytes_at m (W + 42) len = bytes_at (nmem st) (X + 42) len"
proof -
  have v: "my_vlan (NetOurVLAN (ncfg st)) AND VLAN_IDMASK = VLAN_NONE" and lo: "length (NetOurEther (ncfg st)) = 6"
    using st by (auto simp: plain_net_def)
  have ln: "length NetEtherNullAddr = 6" by (simp add: NetEtherNullAddr_def)
  define m1 where "m1 = store16 (write_bytes (write_bytes (nmem st) W NetEtherNullAddr) (W + 6) (NetOurEther (ncfg st))) (W + 12) (htons PROT_IP)"
  define st2 where "st2 = NetSetIP (st\<lparr>nmem := m1\<rparr>) (W + 14) dest dport sport len"
  have st2: "st2 = st\<lparr>nmem := nmem st2, NetIPID := NetIPID st + 1\<rparr>" by (simp add: st2_def NetSetIP_def Let_def)
  have keep2: "nmem st2 i = m1 i" if "i < W + 14 \<or> W + 42 \<le> i" "i \<noteq> W + 42 + len" for i
    using that unfolding st2_def by (subst NetSetIP_other) auto
  define m3 where "m3 = blit (nmem st2) (W + 42) (X + 42) len"
  have "W + 42 \<le> X + 42 \<or> X + 42 + len \<le> W + 42" using ap len by (auto simp: apart_def)
  then have cp: "fst (memcpy (nmem st2) (42 + W) (42 + X) len) = m3"
    by (simp add: memcpy_blit m3_def ac_simps)
  define w where "w = (arpw st)\<lparr>NetArpWaitPacketIP := dest, NetArpWaitPacketMAC := Some ether, NetArpWaitTxPacketSize := 42 + len\<rparr>"
  define st4 where "st4 = st\<lparr>nmem := m3, NetIPID := NetIPID st + 1, reads := reads st + 1,
    arpw := w\<lparr>NetArpWaitTry := 1, NetArpWaitTimerStart := clk st (reads st)\<rparr>\<rparr>"
  have send: "NetSendUDPPacket st ether dest dport sport len = (1, ArpRequest st4)"
  proof -
    have "NetSendUDPPacket st ether dest dport sport len = (1, start_arp (st2\<lparr>nmem := m3, arpw := w\<rparr>))"
      using dest
      by (simp add: NetSendUDPPacket_def mac Let_def NetSetEther_untagged [OF v] W [symmetric] X [symmetric] m1_def [symmetric] st2_def [symmetric] add.assoc [symmetric] w_def)
        (simp add: cp)
    moreover have "start_arp (st2\<lparr>nmem := m3, arpw := w\<rparr>) = ArpRequest st4"
      by (subst st2) (simp add: start_arp_def get_timer_def Let_def st4_def, rule arg_cong [where f = ArpRequest], simp)
    ultimately show ?thesis by simp
  qed
  have pl4: "plain_net st4" and X4: "NetTxPacket st4 = X" using st by (simp_all add: st4_def plain_net_def X)
  obtain m where m: "ArpRequest st4 = st4\<lparr>nmem := m, arpw := (arpw st4)\<lparr>NetArpWaitReplyIP := next_hop (ncfg st4) (NetArpWaitPacketIP (arpw st4))\<rparr>,
       eth := (eth st4)\<lparr>frames := frames (eth st4) @ [bytes_at m (NetTxPacket st4) 42]\<rparr>\<rparr>"
    "arp_at m (NetTxPacket st4) ARPOP_REQUEST (NetOurEther (ncfg st4)) (NetOurIP (ncfg st4)) (next_hop (ncfg st4) (NetArpWaitPacketIP (arpw st4)))"
    "\<And>i. i < NetTxPacket st4 \<or> NetTxPacket st4 + 42 \<le> i \<Longrightarrow> m i = nmem st4 i"
    using ArpRequest_sent [OF pl4] by blast
  have same: "m (W + i) = m3 (W + i)" if "i < 1536" for i
  proof -
    have "W + i < X \<or> X + 42 \<le> W + i" using that ap by (auto simp: apart_def)
    then show ?thesis using m(3) [unfolded X4] by (simp add: st4_def)
  qed
  have hdr: "m3 (W + i) = nmem st2 (W + i)" if "i < 42" for i
    using that by (simp add: m3_def blit_def)
  show thesis
  proof (rule that [of m])
    show "NetSendUDPPacket st ether dest dport sport len = (1, st\<lparr>nmem := m, NetIPID := NetIPID st + 1, reads := reads st + 1,
       arpw := (arpw st)\<lparr>NetArpWaitPacketIP := dest, NetArpWaitPacketMAC := Some ether, NetArpWaitTxPacketSize := 42 + len,
         NetArpWaitTry := 1, NetArpWaitTimerStart := clk st (reads st), NetArpWaitReplyIP := next_hop (ncfg st) dest\<rparr>,
       eth := (eth st)\<lparr>frames := frames (eth st) @ [bytes_at m X 42]\<rparr>\<rparr>)"
      unfolding send m(1) by (simp add: st4_def w_def X)
    show "arp_at m X ARPOP_REQUEST (NetOurEther (ncfg st)) (NetOurIP (ncfg st)) (next_hop (ncfg st) dest)"
      using m(2) by (simp add: st4_def w_def X)
    have "load16 (nmem st2) (W + 12) = htons PROT_IP" using keep2 [of "W + 12"] keep2 [of "W + 12 + 1"]
      by (intro load16_bytes) (simp_all add: m1_def store16_def)
    then have "udp_at (nmem st2) W (NetOurIP (ncfg st)) dest sport dport len"
      using NetSetIP_fields [of "st\<lparr>nmem := m1\<rparr>" "W + 14"] NetSetIP_cksum [of "st\<lparr>nmem := m1\<rparr>" "W + 14"]
      by (simp add: udp_at_def st2_def)
    then show "udp_at m W (NetOurIP (ncfg st)) dest sport dport len"
      by (subst udp_at_cong [where m' = "nmem st2" and b = W]) (simp_all add: same hdr)
    show "bytes_at m (W + 6) 6 = NetOurEther (ncfg st)"
    proof (rule nth_equalityI)
      fix i assume "i < length (bytes_at m (W + 6) 6)"
      then show "bytes_at m (W + 6) 6 ! i = NetOurEther (ncfg st) ! i"
        using same [of "6 + i"] hdr [of "6 + i"] keep2 [of "W + (6 + i)"] lo ln
        by (simp add: add.assoc m1_def store16_apply write_bytes_def)
    qed (simp add: lo)
    show "bytes_at m (W + 42) len = bytes_at (nmem st) (X + 42) len"
    proof (rule bytes_at_cong)
      fix i assume i: "i < len"
      have "m (W + 42 + i) = nmem st2 (X + 42 + i)" using same [of "42 + i"] i len by (simp add: m3_def blit_def add.assoc)
      also have "\<dots> = nmem st (X + 42 + i)"
        using ap i len lo ln by (subst keep2) (auto simp: apart_def m1_def store16_apply write_bytes_apply)
      finally show "m (W + 42 + i) = nmem st (X + 42 + i)" .
    qed
  qed
qed

section \<open>The answer\<close>

lemma NetReceive_arp:
  assumes a: "arp_at (nmem (tn st)) rx op sha sip tip" and p: "plain_net (tn st)" and n: "14 \<le> n"
  shows "NetReceive cfg st rx (int n) = Some (upd_net (\<lambda>n'. arp_receive n' rx (rx + 14) (int n - 14)) st)"
proof -
  have "my_vlan (NetOurVLAN (ncfg (tn st))) AND VLAN_IDMASK = VLAN_NONE" using p by (simp add: plain_net_def)
  moreover have "load16 (nmem (tn st)) (rx + 12) = htons PROT_ARP" using a by (simp add: arp_at_def)
  ultimately show ?thesis using n by (simp add: NetReceive_def Let_def)
qed

text \<open>A request for our address is answered with our hardware address.\<close>

lemma arp_answer:
  assumes a: "arp_at (nmem n) rx ARPOP_REQUEST sha sip (NetOurIP (ncfg n))" and p: "plain_net n" and ip: "NetOurIP (ncfg n) \<noteq> 0"
    and len: "28 \<le> len"
  obtains m where
    "arp_receive n rx (rx + 14) len = n\<lparr>nmem := m, eth := (eth n)\<lparr>frames := frames (eth n) @ [bytes_at m rx 42]\<rparr>\<rparr>"
    "arp_at m rx ARPOP_REPLY (NetOurEther (ncfg n)) (NetOurIP (ncfg n)) sip"
proof -
  define arp where "arp = rx + 14"
  have v: "my_vlan (NetOurVLAN (ncfg n)) AND VLAN_IDMASK = VLAN_NONE" and lo: "length (NetOurEther (ncfg n)) = 6"
    and cur: "eth_current (eth n) \<noteq> None" using p by (auto simp: plain_net_def)
  define m0 where "m0 = store16 (write_bytes (write_bytes (nmem n) rx (bytes_at (nmem n) (rx + 6) 6)) (rx + 6) (NetOurEther (ncfg n))) (rx + 12) (htons PROT_ARP)"
  define m1 where "m1 = store16 m0 (arp + 6) (htons ARPOP_REPLY)"
  define m2 where "m2 = write_bytes m1 (arp + 18) (bytes_at m1 (arp + 8) 6)"
  define m3 where "m3 = store32 m2 (arp + 24) (load32 m2 (arp + 14))"
  define m where "m = store32 (write_bytes m3 (arp + 8) (NetOurEther (ncfg n))) (arp + 14) (NetOurIP (ncfg n))"
  have f: "load16 (nmem n) (rx + 14) = htons ARP_ETHER" "load16 (nmem n) (rx + 16) = htons PROT_IP" "nmem n (rx + 18) = 6"
    "nmem n (rx + 19) = 4" "load16 (nmem n) (rx + 20) = htons ARPOP_REQUEST" "load32 (nmem n) (rx + 28) = sip"
    "load32 (nmem n) (rx + 38) = NetOurIP (ncfg n)" using a by (simp_all add: arp_at_def)
  have g: "load16 (nmem n) arp = htons ARP_ETHER" "load16 (nmem n) (arp + 2) = htons PROT_IP" "nmem n (arp + 4) = 6"
    "nmem n (arp + 5) = 4" "load16 (nmem n) (arp + 6) = htons ARPOP_REQUEST" "load32 (nmem n) (arp + 24) = NetOurIP (ncfg n)"
    using f by (simp_all add: arp_def add.commute)
  have o0: "m0 (rx + k) = nmem n (rx + k)" if "14 \<le> k" for k
    using that lo by (simp add: m0_def store16_apply write_bytes_apply)
  have o: "m (rx + k) = m0 (rx + k)" if "k < 20" for k
    using that lo by (simp add: m_def m3_def m2_def m1_def arp_def store16_apply store32_apply write_bytes_apply)
  have l: "load16 m (rx + k) = load16 (nmem n) (rx + k)" if "14 \<le> k" "k < 19" for k
    using that o [of k] o [of "k + 1"] o0 [of k] o0 [of "k + 1"] by (intro load16_cong) (simp_all add: add.assoc)
  show thesis
  proof (rule that [of m])
    have "arp_receive n rx arp len = send_frame (n\<lparr>nmem := m\<rparr>) rx (14 + 28)"
    proof -
      have c: "\<not> len < int 28" using len by simp
      show ?thesis
        unfolding arp_receive_def Let_def g NetSetEther_untagged [OF v] prod.case if_not_P [OF c] htons_htons
        using ip unfolding m0_def [symmetric] m1_def [symmetric] m2_def [symmetric] m3_def [symmetric] m_def [symmetric] by simp
    qed
    then show "arp_receive n rx (rx + 14) len = n\<lparr>nmem := m, eth := (eth n)\<lparr>frames := frames (eth n) @ [bytes_at m rx 42]\<rparr>\<rparr>"
      using cur by (auto simp: send_frame_def eth_send_def arp_def)
    have "load16 m (rx + 12) = htons PROT_ARP" "load16 m (rx + 14) = htons ARP_ETHER" "load16 m (rx + 16) = htons PROT_IP"
      "m (rx + 18) = 6" "m (rx + 19) = 4"
    proof -
      show "load16 m (rx + 12) = htons PROT_ARP"
        using o [of 12] o [of 13] by (intro load16_bytes) (simp_all add: m0_def store16_def ac_simps)
      show "load16 m (rx + 14) = htons ARP_ETHER" "load16 m (rx + 16) = htons PROT_IP"
        using f l by simp_all
      show "m (rx + 18) = 6" "m (rx + 19) = 4" using f o o0 by simp_all
    qed
    moreover have "load16 m (rx + 20) = htons ARPOP_REPLY"
      using lo by (intro load16_bytes) (simp_all add: m_def m3_def m2_def m1_def arp_def store16_def store32_apply write_bytes_apply)
    moreover have "bytes_at m (rx + 22) 6 = NetOurEther (ncfg n)"
      using lo by (intro nth_equalityI) (simp_all add: m_def arp_def store32_apply write_bytes_def)
    moreover have "load32 m (rx + 28) = NetOurIP (ncfg n)" by (simp add: m_def arp_def add.commute)
    moreover have "load32 m (rx + 38) = sip"
    proof -
      have "load32 m (rx + 38) = load32 m3 (rx + 38)"
        using lo by (intro load32_cong) (simp add: m_def arp_def store32_apply write_bytes_apply)
      also have "\<dots> = load32 m2 (rx + 28)" by (simp add: m3_def arp_def add.commute)
      also have "\<dots> = load32 (nmem n) (rx + 28)"
        using o0 [of "28 + _"] by (intro load32_cong) (simp add: m2_def m1_def arp_def store16_apply write_bytes_apply add.assoc)
      finally show ?thesis using f by simp
    qed
    ultimately show "arp_at m rx ARPOP_REPLY (NetOurEther (ncfg n)) (NetOurIP (ncfg n)) sip" by (simp add: arp_at_def)
  qed
qed

text \<open>The answer to our request lets the waiting packet go.\<close>

lemma arp_completes:
  assumes a: "arp_at (nmem n) rx ARPOP_REPLY sha (NetArpWaitReplyIP (arpw n)) (NetOurIP (ncfg n))" and p: "plain_net n"
    and ip: "NetOurIP (ncfg n) \<noteq> 0" and len: "28 \<le> len"
    and w: "NetArpWaitPacketMAC (arpw n) = Some ether" "NetArpWaitPacketIP (arpw n) \<noteq> 0"
  defines "m \<equiv> write_bytes (nmem n) (NetArpWaitTxPacket (arpw n)) sha"
  shows "arp_receive n rx (rx + 14) len = (set_mac n ether sha)\<lparr>nmem := m,
       eth := (eth n)\<lparr>frames := frames (eth n) @ [bytes_at m (NetArpWaitTxPacket (arpw n)) (NetArpWaitTxPacketSize (arpw n))]\<rparr>,
       arpw := (arpw n)\<lparr>NetArpWaitPacketIP := 0, NetArpWaitTxPacketSize := 0, NetArpWaitPacketMAC := None\<rparr>\<rparr>"
proof -
  have f: "load16 (nmem n) (rx + 14) = htons ARP_ETHER" "load16 (nmem n) (rx + 14 + 2) = htons PROT_IP" "nmem n (rx + 14 + 4) = 6"
    "nmem n (rx + 14 + 5) = 4" "load16 (nmem n) (rx + 14 + 6) = htons ARPOP_REPLY" "bytes_at (nmem n) (rx + 14 + 8) 6 = sha"
    "load32 (nmem n) (rx + 14 + 14) = NetArpWaitReplyIP (arpw n)" "load32 (nmem n) (rx + 14 + 24) = NetOurIP (ncfg n)"
    using a by (simp_all add: arp_at_def add.commute)
  have c: "\<not> len < int 28" using len by simp
  have cur: "eth_current (eth n) \<noteq> None" using p by (simp add: plain_net_def)
  show ?thesis
    unfolding arp_receive_def Let_def f if_not_P [OF c] htons_htons w(1) option.case
    using ip w(2) cur
    by (cases ether) (auto simp: m_def set_mac_def send_frame_def eth_send_def)
qed

section \<open>The exchange\<close>

lemma write_bytes_frame: "i < length f \<Longrightarrow> write_bytes m a f (a + i) = f ! i"
  by (simp add: write_bytes_def)

lemma arp_exchange_steps:
  assumes A: "plain_net (tn A)" and B: "plain_net (tn B)"
    and mac: "mac_of (tn A) ether = NetEtherNullAddr" and ip: "NetOurIP (ncfg (tn A)) \<noteq> 0"
    and dest: "NetOurIP (ncfg (tn B)) = dest" "dest \<noteq> 0" "dest \<noteq> 0xFFFFFFFF" "next_hop (ncfg (tn A)) dest = dest"
    and ap: "apart (NetTxPacket (tn A)) PKTSIZE_ALIGN (NetArpWaitTxPacket (arpw (tn A))) PKTSIZE_ALIGN"
      "apart rxA PKTSIZE_ALIGN (NetArpWaitTxPacket (arpw (tn A))) PKTSIZE_ALIGN"
    and len: "len \<le> 1490"
  shows "\<exists>A1 B1 A2 f. NetSendUDPPacket (tn A) ether dest dport sport len = (1, A1)
    \<and> eth_rx cfgB rxB [last (frames (eth A1))] B = Some B1
    \<and> eth_rx cfgA rxA [last (frames (eth (tn B1)))] (A\<lparr>tn := A1\<rparr>) = Some A2
    \<and> mac_of (tn A2) ether = NetOurEther (ncfg (tn B))
    \<and> frames (eth (tn A2)) = frames (eth A1) @ [f] \<and> take 6 f = NetOurEther (ncfg (tn B))
    \<and> (let B' = upd_net (\<lambda>n. n\<lparr>nmem := write_bytes (nmem n) rxB f\<rparr>) B1 in
         eth_rx cfgB rxB [f] B1 = call_handler cfgB B' (rxB + 42) dport sport (of_nat len)
       \<and> bytes_at (nmem (tn B')) (rxB + 42) len = bytes_at (nmem (tn A)) (NetTxPacket (tn A) + 42) len)"
proof -
  let ?X = "NetTxPacket (tn A)" and ?W = "NetArpWaitTxPacket (arpw (tn A))" and ?mac = "NetOurEther (ncfg (tn B))"
  obtain m where send: "NetSendUDPPacket (tn A) ether dest dport sport len = (1, (tn A)\<lparr>nmem := m, NetIPID := NetIPID (tn A) + 1, reads := reads (tn A) + 1,
       arpw := (arpw (tn A))\<lparr>NetArpWaitPacketIP := dest, NetArpWaitPacketMAC := Some ether, NetArpWaitTxPacketSize := 42 + len,
         NetArpWaitTry := 1, NetArpWaitTimerStart := clk (tn A) (reads (tn A)), NetArpWaitReplyIP := next_hop (ncfg (tn A)) dest\<rparr>,
       eth := (eth (tn A))\<lparr>frames := frames (eth (tn A)) @ [bytes_at m ?X 42]\<rparr>\<rparr>)"
    and req: "arp_at m ?X ARPOP_REQUEST (NetOurEther (ncfg (tn A))) (NetOurIP (ncfg (tn A))) (next_hop (ncfg (tn A)) dest)"
    and wait: "udp_at m ?W (NetOurIP (ncfg (tn A))) dest sport dport len" "bytes_at m (?W + 42) len = bytes_at (nmem (tn A)) (?X + 42) len"
    using NetSendUDPPacket_waits [OF A mac dest(2,3) refl refl ap(1) len] by blast
  define A1 where "A1 = (tn A)\<lparr>nmem := m, NetIPID := NetIPID (tn A) + 1, reads := reads (tn A) + 1,
       arpw := (arpw (tn A))\<lparr>NetArpWaitPacketIP := dest, NetArpWaitPacketMAC := Some ether, NetArpWaitTxPacketSize := 42 + len,
         NetArpWaitTry := 1, NetArpWaitTimerStart := clk (tn A) (reads (tn A)), NetArpWaitReplyIP := next_hop (ncfg (tn A)) dest\<rparr>,
       eth := (eth (tn A))\<lparr>frames := frames (eth (tn A)) @ [bytes_at m ?X 42]\<rparr>\<rparr>"
  note send = send [folded A1_def]
  define rq where "rq = bytes_at m ?X 42"
  have l1: "last (frames (eth A1)) = rq" by (simp add: A1_def rq_def)
  define Bq where "Bq = upd_net (\<lambda>n. n\<lparr>nmem := write_bytes (nmem n) rxB rq\<rparr>) B"
  have Bq: "plain_net (tn Bq)" "ncfg (tn Bq) = ncfg (tn B)" using B by (simp_all add: Bq_def upd_net_def plain_net_def)
  have "arp_at (nmem (tn Bq)) rxB ARPOP_REQUEST (NetOurEther (ncfg (tn A))) (NetOurIP (ncfg (tn A))) dest"
    using req dest(4) by (subst arp_at_cong [where m' = m and b = ?X]) (simp_all add: Bq_def upd_net_def write_bytes_frame rq_def)
  then have reqB: "arp_at (nmem (tn Bq)) rxB ARPOP_REQUEST (NetOurEther (ncfg (tn A))) (NetOurIP (ncfg (tn A))) (NetOurIP (ncfg (tn Bq)))"
    using dest(1) Bq(2) by simp
  obtain mb where ans: "arp_receive (tn Bq) rxB (rxB + 14) 28 = (tn Bq)\<lparr>nmem := mb, eth := (eth (tn Bq))\<lparr>frames := frames (eth (tn Bq)) @ [bytes_at mb rxB 42]\<rparr>\<rparr>"
    and rep: "arp_at mb rxB ARPOP_REPLY (NetOurEther (ncfg (tn Bq))) (NetOurIP (ncfg (tn Bq))) (NetOurIP (ncfg (tn A)))"
    by (rule arp_answer [OF reqB Bq(1), of 28]) (use dest Bq(2) in simp_all)
  define B1 where "B1 = Bq\<lparr>tn := (tn Bq)\<lparr>nmem := mb, eth := (eth (tn Bq))\<lparr>frames := frames (eth (tn Bq)) @ [bytes_at mb rxB 42]\<rparr>\<rparr>\<rparr>"
  have stepB: "eth_rx cfgB rxB [rq] B = Some B1"
    using NetReceive_arp [OF reqB Bq(1), of "length rq" cfgB] ans
    by (simp only: eth_rx_one Bq_def [symmetric]) (simp add: rq_def upd_net_def B1_def)
  define rp where "rp = bytes_at mb rxB 42"
  have l2: "last (frames (eth (tn B1))) = rp" by (simp add: B1_def rp_def)
  define Aq where "Aq = upd_net (\<lambda>n. n\<lparr>nmem := write_bytes (nmem n) rxA rp\<rparr>) (A\<lparr>tn := A1\<rparr>)"
  have Aq: "plain_net (tn Aq)" "ncfg (tn Aq) = ncfg (tn A)" "arpw (tn Aq) = arpw A1" "eth (tn Aq) = eth A1"
    "nmem (tn Aq) = write_bytes m rxA rp"
    using A by (simp_all add: Aq_def upd_net_def plain_net_def A1_def)
  have W1: "NetArpWaitTxPacket (arpw A1) = ?W" "NetArpWaitReplyIP (arpw A1) = dest" "NetArpWaitPacketMAC (arpw A1) = Some ether"
    "NetArpWaitPacketIP (arpw A1) = dest" "NetArpWaitTxPacketSize (arpw A1) = 42 + len" by (simp_all add: A1_def dest(4))
  have "arp_at (nmem (tn Aq)) rxA ARPOP_REPLY ?mac dest (NetOurIP (ncfg (tn A)))"
    using rep dest(1) Bq(2) by (subst arp_at_cong [where m' = mb and b = rxB]) (simp_all add: Aq(5) write_bytes_frame rp_def)
  then have repA: "arp_at (nmem (tn Aq)) rxA ARPOP_REPLY ?mac (NetArpWaitReplyIP (arpw (tn Aq))) (NetOurIP (ncfg (tn Aq)))"
    using Aq W1 by simp
  define mw where "mw = write_bytes (nmem (tn Aq)) ?W ?mac"
  define f where "f = bytes_at mw ?W (42 + len)"
  have fin: "arp_receive (tn Aq) rxA (rxA + 14) 28 = (set_mac (tn Aq) ether ?mac)\<lparr>nmem := mw,
       eth := (eth A1)\<lparr>frames := frames (eth A1) @ [f]\<rparr>,
       arpw := (arpw A1)\<lparr>NetArpWaitPacketIP := 0, NetArpWaitTxPacketSize := 0, NetArpWaitPacketMAC := None\<rparr>\<rparr>"
    using arp_completes [OF repA Aq(1), of 28 ether] ip dest(2) by (simp add: Aq W1 f_def mw_def)
  define A2 where "A2 = Aq\<lparr>tn := arp_receive (tn Aq) rxA (rxA + 14) 28\<rparr>"
  have stepA: "eth_rx cfgA rxA [rp] (A\<lparr>tn := A1\<rparr>) = Some A2"
    using NetReceive_arp [OF repA Aq(1), of "length rp" cfgA]
    by (simp only: eth_rx_one Aq_def [symmetric]) (simp add: rp_def upd_net_def A2_def)
  have mac2: "mac_of (tn A2) ether = ?mac" unfolding A2_def tnet.simps fin by (cases ether) (simp_all add: mac_of_def set_mac_def)
  have fr2: "frames (eth (tn A2)) = frames (eth A1) @ [f]" by (simp add: A2_def fin)
  have lb: "length ?mac = 6" using B by (simp add: plain_net_def)
  have body: "mw (?W + i) = m (?W + i)" if "6 \<le> i" "i < 1536" for i
    using that lb ap(2) by (auto simp: mw_def Aq(5) write_bytes_def rp_def apart_def)
  have "take 6 f = ?mac"
    using lb by (intro nth_equalityI) (simp_all add: f_def mw_def write_bytes_frame)
  moreover have "eth_rx cfgB rxB [f] B1 = call_handler cfgB (upd_net (\<lambda>n. n\<lparr>nmem := write_bytes (nmem n) rxB f\<rparr>) B1) (rxB + 42) dport sport (of_nat len)"
  proof -
    define B' where "B' = upd_net (\<lambda>n. n\<lparr>nmem := write_bytes (nmem n) rxB f\<rparr>) B1"
    have c: "ncfg (tn B') = ncfg (tn B)" by (simp add: B'_def B1_def upd_net_def Bq(2))
    have "udp_at (nmem (tn B')) rxB (NetOurIP (ncfg (tn A))) dest sport dport len"
      using wait(1) body len by (subst udp_at_cong [where m' = m and b = ?W]) (simp_all add: B'_def upd_net_def write_bytes_frame f_def)
    then have "NetReceive cfgB B' rxB (int (42 + len)) = call_handler cfgB B' (rxB + 42) dport sport (of_nat len)"
      using B len by (intro NetReceive_udp [where src = "NetOurIP (ncfg (tn A))" and dest = dest]) (simp_all add: c plain_net_def dest(1))
    moreover have "length f = 42 + len" by (simp add: f_def)
    ultimately show ?thesis by (simp only: eth_rx_one B'_def [symmetric])
  qed
  moreover have "bytes_at (nmem (tn (upd_net (\<lambda>n. n\<lparr>nmem := write_bytes (nmem n) rxB f\<rparr>) B1))) (rxB + 42) len = bytes_at (nmem (tn A)) (?X + 42) len"
    unfolding wait(2) [symmetric]
  proof (rule bytes_at_cong)
    fix i assume i: "i < len"
    show "nmem (tn (upd_net (\<lambda>n. n\<lparr>nmem := write_bytes (nmem n) rxB f\<rparr>) B1)) (rxB + 42 + i) = m (?W + 42 + i)"
      using i len body [of "42 + i"] write_bytes_frame [of "42 + i" f] by (simp add: upd_net_def f_def add.assoc)
  qed
  ultimately show ?thesis
    using send stepB stepA mac2 fr2 l1 l2
    by (intro exI [of _ A1] exI [of _ B1] exI [of _ A2] exI [of _ f]) (simp add: Let_def del: eth_rx.simps)
qed

section \<open>Properties\<close>

text \<open>C10: a datagram to a machine whose hardware address is not known is delivered: the ARP request of the sender is
  answered by the other side, the answer is stored and releases the packet, and the other side hands
  its data to its handler.\<close>

theorem arp_exchange:
  assumes "plain_net (tn A)" and "plain_net (tn B)" and "mac_of (tn A) ether = NetEtherNullAddr" and "NetOurIP (ncfg (tn A)) \<noteq> 0"
    and "NetOurIP (ncfg (tn B)) = dest" and "dest \<noteq> 0" and "dest \<noteq> 0xFFFFFFFF" and "next_hop (ncfg (tn A)) dest = dest"
    and "apart (NetTxPacket (tn A)) PKTSIZE_ALIGN (NetArpWaitTxPacket (arpw (tn A))) PKTSIZE_ALIGN"
    and "apart rxA PKTSIZE_ALIGN (NetArpWaitTxPacket (arpw (tn A))) PKTSIZE_ALIGN" and "len \<le> 1490"
  shows "\<exists>A1 B1 A2 f. NetSendUDPPacket (tn A) ether dest dport sport len = (1, A1)
    \<and> eth_rx cfgB rxB [last (frames (eth A1))] B = Some B1
    \<and> eth_rx cfgA rxA [last (frames (eth (tn B1)))] (A\<lparr>tn := A1\<rparr>) = Some A2
    \<and> mac_of (tn A2) ether = NetOurEther (ncfg (tn B))
    \<and> frames (eth (tn A2)) = frames (eth A1) @ [f] \<and> take 6 f = NetOurEther (ncfg (tn B))
    \<and> (let B' = upd_net (\<lambda>n. n\<lparr>nmem := write_bytes (nmem n) rxB f\<rparr>) B1 in
         eth_rx cfgB rxB [f] B1 = call_handler cfgB B' (rxB + 42) dport sport (of_nat len)
       \<and> bytes_at (nmem (tn B')) (rxB + 42) len = bytes_at (nmem (tn A)) (NetTxPacket (tn A) + 42) len)"
  by (rule arp_exchange_steps [OF assms])

definition sample_A :: tnet where
  "sample_A = sample_tnet\<lparr>tn := sample_net\<lparr>NetServerEther := NetEtherNullAddr, nmem := write_bytes (\<lambda>_. 0) 0x902a [7, 8, 9]\<rparr>\<rparr>"

definition sample_B :: tnet where
  "sample_B = sample_tnet\<lparr>tn := sample_net\<lparr>ncfg := (ncfg sample_net)\<lparr>NetOurIP := 0x0100000A, NetOurEther := [6, 7, 8, 9, 10, 11]\<rparr>\<rparr>\<rparr>"

theorem arp_exchange_witness:
  "\<exists>A1 B1 A2. NetSendUDPPacket (tn sample_A) Server_ether 0x0100000A 69 2000 3 = (1, A1)
    \<and> eth_rx sample_cfg 0x9600 [last (frames (eth A1))] sample_B = Some B1
    \<and> eth_rx sample_cfg 0x9600 [last (frames (eth (tn B1)))] (sample_A\<lparr>tn := A1\<rparr>) = Some A2
    \<and> NetServerEther (tn A2) = [6, 7, 8, 9, 10, 11]"
proof -
  have "plain_net (tn sample_A)" "plain_net (tn sample_B)" "mac_of (tn sample_A) Server_ether = NetEtherNullAddr"
    using sample_can_send by (simp_all add: sample_A_def sample_B_def plain_net_def can_send_def mac_of_def)
  moreover have "apart (NetTxPacket (tn sample_A)) PKTSIZE_ALIGN (NetArpWaitTxPacket (arpw (tn sample_A))) PKTSIZE_ALIGN"
    "apart 0x9600 PKTSIZE_ALIGN (NetArpWaitTxPacket (arpw (tn sample_A))) PKTSIZE_ALIGN"
    "next_hop (ncfg (tn sample_A)) 0x0100000A = 0x0100000A" "NetOurIP (ncfg (tn sample_A)) \<noteq> 0"
    "NetOurIP (ncfg (tn sample_B)) = 0x0100000A" "NetOurEther (ncfg (tn sample_B)) = [6, 7, 8, 9, 10, 11]"
    by (simp_all add: sample_A_def sample_B_def sample_net_def apart_def next_hop_def)
  ultimately show ?thesis
    using arp_exchange [of sample_A sample_B Server_ether "0x0100000A" "0x9600" 3 69 2000 sample_cfg "0x9600" sample_cfg]
    by (auto simp: mac_of_def Let_def simp del: eth_rx.simps)
qed

end
