(* ===== verification/TftpRun.thy ===== *)
theory TftpRun
  imports Netrx
begin

text \<open>
  A file transfer over TFTP as a whole: the client of \<^verbatim>\<open>net/tftp.c\<close>, reached through \<open>eth_rx\<close>, \<open>NetReceive\<close> and
  the handlers of \<^verbatim>\<open>net/net.c\<close>, against a server that follows RFC 1350 and a network that loses,
  repeats, delays and reorders packets.

  \<open>tftp_run\<close> are the runs: block \<open>k + 1\<close> is only on the network once the client has sent the
  acknowledgement of block \<open>k\<close>, which is read off the frames that were sent.  The main loop looks at \<open>NetState\<close>
  after each frame and each timer.  \<open>xinv\<close> is the invariant: what was acknowledged is in memory.  It gives that a
  transfer that reports success has the file in memory, and in order delivery always succeeds.
  The client is taken from the point at which the address of the server is known.
\<close>

section \<open>A transfer\<close>

record xfer =
  xfile :: "u8 list"
  xbs :: nat
  xserver :: u16
  xour :: u16
  xload :: addr
  xtx :: addr
  xrx :: addr

definition xblocks :: "xfer \<Rightarrow> nat" where
  "xblocks X = length (xfile X) div xbs X + 1"

definition xdata :: "xfer \<Rightarrow> nat \<Rightarrow> u8 list" where
  "xdata X k = take (xbs X) (drop ((k - 1) * xbs X) (xfile X))"

definition xpacket :: "xfer \<Rightarrow> nat \<Rightarrow> u8 list" where
  "xpacket X k = [0, 3, ucast (drop_bit 8 (of_nat k :: u16)), ucast (of_nat k :: u16)] @ xdata X k"

definition frame_udp :: "u8 list \<Rightarrow> u32 \<Rightarrow> u16 \<Rightarrow> u16 \<Rightarrow> u8 list \<Rightarrow> bool" where
  "frame_udp f dest sport dport p \<longleftrightarrow> 42 + length p \<le> length f \<and> length f \<le> PKTSIZE_ALIGN \<and> take (length p) (drop 42 f) = p
     \<and> (\<exists>src. udp_at (write_bytes (\<lambda>_. 0) 0 f) 0 src dest sport dport (length p))"

text \<open>The buffers and the place of the file do not overlap, and the block numbers do not wrap.\<close>

definition xfer_ok :: "xfer \<Rightarrow> bool" where
  "xfer_ok X \<longleftrightarrow> 0 < xbs X \<and> xbs X < 65536 \<and> xblocks X < 65536 \<and> xload X + length (xfile X) < 2 ^ 32
     \<and> apart (xrx X) PKTSIZE_ALIGN (xload X) (length (xfile X)) \<and> apart (xtx X) PKTSIZE_ALIGN (xload X) (length (xfile X))"

text \<open>The first \<open>k\<close> blocks are in memory.\<close>

definition stored :: "xfer \<Rightarrow> net \<Rightarrow> nat \<Rightarrow> bool" where
  "stored X n k \<longleftrightarrow> 1 \<le> k \<and> k \<le> xblocks X
     \<and> (\<forall>j < length (xfile X). j < k * xbs X \<longrightarrow> nmem n (xload X + j) = xfile X ! j)
     \<and> min (k * xbs X) (length (xfile X)) \<le> unat (NetBootFileXferSize n)"

definition acked :: "net \<Rightarrow> nat \<Rightarrow> bool" where
  "acked n k \<longleftrightarrow> (\<exists>f \<in> set (frames (eth n)). frame_ack f = Some k)"

definition xfer_static :: "xfer \<Rightarrow> tnet \<Rightarrow> bool" where
  "xfer_static X st \<longleftrightarrow> can_send (tn st) Server_ether \<and> packetHandler (tn st) = Some TftpHandler_p
     \<and> NetTxPacket (tn st) = xtx X \<and> unat (load_addr (eenv (eth (tn st)))) = xload X
     \<and> unat (TftpBlkSize (tf st)) = xbs X \<and> TftpOurPort (tf st) = xour X"

definition xfer_before :: "xfer \<Rightarrow> tnet \<Rightarrow> bool" where
  "xfer_before X st \<longleftrightarrow> NetState (tn st) = NETLOOP_CONTINUE \<and> TftpBlock (tf st) = 0
     \<and> (TftpState (tf st) = STATE_RRQ \<and> (\<forall>op body. tftp_packet (tf st) = Some (op, body) \<longrightarrow> length body \<le> 1490)
        \<or> TftpState (tf st) = STATE_OACK \<and> TftpServerPort (tf st) = xserver X)"

definition xfer_start :: "xfer \<Rightarrow> tnet \<Rightarrow> bool" where
  "xfer_start X st \<longleftrightarrow> xfer_static X st \<and> xfer_before X st \<and> NetBootFileXferSize (tn st) = 0
     \<and> (\<forall>k. acked (tn st) k \<longrightarrow> k = 0)"

text \<open>What can happen during a transfer.  A data packet arrives after the block before it was acknowledged.
  It can be lost, arrive late or more than once.  Datagrams of other senders and for other ports
  arrive, and timers expire.\<close>

inductive tftp_run :: "env_cfg \<Rightarrow> xfer \<Rightarrow> tnet \<Rightarrow> tnet \<Rightarrow> bool" for cfg X st0 where
  start: "tftp_run cfg X st0 st0"
| data: "tftp_run cfg X st0 st \<Longrightarrow> NetState (tn st) = NETLOOP_CONTINUE \<Longrightarrow> 1 \<le> k \<Longrightarrow> k \<le> xblocks X
    \<Longrightarrow> k = 1 \<or> acked (tn st) (k - 1) \<Longrightarrow> frame_udp f (NetOurIP (ncfg (tn st))) (xserver X) (xour X) (xpacket X k)
    \<Longrightarrow> eth_rx cfg (xrx X) [f] st = Some st' \<Longrightarrow> tftp_run cfg X st0 st'"
| stray: "tftp_run cfg X st0 st \<Longrightarrow> NetState (tn st) = NETLOOP_CONTINUE
    \<Longrightarrow> frame_udp f (NetOurIP (ncfg (tn st))) sport dport p
    \<Longrightarrow> dport \<noteq> xour X \<or> TftpState (tf st) \<noteq> STATE_RRQ \<and> sport \<noteq> TftpServerPort (tf st)
    \<Longrightarrow> eth_rx cfg (xrx X) [f] st = Some st' \<Longrightarrow> tftp_run cfg X st0 st'"
| timeout: "tftp_run cfg X st0 st \<Longrightarrow> NetState (tn st) = NETLOOP_CONTINUE \<Longrightarrow> timeHandler (tn st) = Some x
    \<Longrightarrow> call_timeout cfg (upd_net (\<lambda>n. n\<lparr>timeHandler := None\<rparr>) st) x = Some st' \<Longrightarrow> tftp_run cfg X st0 st'"

section \<open>Blocks\<close>

lemma xdata_length: "length (xdata X k) = min (xbs X) (length (xfile X) - (k - 1) * xbs X)"
  by (simp add: xdata_def)

lemma xdata_nth: "j < length (xdata X k) \<Longrightarrow> xdata X k ! j = xfile X ! ((k - 1) * xbs X + j)"
  using xdata_length [of X k] by (auto simp: xdata_def intro!: nth_drop)

lemma xblock_in:
  assumes "xfer_ok X" "1 \<le> k" "k \<le> xblocks X"
  shows "(k - 1) * xbs X \<le> length (xfile X)" "(k - 1) * xbs X + length (xdata X k) = min (k * xbs X) (length (xfile X))"
proof -
  have "(k - 1) * xbs X \<le> length (xfile X) div xbs X * xbs X" using assms(3) by (intro mult_right_mono) (auto simp: xblocks_def)
  also have "\<dots> \<le> length (xfile X)" by (rule div_times_less_eq_dividend)
  finally show le: "(k - 1) * xbs X \<le> length (xfile X)" .
  have "k * xbs X = (k - 1) * xbs X + xbs X" using assms(2) by (metis add.commute le_add_diff_inverse2 mult_Suc plus_1_eq_Suc)
  then show "(k - 1) * xbs X + length (xdata X k) = min (k * xbs X) (length (xfile X))" using le by (auto simp: xdata_length)
qed

lemma xblock_short:
  assumes "xfer_ok X" "1 \<le> k" "k \<le> xblocks X"
  shows "length (xdata X k) < xbs X \<longleftrightarrow> k = xblocks X"
proof
  assume "length (xdata X k) < xbs X"
  then have "length (xfile X) - (k - 1) * xbs X < xbs X" by (simp add: xdata_length)
  then have "length (xfile X) < (k - 1) * xbs X + xbs X" by linarith
  then have "length (xfile X) div xbs X < (k - 1) + 1" using assms(1) by (simp add: xfer_ok_def less_mult_imp_div_less algebra_simps)
  then show "k = xblocks X" using assms(2,3) by (simp add: xblocks_def)
next
  assume "k = xblocks X"
  then have "(k - 1) * xbs X = length (xfile X) div xbs X * xbs X" by (simp add: xblocks_def)
  then have "length (xfile X) - (k - 1) * xbs X = length (xfile X) mod xbs X" by (metis minus_div_mult_eq_mod)
  then show "length (xdata X k) < xbs X" using assms(1) by (simp add: xdata_length xfer_ok_def)
qed

lemma store_block_stores:
  assumes X: "xfer_ok X" and k: "1 \<le> k" "k \<le> xblocks X"
    and st: "unat (load_addr (eenv (eth (tn st)))) = xload X" "unat (TftpBlkSize (tf st)) = xbs X" "TftpBlockWrapOffset (tf st) = 0"
    and src: "bytes_at (nmem (tn st)) src (length (xdata X k)) = xdata X k"
      "xrx X \<le> src" "src + length (xdata X k) \<le> xrx X + PKTSIZE_ALIGN"
  obtains m s where
    "store_block st (of_nat k - 1) src (length (xdata X k)) = st\<lparr>tn := (tn st)\<lparr>nmem := m, NetBootFileXferSize := s\<rparr>\<rparr>"
    "unat s = max (unat (NetBootFileXferSize (tn st))) (min (k * xbs X) (length (xfile X)))"
    "\<And>i. m i = (if xload X + (k - 1) * xbs X \<le> i \<and> i < xload X + min (k * xbs X) (length (xfile X))
        then xfile X ! (i - xload X) else nmem (tn st) i)"
proof -
  let ?n = "length (xdata X k)" and ?o = "(k - 1) * xbs X"
  note b = xblock_in [OF X k]
  have lt: "xload X + ?o + ?n < 2 ^ 32" using b(2) X by (auto simp: xfer_ok_def)
  have off: "(of_nat k - 1) * ucast (TftpBlkSize (tf st)) + TftpBlockWrapOffset (tf st) = (of_nat ?o :: u32)"
  proof -
    have "ucast (TftpBlkSize (tf st)) = (of_nat (xbs X) :: u32)" by (metis st(2) of_nat_unat)
    then show ?thesis using k(1) st(3) by (simp add: of_nat_diff)
  qed
  have "load_addr (eenv (eth (tn st))) = of_nat (xload X)" by (simp flip: st(1))
  then have d: "unat (load_addr (eenv (eth (tn st))) + of_nat ?o) = xload X + ?o"
    using lt by (simp flip: of_nat_add add: unat_of_nat_u32 del: of_nat_mult)
  have z: "unat (of_nat ?o + of_nat ?n :: u32) = min (k * xbs X) (length (xfile X))"
    unfolding b(2) [symmetric] using lt by (simp flip: of_nat_add add: unat_of_nat_u32 del: of_nat_mult)
  define m where "m = blit (nmem (tn st)) (xload X + ?o) src ?n"
  have "xload X + ?o \<le> src \<or> src + ?n \<le> xload X + ?o"
    using X src(2,3) b by (auto simp: xfer_ok_def apart_def)
  then have cp: "memcpy (nmem (tn st)) (xload X + ?o) src ?n = (m, xload X + ?o)" by (simp add: memcpy_blit m_def)
  define s where "s = (if NetBootFileXferSize (tn st) < of_nat ?o + of_nat ?n then of_nat ?o + of_nat ?n else NetBootFileXferSize (tn st))"
  show thesis
  proof (rule that [of s m])
    show "store_block st (of_nat k - 1) src ?n = st\<lparr>tn := (tn st)\<lparr>nmem := m, NetBootFileXferSize := s\<rparr>\<rparr>"
      by (simp add: store_block_def Let_def off d cp s_def del: of_nat_mult One_nat_def)
    show "unat s = max (unat (NetBootFileXferSize (tn st))) (min (k * xbs X) (length (xfile X)))"
      using z by (auto simp: s_def word_less_nat_alt)
    show "m i = (if xload X + ?o \<le> i \<and> i < xload X + min (k * xbs X) (length (xfile X)) then xfile X ! (i - xload X) else nmem (tn st) i)" for i
    proof (cases "xload X + ?o \<le> i \<and> i < xload X + min (k * xbs X) (length (xfile X))")
      case True
      define j where "j = i - (xload X + ?o)"
      have j: "i = xload X + ?o + j" "j < ?n" using True b(2) by (auto simp: j_def)
      then have "m i = xdata X k ! j" using bytes_at_nth_eq [OF src(1)] by (simp add: m_def)
      then show ?thesis using True j by (simp add: xdata_nth add.assoc)
    next
      case False
      then show ?thesis using b(2) by (auto simp: m_def blit_def)
    qed
  qed
qed

section \<open>The invariant\<close>

definition xinv :: "xfer \<Rightarrow> tnet \<Rightarrow> bool" where
  "xinv X st \<longleftrightarrow> xfer_static X st \<and> unat (NetBootFileXferSize (tn st)) \<le> length (xfile X)
     \<and> (\<forall>k. acked (tn st) k \<longrightarrow> k = 0 \<or> stored X (tn st) k)
     \<and> (NetState (tn st) = NETLOOP_CONTINUE \<or> NetState (tn st) = NETLOOP_SUCCESS \<and> stored X (tn st) (xblocks X))
     \<and> (xfer_before X st \<or> TftpState (tf st) = STATE_DATA \<and> TftpBlockWrapOffset (tf st) = 0
          \<and> TftpServerPort (tf st) = xserver X \<and> stored X (tn st) (unat (TftpBlock (tf st)))
          \<and> stored X (tn st) (unat (TftpLastBlock (tf st))))"

definition aborted :: "tnet \<Rightarrow> bool" where
  "aborted st \<longleftrightarrow> NetState (tn st) = NETLOOP_RESTART \<or> NetState (tn st) = NETLOOP_FAIL
     \<or> NetState (tn st) = NETLOOP_CONTINUE \<and> packetHandler (tn st) = Some startAgainHandler_p
        \<and> (timeHandler (tn st) = None \<or> timeHandler (tn st) = Some startAgainTimeout_p)
        \<and> my_vlan (NetOurVLAN (ncfg (tn st))) AND VLAN_IDMASK = VLAN_NONE"

lemma stored_step:
  assumes "stored X n k" "unat (NetBootFileXferSize n) \<le> unat (NetBootFileXferSize n')"
    and "\<And>j. j < length (xfile X) \<Longrightarrow> nmem n' (xload X + j) = nmem n (xload X + j) \<or> nmem n' (xload X + j) = xfile X ! j"
  shows "stored X n' k"
  using assms unfolding stored_def by (metis (no_types, lifting) le_trans)

lemma acked_append: "frames (eth n') = frames (eth n) @ fs \<Longrightarrow> acked n' k \<longleftrightarrow> acked n k \<or> (\<exists>f \<in> set fs. frame_ack f = Some k)"
  by (auto simp: acked_def)

lemma NetStartAgain_aborted:
  "NetStartAgain cfg n = Some n' \<Longrightarrow> NetState n \<noteq> NETLOOP_SUCCESS
    \<Longrightarrow> my_vlan (NetOurVLAN (ncfg n)) AND VLAN_IDMASK = VLAN_NONE \<Longrightarrow> aborted (st\<lparr>tn := n'\<rparr>)"
  by (cases "NetState n")
    (auto simp: NetStartAgain_def aborted_def NetSetHandler_def NetSetTimeout_def get_timer_def Let_def
      split: Option.bind_splits option.splits prod.splits if_splits)

lemma tftp_start_again_aborted:
  "tftp_start_again cfg st = Some st' \<Longrightarrow> NetState (tn st) \<noteq> NETLOOP_SUCCESS
    \<Longrightarrow> my_vlan (NetOurVLAN (ncfg (tn st))) AND VLAN_IDMASK = VLAN_NONE \<Longrightarrow> aborted st'"
  by (auto simp: tftp_start_again_def NetStartAgain_aborted)

lemma tftp_set_timeout_simps [simp]:
  "tf (tftp_set_timeout st) = tf st"
  "nmem (tn (tftp_set_timeout st)) = nmem (tn st)" "eth (tn (tftp_set_timeout st)) = eth (tn st)"
  "ncfg (tn (tftp_set_timeout st)) = ncfg (tn st)" "NetTxPacket (tn (tftp_set_timeout st)) = NetTxPacket (tn st)"
  "NetServerEther (tn (tftp_set_timeout st)) = NetServerEther (tn st)"
  "packetHandler (tn (tftp_set_timeout st)) = packetHandler (tn st)" "NetState (tn (tftp_set_timeout st)) = NetState (tn st)"
  "NetBootFileXferSize (tn (tftp_set_timeout st)) = NetBootFileXferSize (tn st)"
  by (simp_all add: tftp_set_timeout_def NetSetTimeout_def get_timer_def Let_def)

lemma stored_cong:
  "nmem n' = nmem n \<Longrightarrow> NetBootFileXferSize n' = NetBootFileXferSize n \<Longrightarrow> stored X n' k = stored X n k"
  by (simp add: stored_def)

lemma acked_cong: "frames (eth n') = frames (eth n) \<Longrightarrow> acked n' k = acked n k"
  by (simp add: acked_def)

text \<open>A packet that is sent, from a state that satisfies all but the condition on \<open>NetState\<close>.\<close>

lemma TftpSend_inv:
  assumes X: "xfer_ok X" and inv: "xinv X st" and st': "TftpSend st = Some st'"
  shows "xinv X st' \<and> tf st' = tf st \<and> NetState (tn st') = NetState (tn st) \<and> (\<forall>k. stored X (tn st) k \<longrightarrow> stored X (tn st') k)
    \<and> (TftpState (tf st) = STATE_DATA \<longrightarrow> acked (tn st') (unat (TftpBlock (tf st))))"
proof -
  have cs: "can_send (tn st) Server_ether" and x: "NetTxPacket (tn st) = xtx X"
    using inv by (simp_all add: xinv_def xfer_static_def)
  have *: "\<exists>m f. st' = st\<lparr>tn := (tn st)\<lparr>nmem := m, NetIPID := NetIPID (tn st) + 1, eth := (eth (tn st))\<lparr>frames := frames (eth (tn st)) @ [f]\<rparr>\<rparr>\<rparr>
      \<and> (\<forall>i. i < xtx X \<or> xtx X + PKTSIZE_ALIGN \<le> i \<longrightarrow> m i = nmem (tn st) i)
      \<and> frame_ack f = (if TftpState (tf st) = STATE_RRQ then None else Some (unat (TftpBlock (tf st))))"
  proof (cases "TftpState (tf st) = STATE_RRQ")
    case True
    then have small: "\<And>op body. tftp_packet (tf st) = Some (op, body) \<Longrightarrow> length body \<le> 1490"
      using inv by (auto simp: xinv_def xfer_before_def)
    obtain body where pk: "tftp_packet (tf st) = Some (TFTP_RRQ, body)"
      using st' True by (auto simp: TftpSend_def tftp_packet_def Let_def split: Option.bind_splits)
    obtain m where s: "TftpSend st = Some (st\<lparr>tn := (tn st)\<lparr>nmem := m, NetIPID := NetIPID (tn st) + 1,
       eth := (eth (tn st))\<lparr>frames := frames (eth (tn st)) @ [bytes_at m (NetTxPacket (tn st)) (44 + length body)]\<rparr>\<rparr>\<rparr>)"
      and b: "bytes_at m (NetTxPacket (tn st) + 42) (2 + length body) = [ucast (drop_bit 8 TFTP_RRQ), ucast TFTP_RRQ] @ body"
      and same: "\<And>i. i < NetTxPacket (tn st) \<or> NetTxPacket (tn st) + 46 + length body \<le> i \<Longrightarrow> m i = nmem (tn st) i"
      using TftpSend_sent [OF cs pk] by blast
    have "m (NetTxPacket (tn st) + 43) = 1" using bytes_at_nth_eq [OF b, of 1] by (simp add: ac_simps)
    then have "frame_ack (bytes_at m (NetTxPacket (tn st)) (44 + length body)) = None" by (simp add: frame_ack_def)
    then show ?thesis using s st' True same small [OF pk] x
      by (intro exI [of _ m] exI [of _ "bytes_at m (NetTxPacket (tn st)) (44 + length body)"]) simp
  next
    case False
    have k: "unat (TftpBlock (tf st)) < 65536" "TftpState (tf st) = STATE_DATA \<or> TftpState (tf st) = STATE_OACK"
      using inv False X by (auto simp: xinv_def xfer_before_def stored_def xfer_ok_def)
    obtain m f where "TftpSend st = Some (st\<lparr>tn := (tn st)\<lparr>nmem := m, NetIPID := NetIPID (tn st) + 1,
       eth := (eth (tn st))\<lparr>frames := frames (eth (tn st)) @ [f]\<rparr>\<rparr>\<rparr>)"
      "frame_ack f = Some (unat (TftpBlock (tf st)))"
      "\<And>i. i < NetTxPacket (tn st) \<or> NetTxPacket (tn st) + 48 \<le> i \<Longrightarrow> m i = nmem (tn st) i"
      using TftpSend_ack [OF cs k(2) refl k(1)] by blast
    then show ?thesis using st' False x by (intro exI [of _ m] exI [of _ f]) simp
  qed
  then obtain m f where s: "st' = st\<lparr>tn := (tn st)\<lparr>nmem := m, NetIPID := NetIPID (tn st) + 1, eth := (eth (tn st))\<lparr>frames := frames (eth (tn st)) @ [f]\<rparr>\<rparr>\<rparr>"
    and same: "\<And>i. i < xtx X \<or> xtx X + PKTSIZE_ALIGN \<le> i \<Longrightarrow> m i = nmem (tn st) i"
    and f: "frame_ack f = (if TftpState (tf st) = STATE_RRQ then None else Some (unat (TftpBlock (tf st))))"
    by blast
  have keep: "stored X (tn st') k" if "stored X (tn st) k" for k
    using that X by (rule_tac stored_step) (auto simp: s xfer_ok_def apart_def intro!: same)
  have ack: "acked (tn st') k \<longleftrightarrow> acked (tn st) k \<or> frame_ack f = Some k" for k by (auto simp: acked_def s)
  have "acked (tn st') k \<Longrightarrow> k = 0 \<or> stored X (tn st') k" for k
    using inv f keep unfolding ack by (auto simp: xinv_def xfer_before_def split: if_splits)
  moreover have "xfer_static X st'" "xfer_before X st' = xfer_before X st"
    using inv by (simp_all add: s xinv_def xfer_static_def can_send_def mac_of_def xfer_before_def)
  moreover have "tf st' = tf st" "NetState (tn st') = NetState (tn st)" "NetBootFileXferSize (tn st') = NetBootFileXferSize (tn st)"
    by (simp_all add: s)
  moreover have "acked (tn st') (unat (TftpBlock (tf st)))" if "TftpState (tf st) = STATE_DATA"
    using that by (simp add: ack f)
  ultimately show ?thesis using inv keep unfolding xinv_def by auto
qed

section \<open>Steps\<close>

lemma xinv_cong:
  assumes "xinv X st" "tf st' = tf st" "eth (tn st') = eth (tn st)" "ncfg (tn st') = ncfg (tn st)"
    "NetTxPacket (tn st') = NetTxPacket (tn st)" "NetServerEther (tn st') = NetServerEther (tn st)"
    "packetHandler (tn st') = packetHandler (tn st)" "NetState (tn st') = NetState (tn st)"
    "NetBootFileXferSize (tn st') = NetBootFileXferSize (tn st)"
    "\<And>j. j < length (xfile X) \<Longrightarrow> nmem (tn st') (xload X + j) = nmem (tn st) (xload X + j)"
  shows "xinv X st'"
proof -
  have "stored X (tn st') k = stored X (tn st) k" for k using assms(9,10) by (auto simp: stored_def)
  moreover have "acked (tn st') k = acked (tn st) k" for k using assms(3) by (simp add: acked_def)
  ultimately show ?thesis
    using assms(1-9) by (simp add: xinv_def xfer_static_def xfer_before_def can_send_def mac_of_def)
qed

definition first_data :: "tnet \<Rightarrow> bool" where
  "first_data st \<longleftrightarrow> TftpState (tf st) = STATE_RRQ \<or> TftpState (tf st) = STATE_OACK"

text \<open>The globals when block \<open>k\<close> has been recognised, and the state in which its data is stored.\<close>

definition data_tf :: "xfer \<Rightarrow> tnet \<Rightarrow> nat \<Rightarrow> tftp" where
  "data_tf X st k = (let t = (tf st)\<lparr>TftpBlock := of_nat k\<rparr> in if first_data st then t\<lparr>TftpState := STATE_DATA,
     TftpServerPort := xserver X, TftpLastBlock := 0, TftpBlockWrap := 0, TftpBlockWrapOffset := 0\<rparr> else t)"

definition data_new :: "xfer \<Rightarrow> tnet \<Rightarrow> nat \<Rightarrow> tnet" where
  "data_new X st k = tftp_set_timeout (st\<lparr>tf := (data_tf X st k)\<lparr>TftpLastBlock := of_nat k, TftpTimeoutCountMax := TIMEOUT_COUNT\<rparr>\<rparr>)"

definition finish :: "xfer \<Rightarrow> nat \<Rightarrow> tnet \<Rightarrow> tnet" where
  "finish X k st = (if (of_nat (length (xdata X k)) :: u32) < ucast (TftpBlkSize (tf st))
     then st\<lparr>tn := (tn st)\<lparr>NetState := NETLOOP_SUCCESS\<rparr>\<rparr> else st)"

lemma u32_of_block:
  assumes "xfer_ok X" "1 \<le> k" "k \<le> xblocks X"
  shows "(of_nat k :: u32) \<noteq> 0" "(of_nat k :: u32) = 1 \<longleftrightarrow> k = 1" "unat (of_nat k :: u32) = k"
    "ucast (of_nat k :: u16) = (of_nat k :: u32)"
    "unat (of_nat (2 + length (xdata X k)) :: u32) = 2 + length (xdata X k)"
    "unat (of_nat (length (xdata X k)) :: u32) = length (xdata X k)"
proof -
  have k: "k < 65536" and n: "length (xdata X k) < 65536"
    using assms by (auto simp: xfer_ok_def xdata_length min_less_iff_disj)
  show "(of_nat k :: u32) \<noteq> 0" "(of_nat k :: u32) = 1 \<longleftrightarrow> k = 1" "unat (of_nat k :: u32) = k"
    using k assms(2) by (simp_all add: word_unat_eq_iff unat_of_nat_u32)
  show "ucast (of_nat k :: u16) = (of_nat k :: u32)"
    using k by (simp add: word_unat_eq_iff unsigned_ucast_eq unsigned_of_nat take_bit_nat_eq_self)
  show "unat (of_nat (2 + length (xdata X k)) :: u32) = 2 + length (xdata X k)"
    "unat (of_nat (length (xdata X k)) :: u32) = length (xdata X k)"
    using unat_of_nat_u32 [of "2 + length (xdata X k)"] unat_of_nat_u32 [of "length (xdata X k)"] n by simp_all
qed

lemma TftpData_eq:
  assumes X: "xfer_ok X" and k: "1 \<le> k" "k \<le> xblocks X"
    and num: "load16 (nmem (tn st)) pkt = htons (of_nat k)"
  shows "TftpData cfg st pkt (xserver X) (of_nat (2 + length (xdata X k))) =
    (if first_data st \<and> k \<noteq> 1 then tftp_start_again cfg (st\<lparr>tf := data_tf X st k\<rparr>)
     else if of_nat k = TftpLastBlock (data_tf X st k) then Some (st\<lparr>tf := data_tf X st k\<rparr>)
     else do { s \<leftarrow> TftpSend (store_block (data_new X st k) (of_nat k - 1) (pkt + 2) (length (xdata X k))); Some (finish X k s) })"
proof -
  note u = u32_of_block [OF X k]
  have num': "ucast (htons (load16 (nmem (tn st)) pkt)) = (of_nat k :: u32)" by (simp add: num u)
  have len: "\<not> of_nat (2 + length (xdata X k)) < (2 :: u32)" "of_nat (2 + length (xdata X k)) - 2 = (of_nat (length (xdata X k)) :: u32)"
    using u(5) by (simp_all add: word_less_nat_alt del: of_nat_add)
  define t0 where "t0 = (tf st)\<lparr>TftpBlock := of_nat k\<rparr>"
  have t0: "TftpBlock t0 = of_nat k" "TftpState t0 = TftpState (tf st)" by (simp_all add: t0_def)
  define t where "t = data_tf X st k"
  have t: "(if first_data st then t0\<lparr>TftpState := STATE_DATA, TftpServerPort := xserver X, TftpLastBlock := 0,
      TftpBlockWrap := 0, TftpBlockWrapOffset := 0\<rparr> else t0) = t"
    by (simp add: t_def data_tf_def t0_def Let_def)
  have tb: "TftpBlock t = of_nat k" by (simp add: t_def data_tf_def Let_def)
  have set1: "tf (st\<lparr>tf := u\<rparr>) = u" "(st\<lparr>tf := t\<rparr>)\<lparr>tf := u\<rparr> = st\<lparr>tf := u\<rparr>" for u by simp_all
  have new: "tftp_set_timeout (st\<lparr>tf := t\<lparr>TftpLastBlock := of_nat k, TftpTimeoutCountMax := TIMEOUT_COUNT\<rparr>\<rparr>) = data_new X st k"
    by (simp add: data_new_def t_def)
  have nb: "TftpBlock (tf (data_new X st k)) = of_nat k" by (simp add: data_new_def tb flip: t_def)
  show ?thesis
    by (simp only: TftpData_def num' t0_def [symmetric] t0 u(1,2) len Let_def if_False first_data_def [symmetric]
      t t_def [symmetric] tb set1 new nb u(6) finish_def)
qed

lemma data_tf_simps:
  assumes "xinv X st"
  shows "TftpBlock (data_tf X st k) = of_nat k" "TftpBlkSize (data_tf X st k) = TftpBlkSize (tf st)"
    "TftpOurPort (data_tf X st k) = TftpOurPort (tf st)" "TftpState (data_tf X st k) = STATE_DATA"
    "TftpBlockWrapOffset (data_tf X st k) = 0" "TftpServerPort (data_tf X st k) = xserver X"
    "TftpLastBlock (data_tf X st k) = (if first_data st then 0 else TftpLastBlock (tf st))"
    "\<not> first_data st \<Longrightarrow> stored X (tn st) (unat (TftpLastBlock (tf st)))"
  using assms by (auto simp: data_tf_def Let_def first_data_def xinv_def xfer_before_def)

text \<open>A block that is not the last one again is stored and acknowledged.\<close>

lemma data_accept:
  assumes X: "xfer_ok X" and inv: "xinv X st" and run: "NetState (tn st) = NETLOOP_CONTINUE"
    and k: "1 \<le> k" "k \<le> xblocks X" and prev: "k = 1 \<or> stored X (tn st) (k - 1)"
    and blk: "bytes_at (nmem (tn st)) (pkt + 2) (length (xdata X k)) = xdata X k"
    and pkt: "xrx X \<le> pkt" "pkt + 2 + length (xdata X k) \<le> xrx X + PKTSIZE_ALIGN"
  obtains s where "TftpSend (store_block (data_new X st k) (of_nat k - 1) (pkt + 2) (length (xdata X k))) = Some s"
    "xinv X (finish X k s)" "tf (finish X k s) = tf (data_new X st k)" "ncfg (tn (finish X k s)) = ncfg (tn st)"
    "NetState (tn (finish X k s)) = (if k = xblocks X then NETLOOP_SUCCESS else NETLOOP_CONTINUE)"
    "acked (tn (finish X k s)) k"
proof -
  let ?n = "length (xdata X k)"
  note t = data_tf_simps [OF inv] and u = u32_of_block [OF X k]
  define st2 where "st2 = data_new X st k"
  define st3 where "st3 = store_block st2 (of_nat k - 1) (pkt + 2) ?n"
  have st2: "tf st2 = (data_tf X st k)\<lparr>TftpLastBlock := of_nat k, TftpTimeoutCountMax := TIMEOUT_COUNT\<rparr>" "nmem (tn st2) = nmem (tn st)"
    "NetBootFileXferSize (tn st2) = NetBootFileXferSize (tn st)" "eth (tn st2) = eth (tn st)" "ncfg (tn st2) = ncfg (tn st)"
    "NetState (tn st2) = NetState (tn st)" "NetServerEther (tn st2) = NetServerEther (tn st)"
    "packetHandler (tn st2) = packetHandler (tn st)" "NetTxPacket (tn st2) = NetTxPacket (tn st)"
    by (simp_all add: st2_def data_new_def)
  obtain m s where st3: "st3 = st2\<lparr>tn := (tn st2)\<lparr>nmem := m, NetBootFileXferSize := s\<rparr>\<rparr>"
    and s: "unat s = max (unat (NetBootFileXferSize (tn st))) (min (k * xbs X) (length (xfile X)))"
    and m: "\<And>i. m i = (if xload X + (k - 1) * xbs X \<le> i \<and> i < xload X + min (k * xbs X) (length (xfile X))
      then xfile X ! (i - xload X) else nmem (tn st) i)"
    unfolding st3_def
  proof (rule store_block_stores [OF X k, of st2 "pkt + 2"])
    show "unat (load_addr (eenv (eth (tn st2)))) = xload X" "unat (TftpBlkSize (tf st2)) = xbs X"
      using inv t(2) by (simp_all add: st2 xinv_def xfer_static_def)
  qed (use t blk pkt in \<open>auto simp: st2\<close>)
  have keep: "stored X (tn st3) j" if "stored X (tn st) j" for j
    using that by (rule stored_step) (auto simp: st3 s m)
  have "nmem (tn st3) (xload X + j) = xfile X ! j" if "j < length (xfile X)" "j < k * xbs X" for j
  proof (cases "(k - 1) * xbs X \<le> j")
    case False
    then have "stored X (tn st) (k - 1)" using prev by auto
    then show ?thesis using False that(1) by (simp add: st3 m stored_def)
  qed (use that in \<open>simp add: st3 m\<close>)
  then have sk: "stored X (tn st3) k" using k by (simp add: stored_def st3 s)
  have ac: "acked (tn st3) j \<longleftrightarrow> acked (tn st) j" for j by (simp add: st3 acked_def st2)
  have "xinv X st3"
    unfolding xinv_def ac
  proof (intro conjI)
    show "xfer_static X st3"
      using inv t by (simp add: st3 st2 xinv_def xfer_static_def can_send_def mac_of_def)
    show "unat (NetBootFileXferSize (tn st3)) \<le> length (xfile X)" using inv by (simp add: st3 s xinv_def)
    show "\<forall>k. acked (tn st) k \<longrightarrow> k = 0 \<or> stored X (tn st3) k" using inv keep by (auto simp: xinv_def)
    show "NetState (tn st3) = NETLOOP_CONTINUE \<or> NetState (tn st3) = NETLOOP_SUCCESS \<and> stored X (tn st3) (xblocks X)"
      using run by (simp add: st3 st2)
    show "xfer_before X st3 \<or> TftpState (tf st3) = STATE_DATA \<and> TftpBlockWrapOffset (tf st3) = 0
        \<and> TftpServerPort (tf st3) = xserver X \<and> stored X (tn st3) (unat (TftpBlock (tf st3)))
        \<and> stored X (tn st3) (unat (TftpLastBlock (tf st3)))"
      using t sk u by (simp add: st3 st2)
  qed
  note send = TftpSend_inv [OF X this]
  have "\<exists>s4. TftpSend st3 = Some s4 \<and> ncfg (tn s4) = ncfg (tn st3)"
  proof -
    have cs: "can_send (tn st3) Server_ether" using inv by (simp add: st3 st2 xinv_def xfer_static_def can_send_def mac_of_def)
    have s: "TftpState (tf st3) = STATE_DATA \<or> TftpState (tf st3) = STATE_OACK" "unat (TftpBlock (tf st3)) = k" "k < 65536"
      using t u k X by (simp_all add: st3 st2 xfer_ok_def)
    obtain m f where "TftpSend st3 = Some (st3\<lparr>tn := (tn st3)\<lparr>nmem := m, NetIPID := NetIPID (tn st3) + 1,
       eth := (eth (tn st3))\<lparr>frames := frames (eth (tn st3)) @ [f]\<rparr>\<rparr>\<rparr>)" using TftpSend_ack [OF cs s] by blast
    then show ?thesis by simp
  qed
  then obtain s4 where s4: "TftpSend st3 = Some s4" "ncfg (tn s4) = ncfg (tn st3)" by blast
  note s4' = send [OF s4(1)]
  have "TftpBlkSize (tf s4) = TftpBlkSize (tf st)" using s4' t by (simp add: st3 st2)
  then have short: "(of_nat ?n :: u32) < ucast (TftpBlkSize (tf s4)) \<longleftrightarrow> k = xblocks X"
    using xblock_short [OF X k] u(6) inv X
    by (simp add: word_less_nat_alt xinv_def xfer_ok_def xfer_static_def unsigned_ucast_eq take_bit_nat_eq_self)
  have "xinv X (finish X k s4)"
  proof (cases "k = xblocks X")
    case True
    define st' where "st' = s4\<lparr>tn := (tn s4)\<lparr>NetState := NETLOOP_SUCCESS\<rparr>\<rparr>"
    have nb: "TftpState (tf s4) = STATE_DATA" using s4' t by (simp add: st3 st2)
    have same: "stored X (tn st') j = stored X (tn s4) j" "acked (tn st') j = acked (tn s4) j" for j
      by (simp_all add: st'_def stored_def acked_def)
    have "xinv X st'" using s4' sk True nb unfolding xinv_def same
      by (auto simp: st'_def xfer_static_def can_send_def mac_of_def xfer_before_def)
    then show ?thesis using True short by (simp add: finish_def st'_def)
  qed (use short s4' in \<open>simp add: finish_def\<close>)
  moreover have "acked (tn (finish X k s4)) k"
    using s4' t u by (simp add: finish_def acked_def st3 st2)
  ultimately show thesis
    by (rule_tac that [OF s4(1) [unfolded st3_def st2_def]])
      (use short s4 s4' run in \<open>simp_all add: finish_def st3 st2_def [symmetric] st2\<close>)
qed

lemma TftpData_inv:
  assumes X: "xfer_ok X" and inv: "xinv X st" and run: "NetState (tn st) = NETLOOP_CONTINUE"
    and k: "1 \<le> k" "k \<le> xblocks X" and prev: "k = 1 \<or> stored X (tn st) (k - 1)"
    and num: "load16 (nmem (tn st)) pkt = htons (of_nat k)"
    and blk: "bytes_at (nmem (tn st)) (pkt + 2) (length (xdata X k)) = xdata X k"
    and pkt: "xrx X \<le> pkt" "pkt + 2 + length (xdata X k) \<le> xrx X + PKTSIZE_ALIGN"
    and st': "TftpData cfg st pkt (xserver X) (of_nat (2 + length (xdata X k))) = Some st'"
  shows "xinv X st' \<or> aborted st'"
proof -
  note t = data_tf_simps [OF inv] and u = u32_of_block [OF X k]
  note eq = st' [unfolded TftpData_eq [OF X k num]]
  consider "first_data st \<and> k \<noteq> 1" | "\<not> (first_data st \<and> k \<noteq> 1)" "of_nat k = TftpLastBlock (data_tf X st k)"
    | "\<not> (first_data st \<and> k \<noteq> 1)" "of_nat k \<noteq> TftpLastBlock (data_tf X st k)" by blast
  then show ?thesis
  proof cases
    case 1
    then have "tftp_start_again cfg (st\<lparr>tf := data_tf X st k\<rparr>) = Some st'" using eq by simp
    then have "aborted st'" by (rule tftp_start_again_aborted)
      (use inv run in \<open>simp_all add: xinv_def xfer_static_def can_send_def\<close>)
    then show ?thesis ..
  next
    case 2
    then have f: "\<not> first_data st" using u(1) t(7) by auto
    have "st' = st\<lparr>tf := data_tf X st k\<rparr>" using eq unfolding if_not_P [OF 2(1)] if_P [OF 2(2)] by simp
    moreover have "stored X (tn st) k" using t(8) [OF f] 2(2) f u by (simp add: t(7) flip: 2(2))
    ultimately have "xinv X st'" using inv f t u by (auto simp: xinv_def xfer_static_def)
    then show ?thesis ..
  next
    case 3
    obtain s where s: "TftpSend (store_block (data_new X st k) (of_nat k - 1) (pkt + 2) (length (xdata X k))) = Some s"
      "xinv X (finish X k s)" using data_accept [OF X inv run k prev blk pkt] by blast
    have "st' = finish X k s" using eq unfolding if_not_P [OF 3(1)] if_not_P [OF 3(2)] s(1) by simp
    then show ?thesis using s(2) by simp
  qed
qed

text \<open>The next block is always stored.\<close>

lemma TftpData_next:
  assumes X: "xfer_ok X" and inv: "xinv X st" and run: "NetState (tn st) = NETLOOP_CONTINUE"
    and k: "1 \<le> k" "k \<le> xblocks X"
    and prev: "if k = 1 then first_data st else TftpState (tf st) = STATE_DATA \<and> TftpLastBlock (tf st) = of_nat (k - 1)"
    and num: "load16 (nmem (tn st)) pkt = htons (of_nat k)"
    and blk: "bytes_at (nmem (tn st)) (pkt + 2) (length (xdata X k)) = xdata X k"
    and pkt: "xrx X \<le> pkt" "pkt + 2 + length (xdata X k) \<le> xrx X + PKTSIZE_ALIGN"
  obtains st' where "TftpData cfg st pkt (xserver X) (of_nat (2 + length (xdata X k))) = Some st'"
    "xinv X st'" "TftpState (tf st') = STATE_DATA" "TftpLastBlock (tf st') = of_nat k" "ncfg (tn st') = ncfg (tn st)"
    "NetState (tn st') = (if k = xblocks X then NETLOOP_SUCCESS else NETLOOP_CONTINUE)" "acked (tn st') k"
proof -
  note t = data_tf_simps [OF inv] and u = u32_of_block [OF X k]
  have f: "\<not> (first_data st \<and> k \<noteq> 1)" using prev by (auto simp: first_data_def split: if_splits)
  have uk: "unat (of_nat (k - 1) :: u32) = k - 1" using k X by (intro unat_of_nat_u32) (auto simp: xfer_ok_def)
  have "stored X (tn st) (k - 1)" if "k \<noteq> 1" using that prev t(8) f uk by auto
  then have prev': "k = 1 \<or> stored X (tn st) (k - 1)" by blast
  have l: "of_nat k \<noteq> TftpLastBlock (data_tf X st k)"
  proof
    assume "of_nat k = TftpLastBlock (data_tf X st k)"
    then have "unat (of_nat k :: u32) = (if k = 1 then 0 else k - 1)" using prev f t(7) uk by (auto split: if_splits)
    then show False using u(3) k(1) by (auto split: if_splits)
  qed
  obtain s where s: "TftpSend (store_block (data_new X st k) (of_nat k - 1) (pkt + 2) (length (xdata X k))) = Some s"
    "xinv X (finish X k s)" "tf (finish X k s) = tf (data_new X st k)" "ncfg (tn (finish X k s)) = ncfg (tn st)"
    "NetState (tn (finish X k s)) = (if k = xblocks X then NETLOOP_SUCCESS else NETLOOP_CONTINUE)"
    "acked (tn (finish X k s)) k"
    using data_accept [OF X inv run k prev' blk pkt] by blast
  have "TftpData cfg st pkt (xserver X) (of_nat (2 + length (xdata X k))) = Some (finish X k s)"
    unfolding TftpData_eq [OF X k num] if_not_P [OF f] if_not_P [OF l] s(1) by simp
  then show thesis
    by (rule that) (use s t in \<open>simp_all add: data_new_def\<close>)
qed

text \<open>A datagram in the receive buffer.\<close>

lemma eth_rx_udp:
  assumes f: "frame_udp f (NetOurIP (ncfg (tn st))) sport dport p"
    and vlan: "my_vlan (NetOurVLAN (ncfg (tn st))) AND VLAN_IDMASK = VLAN_NONE"
    and st1: "st1 = upd_net (\<lambda>n. n\<lparr>nmem := write_bytes (nmem n) rx f\<rparr>) st"
  shows "eth_rx cfg rx [f] st = call_handler cfg st1 (rx + 42) dport sport (of_nat (length p))"
    and "bytes_at (nmem (tn st1)) (rx + 42) (length p) = p"
proof -
  obtain src where u: "udp_at (write_bytes (\<lambda>_. 0) 0 f) 0 src (NetOurIP (ncfg (tn st))) sport dport (length p)"
    and len: "42 + length p \<le> length f" "length f \<le> 1536" and p: "take (length p) (drop 42 f) = p"
    using f by (auto simp: frame_udp_def)
  have "udp_at (nmem (tn st1)) rx src (NetOurIP (ncfg (tn st))) sport dport (length p)"
    using u len(1) by (subst udp_at_cong [where m' = "write_bytes (\<lambda>_. 0) 0 f" and b = 0]) (simp_all add: st1 upd_net_def write_bytes_def)
  moreover have "NetOurIP (ncfg (tn st1)) = NetOurIP (ncfg (tn st))" by (simp add: st1 upd_net_def)
  ultimately have "NetReceive cfg st1 rx (int (length f)) = call_handler cfg st1 (rx + 42) dport sport (of_nat (length p))"
    using len vlan by (intro NetReceive_udp [where src = src and dest = "NetOurIP (ncfg (tn st))"]) (simp_all add: st1 upd_net_def)
  then show "eth_rx cfg rx [f] st = call_handler cfg st1 (rx + 42) dport sport (of_nat (length p))"
    by (simp only: eth_rx_one st1)
  have "nmem (tn st1) (rx + 42 + i) = p ! i" if "i < length p" for i
    using that len(1) p by (simp add: st1 upd_net_def write_bytes_def) (metis nth_drop nth_take le_add1 le_trans)
  then show "bytes_at (nmem (tn st1)) (rx + 42) (length p) = p" by (auto intro: nth_equalityI)
qed

lemma rx_inv:
  assumes "xfer_ok X" "xinv X st" "length f \<le> PKTSIZE_ALIGN"
  shows "xinv X (upd_net (\<lambda>n. n\<lparr>nmem := write_bytes (nmem n) (xrx X) f\<rparr>) st)"
  using assms(1,3) by (intro xinv_cong [OF assms(2)]) (auto simp: upd_net_def write_bytes_def xfer_ok_def apart_def)

lemma data_arrives:
  assumes X: "xfer_ok X" and inv: "xinv X st"
    and f: "frame_udp f (NetOurIP (ncfg (tn st))) (xserver X) (xour X) (xpacket X k)"
  obtains st1 where "eth_rx cfg (xrx X) [f] st = TftpData cfg st1 (xrx X + 44) (xserver X) (of_nat (2 + length (xdata X k)))"
    "xinv X st1" "NetState (tn st1) = NetState (tn st)" "tf st1 = tf st" "ncfg (tn st1) = ncfg (tn st)"
    "\<And>j. stored X (tn st) j \<Longrightarrow> stored X (tn st1) j"
    "load16 (nmem (tn st1)) (xrx X + 44) = htons (of_nat k)"
    "bytes_at (nmem (tn st1)) (xrx X + 44 + 2) (length (xdata X k)) = xdata X k"
    "xrx X + 44 + 2 + length (xdata X k) \<le> xrx X + PKTSIZE_ALIGN"
proof -
  define st1 where "st1 = upd_net (\<lambda>n. n\<lparr>nmem := write_bytes (nmem n) (xrx X) f\<rparr>) st"
  have len: "length f \<le> 1536" "42 + length (xpacket X k) \<le> length f" using f by (simp_all add: frame_udp_def)
  have inv1: "xinv X st1" unfolding st1_def by (rule rx_inv) (use X inv len in simp_all)
  have vlan: "my_vlan (NetOurVLAN (ncfg (tn st))) AND VLAN_IDMASK = VLAN_NONE"
    using inv by (simp add: xinv_def xfer_static_def can_send_def)
  note r = eth_rx_udp(1) [OF f vlan st1_def, of cfg] eth_rx_udp(2) [OF f vlan st1_def]
  define n where "n = length (xdata X k)"
  have pl: "length (xpacket X k) = 4 + n" by (simp add: xpacket_def n_def)
  note b = bytes_at_nth_eq [OF r(2)]
  have op: "load16 (nmem (tn st1)) (xrx X + 42) = htons 3"
    by (rule load16_bytes) (use b [of 0] b [of 1] in \<open>simp_all add: pl xpacket_def byte_of_htons\<close>)
  have num: "load16 (nmem (tn st1)) (xrx X + 44) = htons (of_nat k)"
    by (rule load16_bytes) (use b [of 2] b [of 3] in \<open>simp_all add: pl xpacket_def byte_of_htons ac_simps\<close>)
  have blk: "bytes_at (nmem (tn st1)) (xrx X + 44 + 2) (length (xdata X k)) = xdata X k"
  proof (rule nth_equalityI)
    fix i assume "i < length (bytes_at (nmem (tn st1)) (xrx X + 44 + 2) (length (xdata X k)))"
    then show "bytes_at (nmem (tn st1)) (xrx X + 44 + 2) (length (xdata X k)) ! i = xdata X k ! i"
      using b [of "4 + i"] by (simp add: pl n_def xpacket_def ac_simps)
  qed simp
  have n: "n < 65536" using len pl by simp
  have l: "\<not> of_nat (4 + n) < (2 :: u32)" "of_nat (4 + n) - 2 = (of_nat (2 + n) :: u32)"
    using n unat_of_nat_u32 [of "4 + n"] by (simp_all add: word_less_nat_alt)
  have "TftpOurPort (tf st1) = xour X" "packetHandler (tn st1) = Some TftpHandler_p"
    "TftpState (tf st1) \<noteq> STATE_RRQ \<Longrightarrow> TftpServerPort (tf st1) = xserver X"
    using inv1 by (auto simp: xinv_def xfer_static_def xfer_before_def)
  then have d: "eth_rx cfg (xrx X) [f] st = TftpData cfg st1 (xrx X + 44) (xserver X) (of_nat (2 + length (xdata X k)))"
    unfolding r(1) by (auto simp: call_handler_def TftpHandler_def Let_def pl l op add.commute [of "44 :: nat"] n_def [symmetric] simp del: of_nat_add)
  have keep: "stored X (tn st1) j" if "stored X (tn st) j" for j
    using that len(1) X by (rule_tac stored_step) (auto simp: st1_def upd_net_def write_bytes_def xfer_ok_def apart_def)
  show thesis
    by (rule that [OF d inv1 _ _ _ keep num blk]) (use len pl n_def in \<open>simp_all add: st1_def upd_net_def\<close>)
qed

lemma data_step:
  assumes X: "xfer_ok X" and inv: "xinv X st" and run: "NetState (tn st) = NETLOOP_CONTINUE"
    and k: "1 \<le> k" "k \<le> xblocks X" "k = 1 \<or> acked (tn st) (k - 1)"
    and f: "frame_udp f (NetOurIP (ncfg (tn st))) (xserver X) (xour X) (xpacket X k)"
    and rx: "eth_rx cfg (xrx X) [f] st = Some st'"
  shows "xinv X st' \<or> aborted st'"
proof -
  obtain st1 where st1: "eth_rx cfg (xrx X) [f] st = TftpData cfg st1 (xrx X + 44) (xserver X) (of_nat (2 + length (xdata X k)))"
    "xinv X st1" "NetState (tn st1) = NetState (tn st)" "\<And>j. stored X (tn st) j \<Longrightarrow> stored X (tn st1) j"
    "load16 (nmem (tn st1)) (xrx X + 44) = htons (of_nat k)"
    "bytes_at (nmem (tn st1)) (xrx X + 44 + 2) (length (xdata X k)) = xdata X k"
    "xrx X + 44 + 2 + length (xdata X k) \<le> xrx X + PKTSIZE_ALIGN"
    using data_arrives [OF X inv f] by blast
  have run1: "NetState (tn st1) = NETLOOP_CONTINUE" using st1(3) run by simp
  have prev: "k = 1 \<or> stored X (tn st1) (k - 1)" using k inv st1(4) by (auto simp: xinv_def)
  show ?thesis
    by (rule TftpData_inv [OF X st1(2) run1 k(1,2) prev st1(5,6) _ st1(7)]) (use rx st1(1) in simp_all)
qed

lemma data_next:
  assumes X: "xfer_ok X" and inv: "xinv X st" and run: "NetState (tn st) = NETLOOP_CONTINUE"
    and k: "1 \<le> k" "k \<le> xblocks X"
    and prev: "if k = 1 then first_data st else TftpState (tf st) = STATE_DATA \<and> TftpLastBlock (tf st) = of_nat (k - 1)"
    and f: "frame_udp f (NetOurIP (ncfg (tn st))) (xserver X) (xour X) (xpacket X k)"
  obtains st' where "eth_rx cfg (xrx X) [f] st = Some st'"
    "xinv X st'" "TftpState (tf st') = STATE_DATA" "TftpLastBlock (tf st') = of_nat k" "ncfg (tn st') = ncfg (tn st)"
    "NetState (tn st') = (if k = xblocks X then NETLOOP_SUCCESS else NETLOOP_CONTINUE)" "acked (tn st') k"
proof -
  obtain st1 where st1: "eth_rx cfg (xrx X) [f] st = TftpData cfg st1 (xrx X + 44) (xserver X) (of_nat (2 + length (xdata X k)))"
    "xinv X st1" "NetState (tn st1) = NetState (tn st)" "tf st1 = tf st" "ncfg (tn st1) = ncfg (tn st)"
    "load16 (nmem (tn st1)) (xrx X + 44) = htons (of_nat k)"
    "bytes_at (nmem (tn st1)) (xrx X + 44 + 2) (length (xdata X k)) = xdata X k"
    "xrx X + 44 + 2 + length (xdata X k) \<le> xrx X + PKTSIZE_ALIGN"
    using data_arrives [OF X inv f] by blast
  have run1: "NetState (tn st1) = NETLOOP_CONTINUE" using st1(3) run by simp
  have prev1: "if k = 1 then first_data st1 else TftpState (tf st1) = STATE_DATA \<and> TftpLastBlock (tf st1) = of_nat (k - 1)"
    using prev unfolding st1(4) first_data_def .
  obtain st' where "TftpData cfg st1 (xrx X + 44) (xserver X) (of_nat (2 + length (xdata X k))) = Some st'"
    "xinv X st'" "TftpState (tf st') = STATE_DATA" "TftpLastBlock (tf st') = of_nat k" "ncfg (tn st') = ncfg (tn st1)"
    "NetState (tn st') = (if k = xblocks X then NETLOOP_SUCCESS else NETLOOP_CONTINUE)" "acked (tn st') k"
    by (rule TftpData_next [OF X st1(2) run1 k prev1 st1(6,7) _ st1(8)]) simp
  then show thesis using st1(1,5) that by simp
qed

lemma timeout_step:
  assumes X: "xfer_ok X" and inv: "xinv X st" and run: "NetState (tn st) = NETLOOP_CONTINUE"
    and t: "call_timeout cfg (upd_net (\<lambda>n. n\<lparr>timeHandler := None\<rparr>) st) x = Some st'"
  shows "xinv X st' \<or> aborted st'"
proof (cases x)
  case TftpTimeout_p
  define st1 where "st1 = (let st = upd_net (\<lambda>n. n\<lparr>timeHandler := None\<rparr>) st in st\<lparr>tf := (tf st)\<lparr>TftpTimeoutCount := TftpTimeoutCount (tf st) + 1\<rparr>\<rparr>)"
  have st1: "tn st1 = (tn st)\<lparr>timeHandler := None\<rparr>" "tf st1 = (tf st)\<lparr>TftpTimeoutCount := TftpTimeoutCount (tf st) + 1\<rparr>"
    by (simp_all add: st1_def upd_net_def)
  have pk: "tftp_packet (tf st1) = tftp_packet (tf st)" by (cases "TftpState (tf st)") (simp_all add: st1 tftp_packet_def)
  have same: "stored X (tn st1) k = stored X (tn st) k" "acked (tn st1) k = acked (tn st) k" for k
    by (simp_all add: stored_def acked_def st1)
  have "xinv X st1" using inv unfolding xinv_def same xfer_before_def pk
    by (simp add: st1 xfer_static_def can_send_def mac_of_def)
  then have inv2: "xinv X (tftp_set_timeout st1)" by (rule xinv_cong) simp_all
  have "(if TftpTimeoutCountMax (tf st1) < TftpTimeoutCount (tf st1) then tftp_start_again cfg st1 else TftpSend (tftp_set_timeout st1)) = Some st'"
    using t by (simp only: TftpTimeout_p call_timeout_def TftpTimeout_def Let_def st1_def thand.case)
  then show ?thesis
    using tftp_start_again_aborted [of cfg st1 st'] TftpSend_inv [OF X inv2] run inv
    by (auto simp: st1 xinv_def xfer_static_def can_send_def split: if_splits)
qed (use t in \<open>auto simp: call_timeout_def aborted_def PingTimeout_def startAgainTimeout_def\<close>)

lemma aborted_step:
  assumes "aborted st" "NetState (tn st) = NETLOOP_CONTINUE"
  shows "frame_udp f (NetOurIP (ncfg (tn st))) sport dport p \<Longrightarrow> eth_rx cfg rx [f] st = Some st' \<Longrightarrow> aborted st'"
    and "timeHandler (tn st) = Some x \<Longrightarrow> call_timeout cfg (upd_net (\<lambda>n. n\<lparr>timeHandler := None\<rparr>) st) x = Some st' \<Longrightarrow> aborted st'"
proof -
  assume f: "frame_udp f (NetOurIP (ncfg (tn st))) sport dport p" and rx: "eth_rx cfg rx [f] st = Some st'"
  have vlan: "my_vlan (NetOurVLAN (ncfg (tn st))) AND VLAN_IDMASK = VLAN_NONE" using assms by (auto simp: aborted_def)
  then show "aborted st'"
    using rx assms unfolding eth_rx_udp(1) [OF f vlan refl] by (auto simp: aborted_def call_handler_def upd_net_def)
qed (use assms in \<open>auto simp: aborted_def call_timeout_def upd_net_def startAgainTimeout_def\<close>)

lemma stray_step:
  assumes X: "xfer_ok X" and inv: "xinv X st" and f: "frame_udp f (NetOurIP (ncfg (tn st))) sport dport p"
    and other: "dport \<noteq> xour X \<or> TftpState (tf st) \<noteq> STATE_RRQ \<and> sport \<noteq> TftpServerPort (tf st)"
    and rx: "eth_rx cfg (xrx X) [f] st = Some st'"
  shows "xinv X st'"
proof -
  define st1 where "st1 = upd_net (\<lambda>n. n\<lparr>nmem := write_bytes (nmem n) (xrx X) f\<rparr>) st"
  have inv1: "xinv X st1" unfolding st1_def by (rule rx_inv) (use X inv f in \<open>simp_all add: frame_udp_def\<close>)
  have vlan: "my_vlan (NetOurVLAN (ncfg (tn st))) AND VLAN_IDMASK = VLAN_NONE"
    using inv by (simp add: xinv_def xfer_static_def can_send_def)
  note r = eth_rx_udp(1) [OF f vlan st1_def, of cfg] eth_rx_udp(2) [OF f vlan st1_def]
  have "TftpOurPort (tf st1) = xour X" "packetHandler (tn st1) = Some TftpHandler_p" "tf st1 = tf st"
    using inv1 by (auto simp: xinv_def xfer_static_def st1_def upd_net_def)
  then have "eth_rx cfg (xrx X) [f] st = Some st1"
    using other unfolding r(1) by (auto simp: call_handler_def TftpHandler_def)
  then show ?thesis using rx inv1 by simp
qed

lemma tftp_run_inv:
  assumes "tftp_run cfg X st0 st" "xfer_ok X" "xfer_start X st0"
  shows "xinv X st \<or> aborted st"
  using assms(1)
proof induction
  case start
  have "xinv X st0" using assms(3) by (auto simp: xfer_start_def xinv_def xfer_before_def)
  then show ?case ..
next
  case (data st k f st')
  from data.IH show ?case
  proof
    assume "xinv X st"
    then show ?thesis by (rule data_step [OF assms(2) _ data.hyps(2-7)])
  next
    assume "aborted st"
    then show ?thesis using aborted_step(1) data.hyps by blast
  qed
next
  case (stray st f sport dport p st')
  then show ?case using stray_step [OF assms(2)] aborted_step(1) by blast
next
  case (timeout st x st')
  then show ?case using timeout_step [OF assms(2)] aborted_step(2) by blast
qed

lemma xinv_success:
  assumes "xinv X st" "NetState (tn st) = NETLOOP_SUCCESS" "xfer_ok X"
  shows "bytes_at (nmem (tn st)) (xload X) (length (xfile X)) = xfile X" "unat (NetBootFileXferSize (tn st)) = length (xfile X)"
proof -
  have s: "stored X (tn st) (xblocks X)" and le: "unat (NetBootFileXferSize (tn st)) \<le> length (xfile X)"
    using assms by (auto simp: xinv_def)
  have bs: "length (xfile X) < xblocks X * xbs X"
    using assms(3) by (simp add: xfer_ok_def xblocks_def add.commute dividend_less_div_times)
  show "unat (NetBootFileXferSize (tn st)) = length (xfile X)" using s le bs by (auto simp: stored_def)
  show "bytes_at (nmem (tn st)) (xload X) (length (xfile X)) = xfile X"
    using s bs by (auto simp: stored_def intro!: nth_equalityI)
qed

section \<open>Properties\<close>

text \<open>C4: however packets are lost, delayed, repeated or reordered, and whichever timers expire, a TFTP transfer in which the
  client reports success has put the file at the load address, and \<^verbatim>\<open>NetBootFileXferSize\<close> is its length.\<close>

theorem tftp_safe:
  assumes "xfer_ok X" "xfer_start X st0" "tftp_run cfg X st0 st" "NetState (tn st) = NETLOOP_SUCCESS"
  shows "bytes_at (nmem (tn st)) (xload X) (length (xfile X)) = xfile X
    \<and> unat (NetBootFileXferSize (tn st)) = length (xfile X)"
  using tftp_run_inv [OF assms(3,1,2)] xinv_success [OF _ assms(4,1)] assms(4) by (auto simp: aborted_def)

lemma eth_rx_append: "eth_rx cfg rx (fs @ gs) st = Option.bind (eth_rx cfg rx fs st) (eth_rx cfg rx gs)"
  by (induction fs arbitrary: st) (auto simp: Let_def split: Option.bind_split)

lemma transfer_in_order:
  assumes X: "xfer_ok X" and start: "xfer_start X st" and n: "length fs = xblocks X"
    and fs: "\<And>i. i < xblocks X \<Longrightarrow> frame_udp (fs ! i) (NetOurIP (ncfg (tn st))) (xserver X) (xour X) (xpacket X (i + 1))"
  shows "\<exists>st'. eth_rx cfg (xrx X) fs st = Some st' \<and> NetState (tn st') = NETLOOP_SUCCESS
    \<and> xinv X st' \<and> tftp_run cfg X st st'"
proof -
  have "\<exists>st'. eth_rx cfg (xrx X) (take k fs) st = Some st' \<and> xinv X st' \<and> ncfg (tn st') = ncfg (tn st)
      \<and> tftp_run cfg X st st' \<and> (0 < k \<longrightarrow> acked (tn st') k)
      \<and> (if k = 0 then first_data st' else TftpState (tf st') = STATE_DATA \<and> TftpLastBlock (tf st') = of_nat k)
      \<and> NetState (tn st') = (if k = xblocks X then NETLOOP_SUCCESS else NETLOOP_CONTINUE)" if "k \<le> xblocks X" for k
    using that
  proof (induction k)
    case 0
    have "xinv X st" using start by (auto simp: xfer_start_def xinv_def xfer_before_def)
    moreover have "first_data st" using start by (auto simp: xfer_start_def xfer_before_def first_data_def)
    moreover have "NetState (tn st) = NETLOOP_CONTINUE" using start by (auto simp: xfer_start_def xfer_before_def)
    ultimately show ?case by (auto simp: xblocks_def intro: tftp_run.start)
  next
    case (Suc k)
    then obtain s where s: "eth_rx cfg (xrx X) (take k fs) st = Some s" "xinv X s" "ncfg (tn s) = ncfg (tn st)"
      "if k = 0 then first_data s else TftpState (tf s) = STATE_DATA \<and> TftpLastBlock (tf s) = of_nat k"
      "NetState (tn s) = NETLOOP_CONTINUE" "tftp_run cfg X st s" "0 < k \<longrightarrow> acked (tn s) k" by auto
    have f: "frame_udp (fs ! k) (NetOurIP (ncfg (tn s))) (xserver X) (xour X) (xpacket X (Suc k))"
      using fs [of k] Suc.prems s(3) by simp
    obtain st' where st': "eth_rx cfg (xrx X) [fs ! k] s = Some st'" "xinv X st'" "TftpState (tf st') = STATE_DATA"
      "TftpLastBlock (tf st') = of_nat (Suc k)" "ncfg (tn st') = ncfg (tn s)"
      "NetState (tn st') = (if Suc k = xblocks X then NETLOOP_SUCCESS else NETLOOP_CONTINUE)" "acked (tn st') (Suc k)"
      by (rule data_next [OF X s(2,5) _ Suc.prems _ f]) (use s(4) in \<open>simp_all split: if_splits\<close>)
    moreover have "tftp_run cfg X st st'"
      by (rule tftp_run.data [OF s(6,5) _ Suc.prems _ f st'(1)]) (use s(7) in auto)
    ultimately show ?case using s(1,3) n Suc.prems by (simp add: take_Suc_conv_app_nth eth_rx_append del: eth_rx.simps of_nat_Suc)
  qed
  from this [of "xblocks X"] obtain st' where "eth_rx cfg (xrx X) fs st = Some st'" "xinv X st'" "NetState (tn st') = NETLOOP_SUCCESS"
    "tftp_run cfg X st st'" using n by auto
  then show ?thesis by blast
qed

text \<open>C5: the blocks of a file, received in order, make the client report success, with the file at the load
  address and its length in \<^verbatim>\<open>NetBootFileXferSize\<close>.\<close>

theorem tftp_transfer:
  assumes X: "xfer_ok X" and start: "xfer_start X st" and n: "length fs = xblocks X"
    and fs: "\<And>i. i < xblocks X \<Longrightarrow> frame_udp (fs ! i) (NetOurIP (ncfg (tn st))) (xserver X) (xour X) (xpacket X (i + 1))"
  shows "\<exists>st'. eth_rx cfg (xrx X) fs st = Some st' \<and> NetState (tn st') = NETLOOP_SUCCESS
    \<and> bytes_at (nmem (tn st')) (xload X) (length (xfile X)) = xfile X
    \<and> unat (NetBootFileXferSize (tn st')) = length (xfile X)"
  using transfer_in_order [OF assms, of cfg] xinv_success [OF _ _ X] by blast

text \<open>A frame that the stack sends is one that it takes.\<close>

lemma frame_udp_sent:
  assumes "can_send n ether" "dest \<noteq> 0" "length p \<le> 1494"
    and "bytes_at (nmem n) (NetTxPacket n + 42) (length p) = p"
    and f: "f = last (frames (eth (snd (NetSendUDPPacket n ether dest dport sport (length p)))))"
  shows "frame_udp f dest sport dport p"
proof -
  obtain m where send: "NetSendUDPPacket n ether dest dport sport (length p) = (0, n\<lparr>nmem := m, NetIPID := NetIPID n + 1,
       eth := (eth n)\<lparr>frames := frames (eth n) @ [bytes_at m (NetTxPacket n) (42 + length p)]\<rparr>\<rparr>)"
    and u: "udp_at m (NetTxPacket n) (NetOurIP (ncfg n)) dest sport dport (length p)"
    and same: "\<And>i. NetTxPacket n + 42 \<le> i \<Longrightarrow> i \<noteq> NetTxPacket n + 42 + length p \<Longrightarrow> m i = nmem n i"
  proof (rule NetSendUDPPacket_sent [OF assms(1), of dest dest dport sport "length p"])
    show "dest = (if dest = 0 then 0xFFFFFFFF else dest)" using assms(2) by simp
  qed blast
  have f: "f = bytes_at m (NetTxPacket n) (42 + length p)" using send f by simp
  have "udp_at (write_bytes (\<lambda>_. 0) 0 f) 0 (NetOurIP (ncfg n)) dest sport dport (length p)"
    using u by (subst udp_at_cong [where m' = m and b = "NetTxPacket n"]) (simp_all add: f write_bytes_def)
  moreover have "take (length p) (drop 42 f) = p"
  proof (rule nth_equalityI)
    fix i assume "i < length (take (length p) (drop 42 f))"
    then show "take (length p) (drop 42 f) ! i = p ! i"
      using bytes_at_nth_eq [OF assms(4), of i] by (simp add: f same add.assoc)
  qed (simp add: f)
  ultimately show ?thesis using assms(3) by (auto simp: frame_udp_def f)
qed

definition sample_xfer :: xfer where
  "sample_xfer = \<lparr>xfile = [1, 2, 3, 4, 5, 6], xbs = 4, xserver = 3000, xour = 2000, xload = 0x1000, xtx = 0x9000, xrx = 0x9600\<rparr>"

text \<open>The frame in which the server sends block \<open>k\<close>.\<close>

definition sample_frame :: "nat \<Rightarrow> u8 list" where
  "sample_frame k = (let p = xpacket sample_xfer k in
     last (frames (eth (snd (NetSendUDPPacket (sample_server p) Server_ether 0x0200000A 2000 3000 (length p))))))"

lemma sample_frame_ok: "k \<le> 3 \<Longrightarrow> frame_udp (sample_frame k) 0x0200000A 3000 2000 (xpacket sample_xfer k)"
  unfolding sample_frame_def Let_def
  by (rule frame_udp_sent [OF server_can_send _ _ _ refl])
    (auto simp: xpacket_def xdata_def sample_xfer_def sample_server_def sample_net_def write_bytes_def intro!: nth_equalityI)

lemma sample_start: "xfer_ok sample_xfer" "xfer_start sample_xfer sample_tnet" "xblocks sample_xfer = 2"
  "NetOurIP (ncfg (tn sample_tnet)) = 0x0200000A"
  using sample_can_send
  by (simp_all add: xfer_ok_def xfer_start_def xfer_static_def xfer_before_def sample_xfer_def sample_tnet_def apart_def
      xblocks_def acked_def) (simp_all add: sample_net_def sample_eth_def)

lemma sample_frames_ok: "i < xblocks sample_xfer \<Longrightarrow> frame_udp ([sample_frame 1, sample_frame 2] ! i) (NetOurIP (ncfg (tn sample_tnet)))
    (xserver sample_xfer) (xour sample_xfer) (xpacket sample_xfer (i + 1))"
  using sample_frame_ok [of 1] sample_frame_ok [of 2] sample_start(3,4)
  by (auto simp: less_Suc_eq numeral_2_eq_2 sample_xfer_def)

theorem tftp_transfer_witness:
  "\<exists>st'. eth_rx sample_cfg 0x9600 [sample_frame 1, sample_frame 2] sample_tnet = Some st' \<and> NetState (tn st') = NETLOOP_SUCCESS
    \<and> bytes_at (nmem (tn st')) 0x1000 6 = [1, 2, 3, 4, 5, 6] \<and> unat (NetBootFileXferSize (tn st')) = 6"
proof -
  from tftp_transfer [OF sample_start(1,2) _ sample_frames_ok, of sample_cfg] show ?thesis
    using sample_start(3) by (simp add: sample_xfer_def del: eth_rx.simps)
qed


theorem tftp_safe_witness:
  "\<exists>st. tftp_run sample_cfg sample_xfer sample_tnet st \<and> NetState (tn st) = NETLOOP_SUCCESS
    \<and> bytes_at (nmem (tn st)) 0x1000 6 = [1, 2, 3, 4, 5, 6] \<and> unat (NetBootFileXferSize (tn st)) = 6"
proof -
  obtain st where st: "tftp_run sample_cfg sample_xfer sample_tnet st" "NetState (tn st) = NETLOOP_SUCCESS"
    using transfer_in_order [OF sample_start(1,2) _ sample_frames_ok, of sample_cfg] sample_start(3) by auto
  have x: "xload sample_xfer = 0x1000" "length (xfile sample_xfer) = 6" "xfile sample_xfer = [1, 2, 3, 4, 5, 6]"
    by (simp_all add: sample_xfer_def)
  from tftp_safe [OF sample_start(1,2) st, unfolded x(2), unfolded x(1,3)] st show ?thesis by blast
qed

end
