(* ===== verification/Spec2Isabelle.thy ===== *)
theory Spec2Isabelle
  imports Prelude CString Ctype Vsprintf Crc32 Stdio Env SpiFlash EnvSf Volkh Mss Readline Command
    Cmdline Autoboot Lmb Image Bootm Eth Net Tftp Netrx Resolve TftpRun
begin

text \<open>
  Verification of the U-Boot boot loader as it is configured for the board m2s-volkh
  (\<^verbatim>\<open>include/configs/m2s-volkh.h\<close>: a SmartFusion2 with a Cortex-M3 core, its environment in
  SPI flash).

  \<^bold>\<open>The program.\<close>  After reset the loader sets up the console (\<^verbatim>\<open>common/stdio.c\<close>,
  \<^verbatim>\<open>common/console.c\<close>), reads its environment from SPI flash (\<^verbatim>\<open>common/env_sf.c\<close> over
  \<^verbatim>\<open>drivers/mtd/spi\<close>), checks the CRC (\<^verbatim>\<open>lib_generic/crc32.c\<close>) or falls back to the default
  environment, and then runs commands that read and change the environment
  (\<^verbatim>\<open>common/cmd_nvedit.c\<close>) and parse and print numbers (\<^verbatim>\<open>lib_generic/vsprintf.c\<close>,
  \<^verbatim>\<open>lib_generic/ctype.c\<close>) and strings (\<^verbatim>\<open>lib_generic/string.c\<close>).  Unless a key stops it
  (\<^verbatim>\<open>common/main.c\<close>), it runs the command in \<^verbatim>\<open>bootcmd\<close>, in the end \<^verbatim>\<open>bootm\<close>
  (\<^verbatim>\<open>common/cmd_bootm.c\<close>), which checks an image (\<^verbatim>\<open>common/image.c\<close>), places it with the
  table of reserved memory (\<^verbatim>\<open>lib_generic/lmb.c\<close>) and starts it (\<^verbatim>\<open>lib_arm/bootm.c\<close>).  Images can also
  be loaded over the network: \<open>NetLoop\<close> (\<^verbatim>\<open>net/net.c\<close>) starts an interface (\<^verbatim>\<open>net/eth.c\<close>) and runs the TFTP
  client (\<^verbatim>\<open>net/tftp.c\<close>), which answers packets and timeouts through the handlers it sets.

  \<^bold>\<open>The theories.\<close>

  \<^item> \<open>Prelude\<close>: the types of machine integers, the byte store, little-endian loads and stores,
    C strings in the store, alignment of words.
  \<^item> \<open>CString\<close>: \<^verbatim>\<open>string.c\<close>, every function over the byte store; the locale \<open>block_copy\<close> is the
    contract of the copy routines.
  \<^item> \<open>Ctype\<close> and \<open>Vsprintf\<close>: the class table with the macros, the number parsers, \<open>vsprintf\<close>.
    The decimal conversion is shown equal to division by ten, and printing followed by
    parsing to be the identity.
  \<^item> \<open>Crc32\<close>: the table CRC, shown equal to the bitwise CRC-32.
  \<^item> \<open>Stdio\<close>: the list of console devices and their assignment to stdin, stdout, stderr.
  \<^item> \<open>Env\<close>: the environment block as an array of characters, with every loop of \<open>getenv\<close>,
    \<open>getenv_r\<close>, \<open>printenv\<close> and \<open>_do_setenv\<close> (\<open>do_setenv_common\<close>) as the C code has it.
    \<open>env_rep\<close> relates the array to a list of definitions; the operations are shown to refine the
    obvious operations on that list, and the locale \<open>var_store\<close> states what clients may rely on.
  \<^item> \<open>SpiFlash\<close>: the command layer, the probe, both flash drivers of the board and the
    chunked transfers.  The bus is a record of functions on the state of the hardware;
    \<open>nor_chip\<close> states what the data sheets promise, and \<open>sim_bus\<close> is a simulated chip that keeps
    the promises.  The locale \<open>flash_dev\<close> is the interface between the transfers and the drivers.
  \<^item> \<open>EnvSf\<close>: saving the environment to flash and loading it at boot.
  \<^item> \<open>Volkh\<close>: the constants and the default environment of the board.

  \<^item> \<open>Mss\<close>: the board's \<open>mss\<close> command (\<^verbatim>\<open>cpu/arm_cortexm3/m2s/cmd_mss.c\<close>) over the environment and
    the bus; the system services of the chip (the vendor's driver) are a parameter, and may not answer.

  \<^item> \<open>Readline\<close>: reading a line from the console with its echo and editing keys; the screen is
    shown to display the buffer.
  \<^item> \<open>Command\<close> and \<open>Cmdline\<close>: the command table with its search and \<^verbatim>\<open>help\<close>, splitting a line
    into arguments, substitution of variables, sequences of commands.
  \<^item> \<open>Autoboot\<close>: the boot counter and the choice of the boot command, the key buffer that stops
    autoboot.
  \<^item> \<open>Lmb\<close>: tables of memory regions as \<open>lib_generic/lmb.c\<close> keeps them, shown to refine sets of
    bytes; allocation is shown to find the highest free place.
  \<^item> \<open>Image\<close>: legacy images, their checks and multi-file contents, and the tool that writes them
    (\<^verbatim>\<open>tools/mkimage.c\<close>); what is written reads back, and a changed byte is detected.
  \<^item> \<open>Bootm\<close>: \<^verbatim>\<open>bootm\<close> from the arguments to the jump, with its state machine of sub-commands and
    the tag list of the kernel; only checked images are started, also by sub-commands, and a good image is started.

  \<^item> \<open>Eth\<close>: the ring of network interfaces, their hardware addresses and the variable \<^verbatim>\<open>ethact\<close>.  The
    ring is a list in which the last is followed by the first; the results of the drivers are a
    stream.  \<open>eth_ok\<close> is kept by every operation, and \<open>eth_init\<close> is shown to end
    after trying the interfaces in the order of the ring.
  \<^item> \<open>Net\<close>: the part of \<^verbatim>\<open>net.c\<close> that sends: headers and checksums in the store, UDP, the start and
    the timeout of an address resolution, ping, timers and handlers, retries.  The clock is a stream.
  \<^item> \<open>Tftp\<close>: the TFTP client, with the file stored at \<^verbatim>\<open>load_addr\<close>.
  \<^item> \<open>Netrx\<close>: reception (\<open>NetReceive\<close> for ARP, RARP, IP, ICMP, UDP) and the main loop \<open>NetLoop\<close> on a
    list of events: the frames that arrive in a round and whether ^C was pressed.  The driver puts every
    frame into the same receive buffer.
  \<^item> \<open>Resolve\<close>: the exchange of an ARP request, its answer and the packet that waited, between two machines.
  \<^item> \<open>TftpRun\<close>: the inductive relation \<open>tftp_run\<close> of all runs of a transfer, in which a step is one frame, of the
    server or of the network, or one timer, as long as \<^verbatim>\<open>NetState\<close> is \<^verbatim>\<open>NETLOOP_CONTINUE\<close>; its invariant \<open>xinv\<close> gives
    that a reported success is one, and the blocks in order do give success.

  \<^bold>\<open>Conventions.\<close>  \<open>int\<close> and \<open>long\<close> have 32 bits, \<open>char\<close> is unsigned.  Where a loop of the C code
  may not end, or an access is undefined, the model is a \<open>partial_function (option)\<close> and the
  value is \<open>None\<close>; that the code does return is then part of the theorems.  No fuel is used.

  \<^bold>\<open>Bounds.\<close>  The flash theorems are for chips of at most 16 MiB, since the drivers send three
  address bytes; \<open>nor_chip\<close> allows a program or erase operation 900 status polls, which is
  below the time-out of the drivers.

  The TFTP theorems are for files of less than 2^16 blocks, since a repeated block 0 breaks longer transfers.

  \<^bold>\<open>Not modelled.\<close>  Register-level drivers, the output of progress messages, the Hush shell,
  the requests of BOOTP, RARP and NFS, multicast TFTP, CDP and defragmentation (not built), FIT images and device trees
  (not built), the decompressor zlib; code of other boards, processors and file systems, which is
  not part of this board's image.
\<close>

end
